(* ===== verification/Prelude.thy ===== *)
theory Prelude
  imports Main "HOL-Library.Word" "HOL-Library.Signed_Division"
begin

text \<open>
  Shared vocabulary of the development: the names of the C integer types, the
  collections of rewrite rules the component theories extend, and the generic
  facts on words, lists and options that several components need.
\<close>

unbundle bit_operations_syntax

subsection \<open>Names for the C types\<close>

type_synonym byte = "8 word"
type_synonym u16 = "16 word"
type_synonym u32 = "32 word"
type_synonym u64 = "64 word"

text \<open>A byte buffer: the bytes of a C array between its base pointer and its length.\<close>
type_synonym bytes = "byte list"

subsection \<open>Collections\<close>

named_theorems codec_simps \<open>rewrite rules of the LoRa bit-level codec\<close>
named_theorems reader_simps \<open>rewrite rules of the byte readers\<close>
named_theorems inv_intros \<open>introduction rules that re-establish an invariant\<close>
named_theorems bound_rules \<open>bounds on the sizes the code writes into fixed arrays\<close>

subsection \<open>Words\<close>

text \<open>Shifts stay shifts: the bit lemmas reason about them.\<close>

declare push_bit_Suc [simp del] drop_bit_Suc [simp del]

lemma word_xor_cancel_left [simp]: "a XOR (a XOR b) = (b :: 'a::len word)"
  by (simp add: xor.assoc [symmetric])

lemma word_xor_cancel_right [simp]: "(b XOR a) XOR a = (b :: 'a::len word)"
  by (simp add: xor.assoc)

lemmas word_xor_ac = xor.assoc xor.commute xor.left_commute

lemma word_xor_eq_zero_iff: "a XOR b = 0 \<longleftrightarrow> a = (b :: 'a::len word)"
  by (metis word_xor_cancel_left xor.right_neutral xor_self_eq)

lemma word_xor_move: "a XOR b = c \<longleftrightarrow> a = c XOR (b :: 'a::len word)"
  by auto

lemma unat_drop_bit_1_less [simp]:
  "s \<noteq> 0 \<Longrightarrow> unat (drop_bit (Suc 0) s) < unat (s :: 'a::len word)"
proof -
  assume "s \<noteq> 0"
  then have "0 < unat s" by (simp add: unat_gt_0)
  moreover have "unat (drop_bit (Suc 0) s) = unat s div 2"
    by (metis unat_drop_bit_eq drop_bit_eq_div power_one_right One_nat_def)
  ultimately show ?thesis by simp
qed

lemma not_bit_above:
  fixes w :: "'a::len word"
  assumes "unat w < 2 ^ m" "m \<le> n"
  shows "\<not> bit w n"
proof -
  have "unat w < 2 ^ n"
    using assms(1) power_increasing [OF assms(2), of "2 :: nat"] by linarith
  then have "\<not> bit (unat w) n" by (simp add: bit_iff_odd)
  then show ?thesis by (simp add: bit_unsigned_iff)
qed

lemma unat_less_if_not_bit:
  fixes w :: "'a::len word"
  assumes "\<And>n. m \<le> n \<Longrightarrow> \<not> bit w n"
  shows "unat w < 2 ^ m"
proof -
  have "take_bit m w = w"
    by (rule bit_word_eqI) (metis assms bit_take_bit_iff not_less)
  then have "unat w = take_bit m (unat w)" by (metis unsigned_take_bit_eq)
  then show ?thesis by (metis take_bit_nat_less_exp)
qed

lemma uint_less_of_unat:
  fixes w :: "'a::len word"
  assumes "unat w < 2 ^ m" shows "uint w < 2 ^ m"
proof -
  have "int (unat w) < int (2 ^ m)" using assms by (simp only: of_nat_less_iff)
  then show ?thesis by simp
qed

lemma byte_not_bit_above_4: "nib < (16 :: byte) \<Longrightarrow> 4 \<le> n \<Longrightarrow> \<not> bit nib n"
  using not_bit_above [of nib 4 n] by (simp add: word_less_nat_alt)

lemma and_15_take_bit: "b AND 0x0f = take_bit 4 (b :: byte)"
  by (simp add: take_bit_eq_mask mask_eq_exp_minus_1)

lemma byte_of_nibbles: "push_bit 4 (drop_bit 4 b) OR (b AND 0x0f) = (b :: byte)"
  by (rule bit_word_eqI) (auto simp: and_15_take_bit bit_or_iff bit_push_bit_iff bit_drop_bit_eq bit_take_bit_iff)

subsection \<open>Lists\<close>

lemma length_concat_const:
  "\<forall>x\<in>set xs. length (f x) = n \<Longrightarrow> length (concat (map f xs)) = n * length xs"
  by (induction xs) auto

lemma nth_concat_const:
  assumes "\<forall>x\<in>set xs. length (f x) = n" "i < n * length xs"
  shows "concat (map f xs) ! i = f (xs ! (i div n)) ! (i mod n)"
  using assms
proof (induction xs arbitrary: i)
  case (Cons x xs)
  then show ?case
  proof (cases "i < n")
    case True
    then show ?thesis using Cons.prems by (simp add: nth_append)
  next
    case False
    then have n: "n \<noteq> 0" using Cons.prems(2) by (cases n) auto
    have "concat (map f (x # xs)) ! i = concat (map f xs) ! (i - n)"
      using False Cons.prems(1) by (simp add: nth_append)
    also have "\<dots> = f (xs ! ((i - n) div n)) ! ((i - n) mod n)"
      using Cons False by auto
    also have "\<dots> = f ((x # xs) ! (i div n)) ! (i mod n)"
      using False n by (simp add: le_div_geq le_mod_geq)
    finally show ?thesis .
  qed
qed simp

lemma map_nth_upt_take: "n \<le> length xs \<Longrightarrow> map ((!) xs) [0..<n] = take n xs"
  by (rule nth_equalityI) auto

lemma find_append:
  "find P (xs @ ys) = (case find P xs of None \<Rightarrow> find P ys | Some x \<Rightarrow> Some x)"
  by (induction xs) auto

lemma find_map_upt_Some:
  "find P [0..<n] = Some i \<longleftrightarrow> i < n \<and> P i \<and> (\<forall>j<i. \<not> P j)"
proof
  assume "find P [0..<n] = Some i"
  then obtain k where "k < n" "P ([0..<n] ! k)" "i = [0..<n] ! k" "\<forall>j<k. \<not> P ([0..<n] ! j)"
    by (auto simp: find_Some_iff)
  then show "i < n \<and> P i \<and> (\<forall>j<i. \<not> P j)" by simp
next
  assume "i < n \<and> P i \<and> (\<forall>j<i. \<not> P j)"
  then show "find P [0..<n] = Some i"
    by (auto simp: find_Some_iff intro!: exI [of _ i])
qed

lemma find_upt_None: "find P [0..<n] = None \<longleftrightarrow> (\<forall>j<n. \<not> P j)"
  by (auto simp: find_None_iff)

text \<open>Copying a short array over the front of a longer one.\<close>

definition overwrite :: "'a list \<Rightarrow> 'a list \<Rightarrow> 'a list" where
  "overwrite new old = new @ drop (length new) old"

lemma length_overwrite [simp]: "length new \<le> length old \<Longrightarrow> length (overwrite new old) = length old"
  by (simp add: overwrite_def)

lemma take_overwrite [simp]: "take (length new) (overwrite new old) = new"
  by (simp add: overwrite_def)

subsection \<open>Positions in a ring\<close>

lemma mod_add_inj:
  assumes "i < s" "j < s" "(t + i) mod s = (t + j) mod (s :: nat)"
  shows "i = j"
proof -
  have "i \<le> j \<Longrightarrow> j < s \<Longrightarrow> (t + j) mod s = (t + i) mod s \<Longrightarrow> i = j" for i j
    using mod_eq_dvd_iff_nat [of "t + i" "t + j" s] by (auto dest: dvd_imp_le)
  then show ?thesis using assms by (metis nat_le_linear)
qed

end
