(* ===== verification/Lora_Codec.thy ===== *)
theory Lora_Codec
  imports Prelude
begin

text \<open>
  The bit-level LoRa codec of \<^verbatim>\<open>src/lora.c\<close>: whitening, Gray mapping, the Hamming
  decoder for the four coding rates, the CRC-16 and the diagonal deinterleaver.
  Every routine is a pure function here, as it is in the source.  The encoder
  side (what a LoRa transmitter does) is not in the program; the reference
  encoders below are the specification the decoders are compared with.
\<close>

subsection \<open>Whitening\<close>

definition LORA_WHITEN :: bytes where
  "LORA_WHITEN = [
    0xff, 0xfe, 0xfc, 0xf8, 0xf0, 0xe1, 0xc2, 0x85, 0x0b, 0x17, 0x2f, 0x5e, 0xbc, 0x78, 0xf1, 0xe3,
    0xc6, 0x8d, 0x1a, 0x34, 0x68, 0xd0, 0xa0, 0x40, 0x80, 0x01, 0x02, 0x04, 0x08, 0x11, 0x23, 0x47,
    0x8e, 0x1c, 0x38, 0x71, 0xe2, 0xc4, 0x89, 0x12, 0x25, 0x4b, 0x97, 0x2e, 0x5c, 0xb8, 0x70, 0xe0,
    0xc0, 0x81, 0x03, 0x06, 0x0c, 0x19, 0x32, 0x64, 0xc9, 0x92, 0x24, 0x49, 0x93, 0x26, 0x4d, 0x9b,
    0x37, 0x6e, 0xdc, 0xb9, 0x72, 0xe4, 0xc8, 0x90, 0x20, 0x41, 0x82, 0x05, 0x0a, 0x15, 0x2b, 0x56,
    0xad, 0x5b, 0xb6, 0x6d, 0xda, 0xb5, 0x6b, 0xd6, 0xac, 0x59, 0xb2, 0x65, 0xcb, 0x96, 0x2c, 0x58,
    0xb0, 0x61, 0xc3, 0x87, 0x0f, 0x1f, 0x3e, 0x7d, 0xfb, 0xf6, 0xed, 0xdb, 0xb7, 0x6f, 0xde, 0xbd,
    0x7a, 0xf5, 0xeb, 0xd7, 0xae, 0x5d, 0xba, 0x74, 0xe8, 0xd1, 0xa2, 0x44, 0x88, 0x10, 0x21, 0x43,
    0x86, 0x0d, 0x1b, 0x36, 0x6c, 0xd8, 0xb1, 0x63, 0xc7, 0x8f, 0x1e, 0x3c, 0x79, 0xf3, 0xe7, 0xce,
    0x9c, 0x39, 0x73, 0xe6, 0xcc, 0x98, 0x31, 0x62, 0xc5, 0x8b, 0x16, 0x2d, 0x5a, 0xb4, 0x69, 0xd2,
    0xa4, 0x48, 0x91, 0x22, 0x45, 0x8a, 0x14, 0x29, 0x52, 0xa5, 0x4a, 0x95, 0x2a, 0x54, 0xa9, 0x53,
    0xa7, 0x4e, 0x9d, 0x3b, 0x77, 0xee, 0xdd, 0xbb, 0x76, 0xec, 0xd9, 0xb3, 0x67, 0xcf, 0x9e, 0x3d,
    0x7b, 0xf7, 0xef, 0xdf, 0xbf, 0x7e, 0xfd, 0xfa, 0xf4, 0xe9, 0xd3, 0xa6, 0x4c, 0x99, 0x33, 0x66,
    0xcd, 0x9a, 0x35, 0x6a, 0xd4, 0xa8, 0x51, 0xa3, 0x46, 0x8c, 0x18, 0x30, 0x60, 0xc1, 0x83, 0x07,
    0x0e, 0x1d, 0x3a, 0x75, 0xea, 0xd5, 0xaa, 0x55, 0xab, 0x57, 0xaf, 0x5f, 0xbe, 0x7c, 0xf9, 0xf2,
    0xe5, 0xca, 0x94, 0x28, 0x50, 0xa1, 0x42, 0x84, 0x09, 0x13, 0x27, 0x4f, 0x9f, 0x3f, 0x7f, 0x00]"

text \<open>\<^verbatim>\<open>lora_dewhiten(data, len)\<close>: the first min(len, 256) bytes are XORed in place.\<close>

definition lora_dewhiten :: "bytes \<Rightarrow> nat \<Rightarrow> bytes" where
  "lora_dewhiten data len =
     (let n = (if len > length LORA_WHITEN then length LORA_WHITEN else len)
      in map (\<lambda>i. if i < n then data ! i XOR LORA_WHITEN ! i else data ! i) [0..<length data])"

subsection \<open>Gray mapping\<close>

definition lora_gray_decode :: "u16 \<Rightarrow> u16" where
  "lora_gray_decode s = s XOR drop_bit 1 s"

text \<open>The loop \<^verbatim>\<open>while (s) { b ^= s; s >>= 1; }\<close>.\<close>

function gray_loop :: "u16 \<Rightarrow> u16 \<Rightarrow> u16" where
  "gray_loop b s = (if s = 0 then b else gray_loop (b XOR s) (drop_bit 1 s))"
  by auto
termination
  by (relation "measure (\<lambda>(b, s). unat s)") auto

declare gray_loop.simps [simp del]

definition lora_gray_encode :: "u16 \<Rightarrow> u16" where
  "lora_gray_encode s = gray_loop s (drop_bit 1 s)"

subsection \<open>Hamming decoding\<close>

text \<open>
  Bits of the C array \<^verbatim>\<open>b[0..cw_len)\<close> are booleans, MSB first, \<^verbatim>\<open>^\<close> on them is
  inequality.  The output nibble is packed with \<^verbatim>\<open>d3\<close> as bit 3 and \<^verbatim>\<open>d0\<close> as bit 0.
\<close>

definition nibble_of_bits :: "bool \<Rightarrow> bool \<Rightarrow> bool \<Rightarrow> bool \<Rightarrow> byte" where
  "nibble_of_bits d3 d2 d1 d0 =
     push_bit 3 (of_bool d3) OR push_bit 2 (of_bool d2) OR push_bit 1 (of_bool d1) OR of_bool d0"

text \<open>The clamped \<^verbatim>\<open>cr_app\<close> and the codeword length.\<close>

definition hamming_cr_app :: "int \<Rightarrow> int" where
  "hamming_cr_app cr = (let c = cr - 4 in if c < 1 then 1 else if c > 4 then 4 else c)"

definition hamming_bits :: "byte \<Rightarrow> nat \<Rightarrow> bool list" where
  "hamming_bits cw cw_len = map (\<lambda>i. bit cw (cw_len - 1 - i)) [0..<cw_len]"

text \<open>The syndrome switch of the cases 3 and 4 as the four flips of (d0, d1, d2, d3).\<close>

definition hamming_correct :: "bool list \<Rightarrow> bool \<times> bool \<times> bool \<times> bool" where
  "hamming_correct b =
     (let s0 = (((b ! 0 \<noteq> b ! 1) \<noteq> b ! 2) \<noteq> b ! 4);
          s1 = (((b ! 1 \<noteq> b ! 2) \<noteq> b ! 3) \<noteq> b ! 5);
          s2 = (((b ! 0 \<noteq> b ! 1) \<noteq> b ! 3) \<noteq> b ! 6);
          syndrome = of_bool s0 + 2 * of_bool s1 + 4 * of_bool s2 :: nat;
          d0 = b ! 0; d1 = b ! 1; d2 = b ! 2; d3 = b ! 3
      in if syndrome = 5 then (d0, d1, d2, \<not> d3)
         else if syndrome = 7 then (d0, d1, \<not> d2, d3)
         else if syndrome = 3 then (d0, \<not> d1, d2, d3)
         else if syndrome = 6 then (\<not> d0, d1, d2, d3)
         else (d0, d1, d2, d3))"

text \<open>
  The outer switch on \<^verbatim>\<open>cr_app\<close>: case 4 leaves the data alone on even weight and
  otherwise falls through into case 3; cases 2 and 1 only detect.
\<close>

definition hamming_switch :: "int \<Rightarrow> bool list \<Rightarrow> bool \<times> bool \<times> bool \<times> bool" where
  "hamming_switch cr_app b =
     (let raw = (b ! 0, b ! 1, b ! 2, b ! 3)
      in if cr_app = 4 then
           (if even (length (filter id b)) then raw else hamming_correct b)
         else if cr_app = 3 then hamming_correct b
         else raw)"

definition lora_hamming_decode :: "byte \<Rightarrow> int \<Rightarrow> byte" where
  "lora_hamming_decode cw cr =
     (let cr_app = hamming_cr_app cr;
          (d0, d1, d2, d3) = hamming_switch cr_app (hamming_bits cw (nat (cr_app + 4)))
      in nibble_of_bits d3 d2 d1 d0)"

subsection \<open>CRC-16\<close>

text \<open>One bit step and one byte step of the inner loop of \<^verbatim>\<open>lora_crc16\<close>.\<close>

definition crc_shift :: "u16 \<Rightarrow> u16" where
  "crc_shift crc = (if crc AND 0x8000 \<noteq> 0 then push_bit 1 crc XOR 0x1021 else push_bit 1 crc)"

definition crc_step8 :: "u16 \<Rightarrow> u16" where
  "crc_step8 = crc_shift ^^ 8"

definition crc_byte :: "u16 \<Rightarrow> byte \<Rightarrow> u16" where
  "crc_byte crc x = crc_step8 (crc XOR push_bit 8 (ucast x))"

definition lora_crc16 :: "bytes \<Rightarrow> nat \<Rightarrow> u16" where
  "lora_crc16 data len = foldl crc_byte 0 (take len data)"

subsection \<open>Diagonal deinterleaving\<close>

definition mod_pos :: "int \<Rightarrow> int \<Rightarrow> int" where
  "mod_pos x m = (let r = x smod m in if r < 0 then r + m else r)"

text \<open>
  The 16 by 16 bit arrays of the source are functions of (row, column) that are
  False where the source has its zero initialiser.  The scatter loop runs over
  i (the symbol) and j (the bit of the symbol, MSB first) as the source does.
\<close>

definition inter_bin :: "u16 list \<Rightarrow> nat \<Rightarrow> nat \<Rightarrow> nat \<Rightarrow> bool" where
  "inter_bin symbols sf_app i j = bit (symbols ! i) (sf_app - 1 - j)"

definition deinter_step ::
  "u16 list \<Rightarrow> nat \<Rightarrow> nat \<times> nat \<Rightarrow> (nat \<times> nat \<Rightarrow> bool) \<Rightarrow> (nat \<times> nat \<Rightarrow> bool)" where
  "deinter_step symbols sf_app ij m =
     (let (i, j) = ij
      in m((nat (mod_pos (int i - int j - 1) (int sf_app)), i) := inter_bin symbols sf_app i j))"

definition deinter_bin :: "u16 list \<Rightarrow> nat \<Rightarrow> nat \<Rightarrow> nat \<times> nat \<Rightarrow> bool" where
  "deinter_bin symbols sf_app cw_len =
     fold (deinter_step symbols sf_app)
       (List.product [0..<cw_len] [0..<sf_app]) (\<lambda>_. False)"

definition pack_row :: "(nat \<Rightarrow> bool) \<Rightarrow> nat \<Rightarrow> 'a::len word" where
  "pack_row row cw_len = fold (\<lambda>j cw. push_bit 1 cw OR of_bool (row j)) [0..<cw_len] 0"

definition lora_deinterleave :: "u16 list \<Rightarrow> int \<Rightarrow> int \<Rightarrow> bytes \<Rightarrow> bytes" where
  "lora_deinterleave symbols sf_app cr_use codewords =
     (if cr_use \<le> 0 \<or> sf_app \<le> 0 then codewords
      else (let n = nat sf_app; cw_len = nat cr_use; m = deinter_bin symbols n cw_len
            in map (\<lambda>i. pack_row (\<lambda>j. m (i, j)) cw_len) [0..<n] @ drop n codewords))"

subsection \<open>Reference encoder of the Hamming codes\<close>

text \<open>
  What a transmitter sends for a nibble (MSB first d0 d1 d2 d3 p0 p1 ...), with the
  parity equations of the comment above \<^verbatim>\<open>lora_hamming_decode\<close>; at rate 4/5 the one
  parity bit is the parity of the nibble.
\<close>

definition hamming_code_bits :: "int \<Rightarrow> bool \<Rightarrow> bool \<Rightarrow> bool \<Rightarrow> bool \<Rightarrow> bool list" where
  "hamming_code_bits cr d0 d1 d2 d3 =
     (let p0 = ((d0 \<noteq> d1) \<noteq> d2); p1 = ((d1 \<noteq> d2) \<noteq> d3);
          p2 = ((d0 \<noteq> d1) \<noteq> d3); p3 = ((d0 \<noteq> d2) \<noteq> d3)
      in [d0, d1, d2, d3] @
         (if cr = 5 then [p0 \<noteq> d3] else take (nat (cr - 4)) [p0, p1, p2, p3]))"

definition hamming_encode :: "byte \<Rightarrow> int \<Rightarrow> byte" where
  "hamming_encode nib cr =
     (let b = hamming_code_bits cr (bit nib 0) (bit nib 1) (bit nib 2) (bit nib 3)
      in pack_row ((!) b) (length b))"

subsection \<open>Reference interleaver\<close>

text \<open>
  The transmitter's diagonal interleaver: bit j (MSB first) of symbol i is bit i
  (MSB first) of the codeword in row (i - j - 1) mod sf.
\<close>

definition interleave_ref :: "bytes \<Rightarrow> nat \<Rightarrow> nat \<Rightarrow> u16 list" where
  "interleave_ref cws sf_app cw_len =
     map (\<lambda>i. pack_row (\<lambda>j. bit (cws ! nat ((int i - int j - 1) mod int sf_app)) (cw_len - 1 - i)) sf_app)
       [0..<cw_len]"

subsection \<open>Packing bits\<close>

lemma pack_row_Suc: "pack_row row (Suc n) = push_bit 1 (pack_row row n) OR of_bool (row n)"
  by (simp add: pack_row_def)

lemma bit_pack_row:
  "n \<le> LENGTH('a) \<Longrightarrow>
   bit (pack_row row n :: 'a::len word) k \<longleftrightarrow> k < n \<and> row (n - 1 - k)"
proof (induction n arbitrary: k)
  case 0
  show ?case by (simp add: pack_row_def)
next
  case (Suc n)
  have step: "bit (pack_row row (Suc n) :: 'a word) k \<longleftrightarrow>
      (1 \<le> k \<and> k < LENGTH('a) \<and> bit (pack_row row n :: 'a word) (k - 1)) \<or> row n \<and> k = 0"
    by (simp only: pack_row_Suc bit_or_iff bit_push_bit_iff bit_of_bool_iff) auto
  show ?case
  proof (cases k)
    case 0
    then show ?thesis using step by simp
  next
    case (Suc m)
    then show ?thesis using step Suc.IH [of m] Suc.prems by auto
  qed
qed

subsection \<open>Whitening and Gray mapping invert their encoders\<close>

lemma length_LORA_WHITEN [simp]: "length LORA_WHITEN = 256"
  by (simp add: LORA_WHITEN_def)

lemma length_lora_dewhiten [simp]: "length (lora_dewhiten data len) = length data"
  by (simp add: lora_dewhiten_def Let_def)

lemma nth_lora_dewhiten:
  "i < length data \<Longrightarrow> lora_dewhiten data len ! i =
     (if i < min len 256 then data ! i XOR LORA_WHITEN ! i else data ! i)"
  by (auto simp: lora_dewhiten_def Let_def)

lemma lora_dewhiten_involution: "lora_dewhiten (lora_dewhiten data len) len = data"
  by (rule nth_equalityI) (auto simp: nth_lora_dewhiten)

lemma gray_loop_xor: "gray_loop (b XOR c) s = b XOR gray_loop c s"
proof (induction c s rule: gray_loop.induct)
  case (1 c s)
  then show ?case by (auto simp: gray_loop.simps [of _ s] xor.assoc)
qed

lemma gray_loop_zero [simp]: "gray_loop b 0 = b"
  by (simp add: gray_loop.simps)

lemma lora_gray_encode_rec: "lora_gray_encode s = s XOR lora_gray_encode (drop_bit 1 s)"
proof -
  have "gray_loop s (drop_bit 1 s) = s XOR gray_loop 0 (drop_bit 1 s)"
    using gray_loop_xor [of s 0] by simp
  also have "gray_loop 0 (drop_bit 1 s) = gray_loop (drop_bit 1 s) (drop_bit 1 (drop_bit 1 s))"
    by (cases "drop_bit 1 s = 0") (simp_all add: gray_loop.simps [of 0])
  finally show ?thesis by (simp add: lora_gray_encode_def)
qed

lemma lora_gray_encode_zero [simp]: "lora_gray_encode 0 = 0"
  by (simp add: lora_gray_encode_def)

lemma lora_gray_encode_shift: "drop_bit 1 (lora_gray_encode s) = lora_gray_encode (drop_bit 1 s)"
proof (induction "unat s" arbitrary: s rule: less_induct)
  case less
  show ?case
  proof (cases "s = 0")
    case False
    have "drop_bit 1 (lora_gray_encode s) = drop_bit 1 (s XOR lora_gray_encode (drop_bit 1 s))"
      by (rule arg_cong [OF lora_gray_encode_rec])
    also have "\<dots> = drop_bit 1 s XOR lora_gray_encode (drop_bit 1 (drop_bit 1 s))"
      using less [of "drop_bit 1 s"] False by (simp add: drop_bit_xor)
    also have "\<dots> = lora_gray_encode (drop_bit 1 s)"
      by (rule lora_gray_encode_rec [symmetric])
    finally show ?thesis .
  qed simp
qed

lemma bit_gray_encode:
  "bit (lora_gray_encode g) n \<longleftrightarrow> bit g n \<noteq> bit (lora_gray_encode g) (Suc n)"
proof -
  have "lora_gray_encode g = g XOR drop_bit 1 (lora_gray_encode g)"
    unfolding lora_gray_encode_shift by (rule lora_gray_encode_rec)
  then have "bit (lora_gray_encode g) n = bit (g XOR drop_bit 1 (lora_gray_encode g)) n" by metis
  then show ?thesis by (simp add: bit_xor_iff bit_drop_bit_eq)
qed

lemma gray_encode_bound:
  assumes "unat g < 2 ^ m" shows "unat (lora_gray_encode g) < 2 ^ m"
proof (rule unat_less_if_not_bit)
  show "\<not> bit (lora_gray_encode g) n" if "m \<le> n" for n
    using that
  proof (induction "16 - n" arbitrary: n)
    case 0
    then show ?case using bit_imp_le_length [of "lora_gray_encode g" n] by auto
  next
    case (Suc k)
    then have "\<not> bit (lora_gray_encode g) (Suc n)" by (intro Suc.hyps) auto
    then show ?case using bit_gray_encode [of g n] not_bit_above [OF assms Suc.prems] by simp
  qed
qed

lemma gray_decode_encode [simp]: "lora_gray_decode (lora_gray_encode s) = s"
  unfolding lora_gray_decode_def lora_gray_encode_shift
  by (subst lora_gray_encode_rec) simp

lemma gray_encode_decode [simp]: "lora_gray_encode (lora_gray_decode s) = s"
proof -
  have "inj lora_gray_encode" by (metis gray_decode_encode injI)
  then have "surj lora_gray_encode" by (simp add: finite_UNIV_inj_surj)
  then obtain t where "s = lora_gray_encode t" by auto
  then show ?thesis by simp
qed

lemma mod_pos_mod:
  assumes "0 < m" shows "mod_pos x m = x mod m"
  using assms pos_mod_bound [OF assms, of x] pos_mod_sign [OF assms, of x]
  by (auto simp: mod_pos_def Let_def signed_modulo_int_eq_modulo_int of_bool_def)

subsection \<open>The Hamming decoder against the reference encoder\<close>

lemma length_hamming_bits [simp]: "length (hamming_bits cw n) = n"
  by (simp add: hamming_bits_def)

lemma hamming_bits_pack_row:
  "length b \<le> 8 \<Longrightarrow> hamming_bits (pack_row ((!) b) (length b)) (length b) = b"
  by (rule nth_equalityI) (auto simp: hamming_bits_def bit_pack_row)

lemma hamming_bits_flip:
  "k < n \<Longrightarrow> n \<le> 8 \<Longrightarrow>
   hamming_bits (cw XOR push_bit k 1) n =
     (hamming_bits cw n)[n - 1 - k := \<not> hamming_bits cw n ! (n - 1 - k)]"
  by (rule nth_equalityI)
     (auto simp: hamming_bits_def bit_xor_iff bit_exp_iff nth_list_update)

lemma length_hamming_code_bits:
  "cr \<in> {5..8} \<Longrightarrow> length (hamming_code_bits cr d0 d1 d2 d3) = nat cr"
  by (auto simp: hamming_code_bits_def Let_def)

lemma bit_nibble_of_bits:
  "bit (nibble_of_bits d3 d2 d1 d0) n \<longleftrightarrow>
     (n = 0 \<and> d0) \<or> (n = 1 \<and> d1) \<or> (n = 2 \<and> d2) \<or> (n = 3 \<and> d3)"
  by (simp only: nibble_of_bits_def bit_or_iff bit_push_bit_iff bit_of_bool_iff) auto

lemma nibble_of_bits_bit:
  "nib < 16 \<Longrightarrow> nibble_of_bits (bit nib 3) (bit nib 2) (bit nib (Suc 0)) (bit nib 0) = nib"
proof (rule bit_word_eqI)
  fix n assume "nib < 16" "n < LENGTH(8)"
  then consider "n = 0" | "n = 1" | "n = 2" | "n = 3" | "4 \<le> n" by arith
  then show "bit (nibble_of_bits (bit nib 3) (bit nib 2) (bit nib (Suc 0)) (bit nib 0)) n = bit nib n"
    using byte_not_bit_above_4 [OF \<open>nib < 16\<close>]
    by cases (simp_all add: bit_nibble_of_bits)
qed

lemma hamming_switch_clean:
  "cr \<in> {5..8} \<Longrightarrow> hamming_switch (cr - 4) (hamming_code_bits cr d0 d1 d2 d3) = (d0, d1, d2, d3)"
proof -
  assume "cr \<in> {5..8}"
  then consider "cr = 5" | "cr = 6" | "cr = 7" | "cr = 8" by fastforce
  then show ?thesis
    by cases (cases d0; cases d1; cases d2; cases d3;
      simp add: hamming_switch_def hamming_code_bits_def hamming_correct_def Let_def)+
qed

lemma hamming_switch_single_7:
  "list_all (\<lambda>i. \<forall>d0 d1 d2 d3. hamming_switch 3
     ((hamming_code_bits 7 d0 d1 d2 d3)[i := \<not> hamming_code_bits 7 d0 d1 d2 d3 ! i])
     = (d0, d1, d2, d3) \<longleftrightarrow> 4 \<le> i) [0..<7]"
  by code_simp

lemma hamming_switch_single_8:
  "list_all (\<lambda>i. \<forall>d0 d1 d2 d3. hamming_switch 4
     ((hamming_code_bits 8 d0 d1 d2 d3)[i := \<not> hamming_code_bits 8 d0 d1 d2 d3 ! i])
     = (d0, d1, d2, d3) \<longleftrightarrow> 4 \<le> i) [0..<8]"
  by code_simp

lemma hamming_switch_single:
  assumes "cr \<in> {7, 8}" "i < nat cr"
  shows "hamming_switch (cr - 4)
     ((hamming_code_bits cr d0 d1 d2 d3)[i := \<not> hamming_code_bits cr d0 d1 d2 d3 ! i])
     = (d0, d1, d2, d3) \<longleftrightarrow> 4 \<le> i"
  using assms hamming_switch_single_7 hamming_switch_single_8 by (auto simp: list_all_iff)

lemmas hamming_unfold = lora_hamming_decode_def hamming_encode_def Let_def


lemma hamming_bits_encode:
  assumes "cr \<in> {5..8}"
  shows "hamming_bits (hamming_encode nib cr) (nat cr) =
     hamming_code_bits cr (bit nib 0) (bit nib (Suc 0)) (bit nib 2) (bit nib 3)"
proof -
  have "nat cr \<le> 8" using assms by auto
  then show ?thesis
    using hamming_bits_pack_row [of "hamming_code_bits cr (bit nib 0) (bit nib (Suc 0)) (bit nib 2) (bit nib 3)"]
    by (simp add: hamming_encode_def Let_def length_hamming_code_bits [OF assms])
qed

lemma hamming_cr_app_range: "cr \<in> {5..8} \<Longrightarrow> hamming_cr_app cr = cr - 4"
  by (auto simp: hamming_cr_app_def Let_def)

lemma hamming_decode_switch:
  "cr \<in> {5..8} \<Longrightarrow> lora_hamming_decode cw cr =
     (case hamming_switch (cr - 4) (hamming_bits cw (nat cr)) of
       (d0, d1, d2, d3) \<Rightarrow> nibble_of_bits d3 d2 d1 d0)"
  by (simp add: lora_hamming_decode_def hamming_cr_app_range)

lemma nibble_of_bits_inj:
  "nibble_of_bits a3 a2 a1 a0 = nibble_of_bits b3 b2 b1 b0 \<longleftrightarrow>
     (a3 = b3 \<and> a2 = b2 \<and> a1 = b1 \<and> a0 = b0)"
proof
  assume "nibble_of_bits a3 a2 a1 a0 = nibble_of_bits b3 b2 b1 b0"
  then have "bit (nibble_of_bits a3 a2 a1 a0) n = bit (nibble_of_bits b3 b2 b1 b0) n" for n by simp
  from this [of 0] this [of 1] this [of 2] this [of 3]
  show "a3 = b3 \<and> a2 = b2 \<and> a1 = b1 \<and> a0 = b0" by (simp add: bit_nibble_of_bits)
qed simp

lemma hamming_decode_encode:
  assumes "cr \<in> {5..8}" "nib < 16"
  shows "lora_hamming_decode (hamming_encode nib cr) cr = nib"
  using assms
  by (simp add: hamming_decode_switch hamming_bits_encode hamming_switch_clean nibble_of_bits_bit del: atLeastAtMost_iff)

text \<open>
  C15: the effect of one flipped codeword bit at the correcting rates 4/7 and 4/8,
  exactly.  Bit k is a parity bit when k < cr - 4; the decoder returns the sent
  nibble for these.  For every flipped data bit it returns a different nibble: the
  syndrome switch inverts the mirror image of the wrong bit (syndrome 5 belongs to
  d0 but flips d3, 7 to d1 but flips d2, 3 to d2 but flips d1, 6 to d3 but flips d0).
\<close>

theorem hamming_single_error_exact:
  assumes "cr \<in> {7, 8}" "nib < 16" "k < nat cr"
  shows "lora_hamming_decode (hamming_encode nib cr XOR push_bit k 1) cr = nib \<longleftrightarrow> k < nat cr - 4"
proof -
  let ?b = "hamming_code_bits cr (bit nib 0) (bit nib (Suc 0)) (bit nib 2) (bit nib 3)"
  have cr: "cr \<in> {5..8}" "k < nat cr" "nat cr \<le> 8" "nat cr - 1 - k < nat cr" using assms by auto
  obtain d0 d1 d2 d3 where d: "hamming_switch (cr - 4) (?b[nat cr - 1 - k := \<not> ?b ! (nat cr - 1 - k)]) = (d0, d1, d2, d3)"
    by (metis prod.exhaust)
  have dec: "lora_hamming_decode (hamming_encode nib cr XOR push_bit k 1) cr = nibble_of_bits d3 d2 d1 d0"
    using d by (simp only: hamming_decode_switch [OF cr(1)] hamming_bits_flip [OF cr(2,3)]
        hamming_bits_encode [OF cr(1)] prod.case)
  have "(d0, d1, d2, d3) = (bit nib 0, bit nib (Suc 0), bit nib 2, bit nib 3) \<longleftrightarrow> 4 \<le> nat cr - 1 - k"
    unfolding d [symmetric] by (rule hamming_switch_single [OF assms(1) cr(4)])
  moreover have "4 \<le> nat cr - 1 - k \<longleftrightarrow> k < nat cr - 4" using cr(2) by arith
  ultimately show ?thesis
    unfolding dec by (subst nibble_of_bits_bit [OF assms(2), symmetric]) (auto simp: nibble_of_bits_inj)
qed
theorem hamming_single_error_exact_witness:
  "lora_hamming_decode (hamming_encode 5 8 XOR push_bit 2 1) 8 = 5
   \<and> lora_hamming_decode (hamming_encode 5 8 XOR push_bit 7 1) 8 \<noteq> 5"
  using hamming_single_error_exact [of 8 5 2] hamming_single_error_exact [of 8 5 7] by simp

subsection \<open>The deinterleaver gathers along diagonals\<close>

lemma fold_update_inj:
  assumes "inj_on k (set xs)" "distinct xs" "x \<in> set xs"
  shows "fold (\<lambda>x m. m(k x := v x)) xs m (k x) = v x"
  using assms
proof (induction xs arbitrary: m)
  case (Cons y ys)
  have keep: "fold (\<lambda>x m. m(k x := v x)) zs m z = m z" if "z \<notin> k ` set zs" for zs m z
    using that by (induction zs arbitrary: m) auto
  show ?case
  proof (cases "x = y")
    case True
    then have "k x \<notin> k ` set ys" using Cons.prems by auto
    then have "fold (\<lambda>x m. m(k x := v x)) ys (m(k y := v y)) (k x) = (m(k y := v y)) (k x)"
      by (rule keep)
    then show ?thesis using True by (simp only: fold.simps o_apply fun_upd_same)
  next
    case False
    then show ?thesis using Cons by simp
  qed
qed simp

definition diag_key :: "nat \<Rightarrow> nat \<times> nat \<Rightarrow> nat \<times> nat" where
  "diag_key sf ij = (nat ((int (fst ij) - int (snd ij) - 1) mod int sf), fst ij)"

lemma mod_inj_lt:
  "\<lbrakk> (c - int j) mod int n = (c - int j') mod int n; j < n; j' < n \<rbrakk> \<Longrightarrow> j = j'"
proof -
  assume h: "(c - int j) mod int n = (c - int j') mod int n" "j < n" "j' < n"
  then have "int n dvd (c - int j) - (c - int j')" by (simp add: mod_eq_dvd_iff)
  then have "int n dvd int j' - int j" by simp
  moreover have "\<bar>int j' - int j\<bar> < int n" using h by auto
  ultimately have "int j' - int j = 0" using dvd_imp_le_int [of "int j' - int j" "int n"] by linarith
  then show "j = j'" by simp
qed

lemma diag_key_inj: "0 < sf \<Longrightarrow> inj_on (diag_key sf) (set (List.product [0..<n] [0..<sf]))"
proof (rule inj_onI)
  fix x y assume sf: "0 < sf" and xy: "x \<in> set (List.product [0..<n] [0..<sf])"
    "y \<in> set (List.product [0..<n] [0..<sf])" and eq: "diag_key sf x = diag_key sf y"
  have "fst x = fst y" using eq by (simp add: diag_key_def)
  moreover have "((int (fst x) - 1) - int (snd x)) mod int sf = ((int (fst x) - 1) - int (snd y)) mod int sf"
    using eq sf by (auto simp: diag_key_def nat_eq_iff algebra_simps)
  then have "snd x = snd y" using xy by (intro mod_inj_lt) auto
  ultimately show "x = y" by (simp add: prod_eq_iff)
qed

lemma diag_cancel: "(a - (a - b - 1) mod n - 1) mod n = b mod (n :: int)"
proof -
  have "(a - (a - b - 1) mod n - 1) mod n = ((a - 1) - (a - b - 1) mod n) mod n"
    by (simp add: algebra_simps)
  also have "\<dots> = ((a - 1) - (a - b - 1)) mod n" by (rule mod_diff_right_eq)
  finally show ?thesis by simp
qed

lemma deinter_bin_gather:
  assumes "0 < sf" "i < sf" "j < cw_len"
  shows "deinter_bin symbols sf cw_len (i, j) =
         bit (symbols ! j) (sf - 1 - nat ((int j - int i - 1) mod int sf))"
proof -
  let ?j = "nat ((int j - int i - 1) mod int sf)"
  have j: "?j < sf" using assms(1) by (simp add: nat_less_iff)
  have key: "diag_key sf (j, ?j) = (i, j)"
    using assms by (simp add: diag_key_def diag_cancel)
  have "deinter_step symbols sf =
      (\<lambda>ij m. m(diag_key sf ij := inter_bin symbols sf (fst ij) (snd ij)))"
    using assms by (auto simp: fun_eq_iff deinter_step_def diag_key_def mod_pos_mod)
  then have "deinter_bin symbols sf cw_len (diag_key sf (j, ?j)) = inter_bin symbols sf j ?j"
    unfolding deinter_bin_def
    using fold_update_inj [OF diag_key_inj [OF assms(1)], of cw_len "(j, ?j)"
        "\<lambda>ij. inter_bin symbols sf (fst ij) (snd ij)"] j assms
    by (simp add: distinct_product)
  then show ?thesis by (simp add: key inter_bin_def)
qed

lemma deinterleave_interleave:
  assumes "1 \<le> sf" "sf \<le> 16" "1 \<le> cw_len" "cw_len \<le> 8" "length cws = sf"
    "\<forall>c\<in>set cws. unat c < 2 ^ cw_len"
  shows "lora_deinterleave (interleave_ref cws sf cw_len) (int sf) (int cw_len) buf
         = cws @ drop sf buf"
proof -
  have "pack_row (\<lambda>j. deinter_bin (interleave_ref cws sf cw_len) sf cw_len (i, j)) cw_len = cws ! i"
    if i: "i < sf" for i
  proof (rule bit_word_eqI)
    fix k assume "k < LENGTH(8)"
    have *: "deinter_bin (interleave_ref cws sf cw_len) sf cw_len (i, j) = bit (cws ! i) (cw_len - 1 - j)"
      if "j < cw_len" for j
    proof -
      let ?j = "nat ((int j - int i - 1) mod int sf)"
      have "?j < sf" using assms(1) by (simp add: nat_less_iff)
      moreover have "nat ((int j - int ?j - 1) mod int sf) = i"
        using i assms(1) by (simp add: diag_cancel)
      ultimately show ?thesis using that i assms
        by (simp add: deinter_bin_gather interleave_ref_def bit_pack_row)
    qed
    show "bit (pack_row (\<lambda>j. deinter_bin (interleave_ref cws sf cw_len) sf cw_len (i, j)) cw_len :: byte) k
        = bit (cws ! i) k"
      using assms i * not_bit_above [of "cws ! i" cw_len k]
      by (cases "k < cw_len") (auto simp: bit_pack_row)
  qed
  then have "map (\<lambda>i. pack_row (\<lambda>j. deinter_bin (interleave_ref cws sf cw_len) sf cw_len (i, j)) cw_len)
      [0..<sf] = cws"
    using assms(5) by (intro nth_equalityI) auto
  then show ?thesis using assms by (simp add: lora_deinterleave_def Let_def)
qed

end
