(* ===== verification/Lora_Crc.thy ===== *)
theory Lora_Crc
  imports Lora_Codec
begin

text \<open>
  CRC brute-force recovery of \<^verbatim>\<open>src/lora.c\<close>: the single-bit search and the two-bit
  search with its linear delta table.  The interface between the search and the
  checksum is the locale \<^verbatim>\<open>flip_delta\<close>: flipping payload bit i changes the
  syndrome by a value that depends on i only.  The searches are proved against
  that contract, and the contract is discharged for the LoRa CRC.
\<close>

subsection \<open>The frame check\<close>

text \<open>
  \<^verbatim>\<open>got_crc\<close> and \<^verbatim>\<open>want_crc\<close> as both searches and the inline check of \<^verbatim>\<open>state_tick\<close>
  compute them: CRC over all but the last two payload bytes, those two XORed in.
\<close>

definition got_crc :: "bytes \<Rightarrow> nat \<Rightarrow> u16" where
  "got_crc bytes byte_count =
     ucast (bytes ! (byte_count - 2)) OR push_bit 8 (ucast (bytes ! (byte_count - 1)))"

definition want_crc :: "bytes \<Rightarrow> nat \<Rightarrow> u16" where
  "want_crc bytes pay_len =
     (lora_crc16 bytes (pay_len - 2) XOR ucast (bytes ! (pay_len - 1)))
       XOR push_bit 8 (ucast (bytes ! (pay_len - 2)))"

text \<open>\<^verbatim>\<open>bytes[bit >> 3] ^= 1 << (bit & 7)\<close>.\<close>

definition flip_bit_at :: "bytes \<Rightarrow> nat \<Rightarrow> bytes" where
  "flip_bit_at bytes b = bytes[b div 8 := bytes ! (b div 8) XOR push_bit (b mod 8) 1]"

subsection \<open>Single-bit search\<close>

fun bruteforce_loop :: "u16 \<Rightarrow> nat \<Rightarrow> nat list \<Rightarrow> bytes \<Rightarrow> bool \<times> bytes" where
  "bruteforce_loop got pay_len [] bytes = (False, bytes)"
| "bruteforce_loop got pay_len (b # bs) bytes =
     (let flipped = flip_bit_at bytes b
      in if got = want_crc flipped pay_len then (True, flipped)
         else bruteforce_loop got pay_len bs (flip_bit_at flipped b))"

definition lora_crc_bruteforce_correct :: "bytes \<Rightarrow> nat \<Rightarrow> bool \<times> bytes" where
  "lora_crc_bruteforce_correct bytes byte_count =
     (if byte_count < 4 then (False, bytes)
      else let pay_len = byte_count - 2
           in bruteforce_loop (got_crc bytes byte_count) pay_len [0..<pay_len * 8] bytes)"

subsection \<open>Two-bit search\<close>

text \<open>The array \<^verbatim>\<open>cur[8]\<close>: the deltas of the eight bits of the last byte fed to the CRC.\<close>

definition delta_seed :: "u16 list" where
  "delta_seed = map (\<lambda>m. crc_step8 (push_bit (8 + m) 1)) [0..<8]"

text \<open>
  The loop \<^verbatim>\<open>for (j = N; j-- > 0;)\<close>: entry block j is written with \<^verbatim>\<open>cur\<close>, and \<^verbatim>\<open>cur\<close> takes
  one more byte step while j is positive; the blocks are prepended in this order.
\<close>

fun delta_loop :: "nat \<Rightarrow> u16 list \<Rightarrow> u16 list \<Rightarrow> u16 list" where
  "delta_loop 0 cur acc = acc"
| "delta_loop (Suc j) cur acc =
     delta_loop j (if j > 0 then map crc_step8 cur else cur) (cur @ acc)"

definition delta_table :: "nat \<Rightarrow> u16 list" where
  "delta_table pay_len =
     delta_loop (pay_len - 2) delta_seed []
     @ map (\<lambda>m. push_bit (8 + m) 1) [0..<8] @ map (\<lambda>m. push_bit m 1) [0..<8]"

text \<open>The table \<^verbatim>\<open>seen[65536]\<close>: the first index of every delta value.\<close>

definition seen_step :: "u16 list \<Rightarrow> (u16 \<Rightarrow> nat option) \<Rightarrow> nat \<Rightarrow> (u16 \<Rightarrow> nat option)" where
  "seen_step delta seen i =
     (case seen (delta ! i) of None \<Rightarrow> seen(delta ! i := Some i) | Some _ \<Rightarrow> seen)"

definition seen_table :: "u16 list \<Rightarrow> nat \<Rightarrow> u16 \<Rightarrow> nat option" where
  "seen_table delta n_bits = foldl (seen_step delta) (\<lambda>_. None) [0..<n_bits]"

fun pair_search :: "u16 list \<Rightarrow> (u16 \<Rightarrow> nat option) \<Rightarrow> u16 \<Rightarrow> nat list \<Rightarrow> (nat \<times> nat) option" where
  "pair_search delta seen target [] = None"
| "pair_search delta seen target (i # rest) =
     (case seen (delta ! i XOR target) of
        Some j \<Rightarrow> if j \<noteq> i then Some (i, j) else pair_search delta seen target rest
      | None \<Rightarrow> pair_search delta seen target rest)"

text \<open>\<^verbatim>\<open>alloc_ok\<close> is the outcome of the two \<^verbatim>\<open>malloc\<close> calls.\<close>

definition lora_crc_bruteforce_correct_2bit :: "bool \<Rightarrow> bytes \<Rightarrow> nat \<Rightarrow> bool \<times> bytes" where
  "lora_crc_bruteforce_correct_2bit alloc_ok bytes byte_count =
     (if byte_count < 4 then (False, bytes)
      else let pay_len = byte_count - 2;
               n_bits = pay_len * 8;
               target = want_crc bytes pay_len XOR got_crc bytes byte_count
           in if target = 0 then (False, bytes)
              else if \<not> alloc_ok then (False, bytes)
              else let delta = delta_table pay_len
                   in case pair_search delta (seen_table delta n_bits) target [0..<n_bits] of
                        None \<Rightarrow> (False, bytes)
                      | Some (i, j) \<Rightarrow> (True, flip_bit_at (flip_bit_at bytes i) j))"

subsection \<open>Linear maps\<close>

locale gf2_linear =
  fixes f :: "'a::len word \<Rightarrow> 'b::len word"
  assumes xor: "f (a XOR b) = f a XOR f b"
begin

lemma zero: "f 0 = 0"
  using xor [of 0 0] by simp

lemma inj_if_kernel: "(\<And>x. f x = 0 \<Longrightarrow> x = 0) \<Longrightarrow> inj f"
  by (rule injI) (metis xor word_xor_eq_zero_iff)

end

lemma bit_15_test: "(crc :: u16) AND 0x8000 \<noteq> 0 \<longleftrightarrow> bit crc 15"
proof -
  have "(0x8000 :: u16) = 2 ^ 15" by simp
  then show ?thesis by (simp only: bit_iff_and_push_bit_not_eq_0 push_bit_of_1)
qed

interpretation shift: gf2_linear crc_shift
proof
  fix a b :: u16
  show "crc_shift (a XOR b) = crc_shift a XOR crc_shift b"
    by (auto simp: crc_shift_def bit_15_test bit_xor_iff push_bit_xor word_xor_ac)
qed

lemma funpow_linear:
  fixes f :: "'a::len word \<Rightarrow> 'a word"
  assumes "\<And>a b. f (a XOR b) = f a XOR f b"
  shows "(f ^^ n) (a XOR b) = (f ^^ n) a XOR (f ^^ n) b"
  by (induction n) (simp_all add: assms)

interpretation step8: gf2_linear crc_step8
  by unfold_locales (simp add: crc_step8_def funpow_linear [OF shift.xor])

interpretation gray: gf2_linear lora_gray_decode
  by unfold_locales (simp add: lora_gray_decode_def drop_bit_xor word_xor_ac)

lemma foldl_crc_xor:
  "foldl crc_byte (a XOR b) xs = foldl crc_byte a xs XOR (crc_step8 ^^ length xs) b"
proof (induction xs arbitrary: a b)
  case (Cons x xs)
  have "crc_byte (a XOR b) x = crc_byte a x XOR crc_step8 b"
    by (simp add: crc_byte_def step8.xor [symmetric] word_xor_ac)
  then show ?case using Cons by (simp add: funpow_swap1)
qed simp

subsection \<open>Flipping bits of a buffer\<close>

lemma length_flip_bit_at [simp]: "length (flip_bit_at bs b) = length bs"
  by (simp add: flip_bit_at_def)

lemma flip_bit_at_twice [simp]: "b div 8 < length bs \<Longrightarrow> flip_bit_at (flip_bit_at bs b) b = bs"
  by (simp add: flip_bit_at_def)

lemma nth_flip_bit_at:
  "k < length bs \<Longrightarrow>
   flip_bit_at bs b ! k = (if k = b div 8 then bs ! k XOR push_bit (b mod 8) 1 else bs ! k)"
  by (auto simp: flip_bit_at_def nth_list_update)

subsection \<open>The searches against the flip contract\<close>

locale flip_delta =
  fixes synd :: "nat \<Rightarrow> bytes \<Rightarrow> u16" and delta :: "nat \<Rightarrow> nat \<Rightarrow> u16"
  assumes flip: "\<lbrakk> 4 \<le> c; c \<le> length bs; i < 8 * (c - 2) \<rbrakk>
    \<Longrightarrow> synd c (flip_bit_at bs i) = synd c bs XOR delta c i"
begin

lemma single:
  "\<lbrakk> 4 \<le> c; c \<le> length bs; i < 8 * (c - 2) \<rbrakk>
   \<Longrightarrow> synd c (flip_bit_at bs i) = 0 \<longleftrightarrow> delta c i = synd c bs"
  by (auto simp: flip word_xor_eq_zero_iff)

lemma pair:
  "\<lbrakk> 4 \<le> c; c \<le> length bs; i < 8 * (c - 2); j < 8 * (c - 2) \<rbrakk>
   \<Longrightarrow> synd c (flip_bit_at (flip_bit_at bs i) j) = 0 \<longleftrightarrow> delta c j = delta c i XOR synd c bs"
  by (auto simp: flip word_xor_eq_zero_iff word_xor_ac)

lemma single_unique:
  assumes "inj_on (delta c) {..<8 * (c - 2)}" "4 \<le> c" "c \<le> length bs" "synd c bs = 0"
    "i < 8 * (c - 2)" "b < 8 * (c - 2)"
  shows "synd c (flip_bit_at (flip_bit_at bs b) i) = 0 \<longleftrightarrow> i = b"
  using assms pair [of c bs b i] by (auto simp: inj_on_def)

end

lemma bruteforce_loop_find:
  "\<forall>b\<in>set bits. b div 8 < length bs \<Longrightarrow>
   bruteforce_loop got pl bits bs =
     (case find (\<lambda>b. got = want_crc (flip_bit_at bs b) pl) bits of
        None \<Rightarrow> (False, bs) | Some b \<Rightarrow> (True, flip_bit_at bs b))"
  by (induction bits) (auto simp: Let_def)

lemma seen_table_find: "seen_table delta n v = find (\<lambda>i. delta ! i = v) [0..<n]"
proof (induction n)
  case (Suc n)
  then show ?case
    by (auto simp: seen_table_def seen_step_def find_append split: option.splits)
qed (simp add: seen_table_def)

lemma pair_search_Some:
  "pair_search delta (seen_table delta n) t is = Some (i, j) \<Longrightarrow>
   i \<in> set is \<and> j < n \<and> j \<noteq> i \<and> delta ! j = delta ! i XOR t"
  by (induction "is") (auto simp: seen_table_find find_map_upt_Some split: option.splits if_splits)

lemma pair_search_None:
  assumes "pair_search delta (seen_table delta n) t is = None" "t \<noteq> 0" "i \<in> set is" "j < n"
  shows "delta ! j \<noteq> delta ! i XOR t"
  using assms
proof (induction "is")
  case (Cons k ks)
  show ?case
  proof (cases "seen_table delta n (delta ! k XOR t)")
    case None
    then have "\<forall>j<n. delta ! j \<noteq> delta ! k XOR t" by (simp add: seen_table_find find_upt_None)
    then show ?thesis using Cons None by auto
  next
    case (Some l)
    then have "delta ! l = delta ! k XOR t" by (simp add: seen_table_find find_map_upt_Some)
    then have "l \<noteq> k" using Cons.prems(2)
      by (metis word_xor_cancel_left xor_self_eq)
    then show ?thesis using Cons Some by simp
  qed
qed simp

subsection \<open>The delta table\<close>

text \<open>The delta of bit i is the CRC register after so many shifts of a single one.\<close>

definition delta_spec :: "nat \<Rightarrow> nat \<Rightarrow> u16" where
  "delta_spec pay_len i = (crc_shift ^^ (8 * (pay_len - 1 - i div 8) + i mod 8)) 1"

lemma push_bit_shift: "k < 16 \<Longrightarrow> push_bit k 1 = (crc_shift ^^ k) 1"
proof (induction k)
  case (Suc k)
  have "\<not> bit (push_bit k 1 :: u16) 15" using Suc.prems by (simp add: bit_exp_iff)
  then have "crc_shift (push_bit k 1) = push_bit (Suc k) 1"
    by (simp only: crc_shift_def bit_15_test if_False push_bit_push_bit) simp
  then show ?case using Suc by simp
qed simp

lemma step8_shift: "(crc_step8 ^^ t) x = (crc_shift ^^ (8 * t)) x"
  by (simp add: crc_step8_def funpow_mult mult.commute)

lemma step8_push:
  "m < 8 \<Longrightarrow> (crc_step8 ^^ t) (push_bit (8 + m) 1) = (crc_shift ^^ (8 * t + 8 + m)) 1"
  using push_bit_shift [of "8 + m"] by (simp add: step8_shift funpow_add)

definition delta_block :: "nat \<Rightarrow> u16 list" where
  "delta_block t = map (\<lambda>m. (crc_step8 ^^ t) (push_bit (8 + m) 1)) [0..<8]"

lemma delta_loop_blocks:
  "delta_loop j (delta_block t) acc =
     concat (map (\<lambda>i. delta_block (t + (j - 1 - i))) [0..<j]) @ acc"
proof (induction j arbitrary: t acc)
  case (Suc j)
  have step: "map crc_step8 (delta_block t) = delta_block (Suc t)"
    by (simp add: delta_block_def)
  have "delta_loop (Suc j) (delta_block t) acc = delta_loop j (delta_block (Suc t)) (delta_block t @ acc)"
    by (cases j) (simp_all add: step)
  also have "\<dots> = concat (map (\<lambda>i. delta_block (Suc t + (j - 1 - i))) [0..<j]) @ delta_block t @ acc"
    by (rule Suc)
  also have "map (\<lambda>i. delta_block (Suc t + (j - 1 - i))) [0..<j] =
      map (\<lambda>i. delta_block (t + (Suc j - 1 - i))) [0..<j]"
    by (intro map_cong) (auto simp: Suc_diff_Suc)
  finally show ?case by simp
qed simp

lemma length_delta_block [simp]: "length (delta_block t) = 8"
  by (simp add: delta_block_def)

lemma delta_table_nth:
  assumes "2 \<le> pl" "i < 8 * pl"
  shows "delta_table pl ! i = delta_spec pl i"
proof -
  obtain N where pl: "pl = N + 2" using assms(1) by (metis le_iff_add add.commute)
  have seed: "delta_seed = delta_block 1" by (simp add: delta_seed_def delta_block_def)
  let ?body = "concat (map (\<lambda>i. delta_block (1 + (N - 1 - i))) [0..<N])"
  have tab: "delta_table pl = ?body @ map (\<lambda>m. push_bit (8 + m) 1) [0..<8] @ map (\<lambda>m. push_bit m 1) [0..<8]"
    by (simp add: delta_table_def pl seed delta_loop_blocks)
  have len: "length ?body = 8 * N" by (subst length_concat_const [of _ _ 8]) simp_all
  have m: "i mod 8 < 8" by simp
  consider "i < 8 * N" | "8 * N \<le> i" "i < 8 * N + 8" | "8 * N + 8 \<le> i" "i < 8 * N + 16"
    using assms pl by linarith
  then show ?thesis
  proof cases
    case 1
    then have d: "i div 8 < N" by auto
    have "delta_table pl ! i = delta_block (1 + (N - 1 - i div 8)) ! (i mod 8)"
      using 1 d len by (simp add: tab nth_append nth_concat_const [of _ _ 8])
    also have "\<dots> = (crc_shift ^^ (8 * (1 + (N - 1 - i div 8)) + 8 + i mod 8)) 1"
      using m by (simp only: delta_block_def nth_map length_upt nth_upt step8_push) simp
    also have "8 * (1 + (N - 1 - i div 8)) + 8 + i mod 8 = 8 * (pl - 1 - i div 8) + i mod 8"
      using d pl by auto
    finally show ?thesis by (simp add: delta_spec_def)
  next
    case 2
    then obtain r where "i = 8 * N + r" "r < 8" by (metis le_iff_add nat_add_left_cancel_less)
    then have d: "i div 8 = N" "i - 8 * N = i mod 8" "i - 8 * N < 8" by simp_all
    then have "delta_table pl ! i = push_bit (8 + i mod 8) 1"
      using 2 len by (simp add: tab nth_append)
    then show ?thesis using d pl push_bit_shift [of "8 + i mod 8"] by (simp add: delta_spec_def)
  next
    case 3
    then obtain r where "i = 8 * (N + 1) + r" "r < 8"
      using le_Suc_ex [of "8 * (N + 1)" i] by auto
    then have "i div 8 = N + 1" "i mod 8 = r" by (simp_all only: div_mult_self4 mod_mult_self4) simp_all
    then have d: "i div 8 = N + 1" "i - (8 * N + 8) = i mod 8" "\<not> i - 8 * N < 8"
      using \<open>i = 8 * (N + 1) + r\<close> by simp_all
    then have "delta_table pl ! i = push_bit (i mod 8) 1"
      using 3 len by (simp add: tab nth_append)
    then show ?thesis using d pl push_bit_shift [of "i mod 8"] by (simp add: delta_spec_def)
  qed
qed

subsection \<open>The contract holds for the LoRa CRC\<close>

definition crc_synd :: "nat \<Rightarrow> bytes \<Rightarrow> u16" where
  "crc_synd c bs = want_crc bs (c - 2) XOR got_crc bs c"

lemma crc_byte_xor: "crc_byte a (x XOR e) = crc_byte a x XOR crc_step8 (push_bit 8 (ucast e))"
proof -
  have "(ucast (x XOR e) :: u16) = ucast x XOR ucast e" by (simp add: bit_eq_iff bit_xor_iff bit_ucast_iff)
  then show ?thesis by (simp add: crc_byte_def step8.xor [symmetric] push_bit_xor word_xor_ac)
qed

lemma ucast_push_bit_1: "m < 8 \<Longrightarrow> (ucast (push_bit m 1 :: byte) :: u16) = push_bit m 1"
  by (rule bit_word_eqI) (auto simp: bit_ucast_iff bit_exp_iff)

lemma crc16_flip:
  assumes "b div 8 < len" "len \<le> length bs"
  shows "lora_crc16 (flip_bit_at bs b) len =
         lora_crc16 bs len XOR (crc_step8 ^^ (len - b div 8)) (push_bit (8 + b mod 8) 1)"
proof -
  let ?j = "b div 8" and ?e = "push_bit (b mod 8) 1 :: byte"
  define post where "post = drop (Suc ?j) (take len bs)"
  have old: "take len bs = take ?j bs @ bs ! ?j # post"
    using assms id_take_nth_drop [of ?j "take len bs"] by (simp add: min_absorb1 post_def)
  have new: "take len (flip_bit_at bs b) = take ?j bs @ (bs ! ?j XOR ?e) # post"
  proof -
    have "take len (flip_bit_at bs b) = (take len bs)[?j := bs ! ?j XOR ?e]"
      by (simp add: flip_bit_at_def take_update_swap)
    also have "\<dots> = take ?j (take len bs) @ (bs ! ?j XOR ?e) # post"
      using assms unfolding post_def by (intro upd_conv_take_nth_drop) simp
    finally show ?thesis using assms by (simp add: min_absorb1)
  qed
  have len: "len - ?j = Suc (length post)" using assms by (simp add: post_def)
  have e: "push_bit 8 (ucast ?e) = (push_bit (8 + b mod 8) 1 :: u16)"
    by (subst ucast_push_bit_1) (simp_all add: push_bit_push_bit del: push_bit_of_1)
  show ?thesis
    unfolding lora_crc16_def old new len
    by (simp only: foldl_append foldl_Cons crc_byte_xor foldl_crc_xor e funpow_Suc_right o_apply)
qed

lemma want_crc_flip:
  assumes "2 \<le> pl" "pl \<le> length bs" "b < 8 * pl"
  shows "want_crc (flip_bit_at bs b) pl = want_crc bs pl XOR delta_spec pl b"
proof -
  have cast: "(ucast (x XOR e) :: u16) = ucast x XOR ucast e" for x e :: byte
    by (simp add: bit_eq_iff bit_xor_iff bit_ucast_iff)
  have m: "b mod 8 < 8" by simp
  have skip: "lora_crc16 (flip_bit_at bs b) (pl - 2) = lora_crc16 bs (pl - 2)" if "pl - 2 \<le> b div 8"
    using that by (simp add: lora_crc16_def flip_bit_at_def)
  consider "b div 8 < pl - 2" | "b div 8 = pl - 2" | "b div 8 = pl - 1"
    using assms by linarith
  then show ?thesis
  proof cases
    case 1
    then have "8 * (pl - 2 - b div 8) + 8 + b mod 8 = 8 * (pl - 1 - b div 8) + b mod 8"
      "pl - 1 \<noteq> b div 8" "pl - 2 \<noteq> b div 8" by auto
    then show ?thesis
      using 1 assms crc16_flip [of b "pl - 2" bs] step8_push [OF m, of "pl - 2 - b div 8"]
      by (simp add: want_crc_def nth_flip_bit_at delta_spec_def word_xor_ac del: push_bit_of_1)
  next
    case 2
    then have ne: "8 * (pl - 1 - b div 8) + b mod 8 = 8 + b mod 8" "pl - 1 \<noteq> b div 8" using assms by auto
    then have "delta_spec pl b = push_bit (8 + b mod 8) 1"
      using push_bit_shift [of "8 + b mod 8"] by (simp add: delta_spec_def del: push_bit_of_1)
    then show ?thesis
      using 2 ne(2) assms skip ucast_push_bit_1 [OF m]
      by (simp add: want_crc_def nth_flip_bit_at cast push_bit_xor push_bit_push_bit word_xor_ac
          del: push_bit_of_1)
  next
    case 3
    then have "delta_spec pl b = push_bit (b mod 8) 1"
      using push_bit_shift [of "b mod 8"] by (simp add: delta_spec_def del: push_bit_of_1)
    then show ?thesis
      using 3 assms skip ucast_push_bit_1 [OF m]
      by (simp add: want_crc_def nth_flip_bit_at cast word_xor_ac del: push_bit_of_1)
  qed
qed

lemma got_crc_flip: "\<lbrakk> c \<le> length bs; 4 \<le> c; b < 8 * (c - 2) \<rbrakk> \<Longrightarrow> got_crc (flip_bit_at bs b) c = got_crc bs c"
  by (simp add: got_crc_def nth_flip_bit_at) (auto simp: nth_flip_bit_at)

interpretation crc: flip_delta crc_synd "\<lambda>c. delta_spec (c - 2)"
  by unfold_locales (simp add: crc_synd_def want_crc_flip got_crc_flip word_xor_ac)

lemma crc_synd_zero: "crc_synd c bs = 0 \<longleftrightarrow> got_crc bs c = want_crc bs (c - 2)"
  by (auto simp: crc_synd_def word_xor_eq_zero_iff)

subsection \<open>The orbit of the CRC register\<close>

text \<open>
  Walking the register from a single one never returns to it within 2048 shifts, so
  the deltas of all bits of a payload of at most 255 bytes differ.  The walk is
  evaluated in runs of 64 shifts.
\<close>

definition nat_shift :: "nat \<Rightarrow> nat" where
  "nat_shift n = (if n < 0x8000 then 2 * n else (2 * n - 0x10000) XOR 0x1021)"

lemma unat_crc_shift: "unat (crc_shift w) = nat_shift (unat w)"
proof -
  have lt: "unat w < 0x10000" using unsigned_less [of w, where ?'a = nat] by simp
  have b: "bit w 15 \<longleftrightarrow> \<not> unat w < 0x8000"
  proof -
    have "bit w 15 \<longleftrightarrow> bit (unat w) 15" by (simp add: bit_unsigned_iff)
    also have "\<dots> \<longleftrightarrow> odd (unat w div 0x8000)" by (simp add: bit_iff_odd)
    also have "\<dots> \<longleftrightarrow> \<not> unat w < 0x8000"
    proof (cases "unat w < 0x8000")
      case False
      then have "unat w div 0x8000 = 1" using lt by (intro div_nat_eqI) simp_all
      then show ?thesis using False by simp
    qed simp
    finally show ?thesis .
  qed
  have "unat (push_bit 1 w) = take_bit LENGTH(16) (push_bit 1 (unat w))"
    by (rule unsigned_push_bit_eq)
  then have "unat (push_bit 1 w) = (2 * unat w) mod 0x10000"
    by (simp only: push_bit_eq_mult take_bit_eq_mod) (simp add: mult.commute)
  moreover have "unat (v XOR 0x1021) = unat v XOR 0x1021" for v :: u16
    by (simp add: unsigned_xor_eq)
  ultimately show ?thesis using lt
    by (auto simp: crc_shift_def bit_15_test b nat_shift_def mod_if)
qed

fun crc_walk :: "nat \<Rightarrow> nat \<Rightarrow> nat option" where
  "crc_walk 0 w = Some w"
| "crc_walk (Suc n) w = (if nat_shift w = 1 then None else crc_walk n (nat_shift w))"

definition crc_run :: "nat \<Rightarrow> nat option" where
  "crc_run w = crc_walk 64 w"

fun crc_runs :: "nat \<Rightarrow> nat \<Rightarrow> nat option" where
  "crc_runs 0 w = Some w"
| "crc_runs (Suc q) w = (case crc_run w of None \<Rightarrow> None | Some v \<Rightarrow> crc_runs q v)"

lemma crc_walk_numeral:
  "crc_walk (numeral k) w = (if nat_shift w = 1 then None else crc_walk (pred_numeral k) (nat_shift w))"
  by (simp add: numeral_eq_Suc)

lemma crc_walk_Some:
  "crc_walk n (unat w) = Some v \<Longrightarrow> 0 < k \<Longrightarrow> k \<le> n \<Longrightarrow> (crc_shift ^^ k) w \<noteq> 1"
proof (induction n arbitrary: w k)
  case (Suc n)
  then have "nat_shift (unat w) \<noteq> 1" and w: "crc_walk n (unat (crc_shift w)) = Some v"
    by (auto simp: unat_crc_shift split: if_splits)
  then have ne: "crc_shift w \<noteq> 1" by (metis unat_crc_shift unat_1)
  show ?case
  proof (cases "k = 1")
    case False
    then obtain l where "k = Suc l" "0 < l" "l \<le> n" using Suc.prems by (cases k) auto
    then show ?thesis using Suc.IH [OF w, of l] by (simp add: funpow_swap1)
  qed (simp add: ne)
qed simp

lemma crc_walk_add: "crc_walk (m + n) w = (case crc_walk m w of None \<Rightarrow> None | Some v \<Rightarrow> crc_walk n v)"
  by (induction m arbitrary: w) auto

lemma crc_runs_walk: "crc_runs q w = crc_walk (64 * q) w"
  by (induction q arbitrary: w) (auto simp: crc_run_def crc_walk_add split: option.splits)

lemma crc_run_values:
    "crc_run 1 = Some 0xb861"
    "crc_run 0xb861 = Some 0xaefc"
    "crc_run 0xaefc = Some 0x650b"
    "crc_run 0x650b = Some 0x8e29"
    "crc_run 0x8e29 = Some 0x26aa"
    "crc_run 0x26aa = Some 0xcde2"
    "crc_run 0xcde2 = Some 0x2535"
    "crc_run 0x2535 = Some 0x13fc"
    "crc_run 0x13fc = Some 0x8832"
    "crc_run 0x8832 = Some 0xda35"
    "crc_run 0xda35 = Some 0x87b3"
    "crc_run 0x87b3 = Some 0x106f"
    "crc_run 0x106f = Some 0x447"
    "crc_run 0x447 = Some 0xcbc5"
    "crc_run 0xcbc5 = Some 0xd24c"
    "crc_run 0xd24c = Some 0x36c4"
    "crc_run 0x36c4 = Some 0x71c4"
    "crc_run 0x71c4 = Some 0x400c"
    "crc_run 0x400c = Some 0xa4bb"
    "crc_run 0xa4bb = Some 0x30df"
    "crc_run 0x30df = Some 0x8d5b"
    "crc_run 0x8d5b = Some 0xa5d"
    "crc_run 0xa5d = Some 0x91e1"
    "crc_run 0x91e1 = Some 0x2764"
    "crc_run 0x2764 = Some 0xceac"
    "crc_run 0xceac = Some 0x224"
    "crc_run 0x224 = Some 0x2096"
    "crc_run 0x2096 = Some 0x46cf"
    "crc_run 0x46cf = Some 0x8ae7"
    "crc_run 0x8ae7 = Some 0x6d5a"
    "crc_run 0x6d5a = Some 0xc205"
    "crc_run 0xc205 = Some 0xfd50"
  by (simp_all add: crc_run_def crc_walk_numeral nat_shift_def)

lemma crc_runs_numeral:
  "crc_runs (numeral k) w = (case crc_run w of None \<Rightarrow> None | Some v \<Rightarrow> crc_runs (pred_numeral k) v)"
  by (simp add: numeral_eq_Suc)

lemma crc_runs_1: "crc_runs 1 w = crc_run w"
  by (simp split: option.splits)

lemma crc_orbit: "0 < k \<Longrightarrow> k \<le> 2048 \<Longrightarrow> (crc_shift ^^ k) 1 \<noteq> 1"
proof -
  have "\<exists>v. crc_runs 32 1 = Some v" by (simp add: crc_runs_numeral crc_runs_1 crc_run_values del: One_nat_def)
  then obtain v where "crc_walk 2048 1 = Some v" by (auto simp: crc_runs_walk)
  then show "0 < k \<Longrightarrow> k \<le> 2048 \<Longrightarrow> (crc_shift ^^ k) 1 \<noteq> 1" using crc_walk_Some [of 2048 1 v k] by simp
qed

lemma crc_shift_inj: "inj crc_shift"
proof (rule shift.inj_if_kernel)
  fix x assume h: "crc_shift x = 0"
  have "\<not> bit x 15"
  proof
    assume "bit x 15"
    then have "bit (crc_shift x) 0" by (simp add: crc_shift_def bit_15_test bit_xor_iff bit_push_bit_iff)
    then show False using h by simp
  qed
  then have push: "push_bit 1 x = 0" using h by (simp add: crc_shift_def bit_15_test)
  have "\<not> bit x n" if "n < 15" for n
  proof -
    have "bit (push_bit 1 x) (Suc n) = bit x n" using that by (simp add: bit_push_bit_iff)
    then show ?thesis using push by simp
  qed
  moreover have "n < 16 \<Longrightarrow> n < 15 \<or> n = 15" for n :: nat by arith
  ultimately show "x = 0" using \<open>\<not> bit x 15\<close> by (intro bit_word_eqI) (auto dest!: spec)
qed

lemma block_offset_inj:
  "\<lbrakk> 8 * (p - 1 - a) + r = 8 * (p - 1 - b) + s; a < p; b < p; r < 8; s < (8 :: nat) \<rbrakk> \<Longrightarrow> r = s \<and> a = b"
proof -
  assume h: "8 * (p - 1 - a) + r = 8 * (p - 1 - b) + s" "a < p" "b < p" "r < 8" "s < (8 :: nat)"
  then have "(8 * (p - 1 - a) + r) mod 8 = (8 * (p - 1 - b) + s) mod 8" by simp
  then have "r = s" using h(4,5) by simp
  then show ?thesis using h(1-3) by simp
qed

lemma delta_spec_inj: "pl \<le> 255 \<Longrightarrow> inj_on (delta_spec pl) {..<8 * pl}"
proof (rule inj_onI, rule ccontr)
  fix i j assume pl: "pl \<le> 255" and ij: "i \<in> {..<8 * pl}" "j \<in> {..<8 * pl}"
    and eq: "delta_spec pl i = delta_spec pl j" and ne: "i \<noteq> j"
  define e where "e i = 8 * (pl - 1 - i div 8) + i mod 8" for i
  have no: False if "e a < e b" "e b < 2048" "(crc_shift ^^ e a) 1 = (crc_shift ^^ e b) 1" for a b
  proof -
    have "(crc_shift ^^ (e a + (e b - e a))) 1 = (crc_shift ^^ e a) ((crc_shift ^^ (e b - e a)) 1)"
      by (simp only: funpow_add o_apply)
    then have "(crc_shift ^^ e a) 1 = (crc_shift ^^ e a) ((crc_shift ^^ (e b - e a)) 1)"
      using that by simp
    then have "(crc_shift ^^ (e b - e a)) 1 = 1"
      using inj_fn [OF crc_shift_inj, of "e a"] by (metis injD)
    then show False using crc_orbit [of "e b - e a"] that by simp
  qed
  have "e i < 2048" "e j < 2048" using pl ij by (auto simp: e_def)
  moreover have "e i \<noteq> e j"
  proof
    assume "e i = e j"
    moreover have "i div 8 < pl" "j div 8 < pl" using ij by auto
    ultimately have "i mod 8 = j mod 8 \<and> i div 8 = j div 8"
      unfolding e_def by (intro block_offset_inj [of pl "i div 8" "i mod 8" "j div 8" "j mod 8"]) simp_all
    then show False using ne div_mult_mod_eq [of i 8] div_mult_mod_eq [of j 8] by simp
  qed
  moreover have "(crc_shift ^^ e i) 1 = (crc_shift ^^ e j) 1"
    using eq by (simp only: delta_spec_def e_def)
  ultimately show False
    using no [of i j] no [of j i] by (cases "e i < e j") simp_all
qed

subsection \<open>What the searches return\<close>

lemma bruteforce_correct_find:
  assumes "4 \<le> c" "c \<le> length bs"
  shows "lora_crc_bruteforce_correct bs c =
    (case find (\<lambda>b. crc_synd c (flip_bit_at bs b) = 0) [0..<8 * (c - 2)] of
       None \<Rightarrow> (False, bs) | Some b \<Rightarrow> (True, flip_bit_at bs b))"
proof -
  have bits: "\<forall>b\<in>set [0..<8 * (c - 2)]. b div 8 < length bs" using assms by auto
  have "find (\<lambda>b. got_crc bs c = want_crc (flip_bit_at bs b) (c - 2)) [0..<8 * (c - 2)]
      = find (\<lambda>b. crc_synd c (flip_bit_at bs b) = 0) [0..<8 * (c - 2)]"
    using assms by (intro find_cong) (auto simp: crc_synd_zero got_crc_flip)
  then show ?thesis
    using assms bruteforce_loop_find [OF bits]
    by (simp add: lora_crc_bruteforce_correct_def Let_def mult.commute)
qed

lemma bruteforce_correct_length: "length (snd (lora_crc_bruteforce_correct bs (length bs))) = length bs"
proof (cases "4 \<le> length bs")
  case True
  then show ?thesis by (simp add: bruteforce_correct_find split: option.splits)
qed (simp add: lora_crc_bruteforce_correct_def)

lemma bruteforce_2bit_length:
  "length (snd (lora_crc_bruteforce_correct_2bit a bs c)) = length bs"
  by (simp add: lora_crc_bruteforce_correct_2bit_def Let_def split: option.splits)

text \<open>Evaluation of the check on concrete buffers.\<close>

lemma crc_step8_unfold:
  "crc_step8 x = crc_shift (crc_shift (crc_shift (crc_shift (crc_shift (crc_shift (crc_shift (crc_shift x)))))))"
  by (simp add: crc_step8_def numeral_eq_Suc)

lemmas crc_eval = got_crc_def want_crc_def lora_crc16_def crc_byte_def crc_step8_unfold crc_shift_def

lemma single_bit_restored:
  assumes "4 \<le> c" "c \<le> 257" "length bs = c" "got_crc bs c = want_crc bs (c - 2)"
    and "b < 8 * (c - 2)"
  shows "lora_crc_bruteforce_correct (flip_bit_at bs b) c = (True, bs)"
proof -
  have inj: "inj_on (delta_spec (c - 2)) {..<8 * (c - 2)}" using assms(2) by (intro delta_spec_inj) simp
  have "crc_synd c (flip_bit_at (flip_bit_at bs b) i) = 0 \<longleftrightarrow> i = b" if "i < 8 * (c - 2)" for i
    using assms that by (intro crc.single_unique [OF inj]) (auto simp: crc_synd_zero)
  then have "find (\<lambda>i. crc_synd c (flip_bit_at (flip_bit_at bs b) i) = 0) [0..<8 * (c - 2)] = Some b"
    using assms(5) by (auto simp: find_map_upt_Some)
  moreover have "b div 8 < length bs" using assms by auto
  ultimately show ?thesis using assms bruteforce_correct_find [of c "flip_bit_at bs b"] by simp
qed

text \<open>
  C13: single-bit recovery restores the transmitted payload.  If a frame of up to 255
  payload bytes carries a correct CRC and exactly one payload bit is flipped in
  transit, the search returns success and leaves the buffer equal to what was sent:
  no other single flip satisfies the CRC.
\<close>

theorem crc_single_bit_restored:
  assumes "4 \<le> c" "c \<le> 257" "length bs = c" "got_crc bs c = want_crc bs (c - 2)"
    and "b < 8 * (c - 2)"
  shows "lora_crc_bruteforce_correct (flip_bit_at bs b) c = (True, bs)"
  using assms by (rule single_bit_restored)

theorem crc_single_bit_restored_witness:
  "lora_crc_bruteforce_correct [0x10, 0x20, 0x38, 0x40, 0x51, 0x17] 6
     = (True, [0x10, 0x20, 0x30, 0x40, 0x51, 0x17])"
  using crc_single_bit_restored [of 6 "[0x10, 0x20, 0x30, 0x40, 0x51, 0x17]" 19]
  by (simp add: crc_eval flip_bit_at_def)

lemma bruteforce_2bit_search:
  assumes "4 \<le> c" "got_crc bs c \<noteq> want_crc bs (c - 2)"
  shows "lora_crc_bruteforce_correct_2bit True bs c =
    (case pair_search (delta_table (c - 2)) (seen_table (delta_table (c - 2)) (8 * (c - 2)))
            (crc_synd c bs) [0..<8 * (c - 2)] of
       None \<Rightarrow> (False, bs) | Some (i, j) \<Rightarrow> (True, flip_bit_at (flip_bit_at bs i) j))"
  using assms crc_synd_zero [of c bs]
  by (simp add: lora_crc_bruteforce_correct_2bit_def Let_def crc_synd_def mult.commute)

lemma two_bit_sound:
  assumes "4 \<le> c" "c \<le> length bs" "lora_crc_bruteforce_correct_2bit a bs c = (True, bs')"
  shows "got_crc bs' c = want_crc bs' (c - 2)"
proof -
  let ?n = "8 * (c - 2)" and ?d = "delta_table (c - 2)"
  have bad: "got_crc bs c \<noteq> want_crc bs (c - 2)" "a"
    using assms by (auto simp: lora_crc_bruteforce_correct_2bit_def Let_def split: if_splits)
  then obtain i j where p: "pair_search ?d (seen_table ?d ?n) (crc_synd c bs) [0..<?n] = Some (i, j)"
      and bs': "bs' = flip_bit_at (flip_bit_at bs i) j"
    using assms(3) bruteforce_2bit_search [OF assms(1) bad(1)] by (auto split: option.splits)
  from pair_search_Some [OF p] have ij: "i < ?n" "j < ?n" "?d ! j = ?d ! i XOR crc_synd c bs" by auto
  have tab: "?d ! m = delta_spec (c - 2) m" if "m < ?n" for m using that assms(1) by (intro delta_table_nth) auto
  show ?thesis using crc.pair [OF assms(1,2) ij(1,2)] ij by (simp add: bs' crc_synd_zero tab)
qed

text \<open>
  C14: the linear-time two-bit search is equivalent to trying every pair of payload
  bits.  On a buffer whose CRC does not match, it reports success exactly when some
  pair of distinct flips satisfies the CRC; the buffer it leaves is then the input
  with two distinct payload bits flipped and its CRC matches, and on failure the
  buffer is unchanged.
\<close>

theorem crc_two_bit_equiv_naive:
  assumes "4 \<le> c" "c \<le> length bs" "got_crc bs c \<noteq> want_crc bs (c - 2)"
  shows "case lora_crc_bruteforce_correct_2bit True bs c of (ok, bs') \<Rightarrow>
      (if ok then (\<exists>i j. i < 8 * (c - 2) \<and> j < 8 * (c - 2) \<and> i \<noteq> j
                     \<and> bs' = flip_bit_at (flip_bit_at bs i) j \<and> got_crc bs' c = want_crc bs' (c - 2))
       else bs' = bs \<and> \<not> (\<exists>i j. i < 8 * (c - 2) \<and> j < 8 * (c - 2) \<and> i \<noteq> j
                     \<and> got_crc (flip_bit_at (flip_bit_at bs i) j) c
                       = want_crc (flip_bit_at (flip_bit_at bs i) j) (c - 2)))"
proof -
  let ?n = "8 * (c - 2)" and ?d = "delta_table (c - 2)"
  have tab: "?d ! i = delta_spec (c - 2) i" if "i < ?n" for i
    using that assms(1) by (intro delta_table_nth) auto
  have pair: "got_crc (flip_bit_at (flip_bit_at bs i) j) c = want_crc (flip_bit_at (flip_bit_at bs i) j) (c - 2)
      \<longleftrightarrow> ?d ! j = ?d ! i XOR crc_synd c bs" if "i < ?n" "j < ?n" for i j
    using crc.pair [OF assms(1,2) that] that by (simp add: crc_synd_zero tab)
  show ?thesis
  proof (cases "pair_search ?d (seen_table ?d ?n) (crc_synd c bs) [0..<?n]")
    case None
    then have "?d ! j \<noteq> ?d ! i XOR crc_synd c bs" if "i < ?n" "j < ?n" for i j
      using that assms(3) by (intro pair_search_None [OF None]) (auto simp: crc_synd_zero)
    then show ?thesis using None pair bruteforce_2bit_search [OF assms(1,3)] by auto
  next
    case (Some p)
    then obtain i j where p: "p = (i, j)" "i < ?n" "j < ?n" "j \<noteq> i" "?d ! j = ?d ! i XOR crc_synd c bs"
      by (cases p) (auto dest!: pair_search_Some)
    then show ?thesis using Some pair [of i j] bruteforce_2bit_search [OF assms(1,3)] by auto
  qed
qed

theorem crc_two_bit_equiv_naive_witness:
  "\<exists>bs'. lora_crc_bruteforce_correct_2bit True [0x11, 0x20, 0x38, 0x40, 0x51, 0x17] 6 = (True, bs')
     \<and> got_crc bs' 6 = want_crc bs' (6 - 2)"
proof -
  define bs :: bytes where "bs = [0x11, 0x20, 0x38, 0x40, 0x51, 0x17]"
  have ne: "got_crc bs 6 \<noteq> want_crc bs (6 - 2)" by (simp add: crc_eval bs_def)
  have fixed: "flip_bit_at (flip_bit_at bs 0) 19 = [0x10, 0x20, 0x30, 0x40, 0x51, 0x17]"
    by (simp add: flip_bit_at_def bs_def)
  have crc: "got_crc (flip_bit_at (flip_bit_at bs 0) 19) 6 = want_crc (flip_bit_at (flip_bit_at bs 0) 19) (6 - 2)"
    unfolding fixed by (simp add: crc_eval)
  obtain ok bs' where r: "lora_crc_bruteforce_correct_2bit True bs 6 = (ok, bs')" by fastforce
  have len: "4 \<le> (6 :: nat)" "6 \<le> length bs" by (simp_all add: bs_def)
  have bits: "0 < 8 * (6 - 2 :: nat)" "19 < 8 * (6 - 2 :: nat)" "0 \<noteq> (19 :: nat)" by simp_all
  have "ok \<and> got_crc bs' 6 = want_crc bs' (6 - 2)"
    using crc_two_bit_equiv_naive [OF len ne] crc bits unfolding r prod.case
    by (metis (no_types, lifting))
  then have "lora_crc_bruteforce_correct_2bit True bs 6 = (True, bs')" "got_crc bs' 6 = want_crc bs' (6 - 2)"
    using r by simp_all
  then show ?thesis unfolding bs_def by blast
qed

end
