(* ===== verification/Lora_Frame.thy ===== *)
theory Lora_Frame
  imports Lora_Crc
begin

text \<open>
  The frame decoder of \<^verbatim>\<open>src/lora.c\<close>: the explicit header, the payload assembly with
  its CRC tiers, and the symbol-level state machine \<^verbatim>\<open>state_tick\<close> driven by
  \<^verbatim>\<open>lora_decoder_feed\<close>, on the hard-decision path (\<^verbatim>\<open>soft_decoding\<close> off, the default).
  The floating-point front end (dechirp, FFT, peak and offset estimates) is a
  parameter: one \<^verbatim>\<open>lora_tick\<close> record holds what it reports for one symbol.
\<close>

subsection \<open>State\<close>

datatype lora_state = STATE_IDLE | STATE_PREAMBLE_OK | STATE_HEADER | STATE_PAYLOAD

text \<open>\<^verbatim>\<open>lora_frame_meta_t\<close> without its floating-point fields (RSSI, SNR, CFO, sub-sample offset).\<close>

record lora_frame_meta =
  m_sf :: int
  m_cr :: int
  m_bw_hz :: int
  m_payload_len :: int
  m_has_crc :: bool
  m_header_crc_ok :: bool
  m_payload_crc_ok :: bool
  m_crc_corrected :: bool
  m_crc_corrected_bits :: int
  m_preamble_lock_sample_idx :: u64
  m_preamble_lock_t_ns :: u64

text \<open>
  \<^verbatim>\<open>struct lora_decoder\<close>.  The arrays with a fill count are lists of that length
  (\<^verbatim>\<open>preamble_bin_hist\<close>, \<^verbatim>\<open>hdr_leftover\<close>, \<^verbatim>\<open>payload_syms\<close>, \<^verbatim>\<open>symbuf\<close>).
\<close>

record 'a lora_decoder =
  sf :: int
  cr :: int
  bw_hz :: int
  fft_N :: int
  os_factor :: int
  samples_per_symbol :: nat
  symbuf :: "'a list"
  dstate :: lora_state
  preamble_count :: int
  preamble_locked_once :: bool
  preamble_bin :: int
  preamble_bin_hist :: "int list"
  sto_skip_remaining :: int
  sfo_next_sym_shift :: int
  header_syms :: "u16 list"
  header_idx :: nat
  payload_len :: int
  payload_cr :: int
  payload_has_crc :: bool
  payload_ldro :: bool
  hdr_leftover :: bytes
  payload_syms :: "u16 list"
  payload_sym_target :: nat
  crc_bruteforce :: bool
  crc_bruteforce_2bit :: bool
  meta :: lora_frame_meta
  has_cb :: bool
  has_preamble_cb :: bool
  stream_chunk_anchor :: u64
  stream_step_per_sample :: u32
  samples_in_chunk :: u32

text \<open>
  What the front end reports for one accumulated symbol: the FFT peak bin, whether
  it clears the noise floor (\<^verbatim>\<open>above_floor\<close>), whether the peak dropped below the
  straddle ratio of the running preamble mean, the rounded trim after the second
  downchirp, the sample shift chosen by the drift accumulator, and the clock.
\<close>

record lora_tick =
  t_sym :: u16
  t_above_floor :: bool
  t_peak_drop :: bool
  t_trim_input :: int
  t_sfo_shift :: int
  t_now_ns :: u64

text \<open>The two callbacks: a delivered frame and the once-per-preamble lock event.\<close>

datatype lora_event =
    FrameCb bytes lora_frame_meta
  | PreambleCb int int int

definition PREAMBLE_MIN :: int where "PREAMBLE_MIN = 5"
definition MAX_PAYLOAD_BYTES :: nat where "MAX_PAYLOAD_BYTES = 256"
definition MAX_PAYLOAD_SYMBOLS :: nat where "MAX_PAYLOAD_SYMBOLS = 1024"

subsection \<open>Creation and setters\<close>

definition meta0 :: lora_frame_meta where
  "meta0 = \<lparr> m_sf = 0, m_cr = 0, m_bw_hz = 0, m_payload_len = 0, m_has_crc = False,
     m_header_crc_ok = False, m_payload_crc_ok = False, m_crc_corrected = False,
     m_crc_corrected_bits = 0, m_preamble_lock_sample_idx = 0, m_preamble_lock_t_ns = 0 \<rparr>"

text \<open>None is the NULL of a rejected argument; the allocations are taken to succeed.\<close>

definition lora_decoder_create_os :: "int \<Rightarrow> int \<Rightarrow> int \<Rightarrow> int \<Rightarrow> 'a lora_decoder option" where
  "lora_decoder_create_os s c bw os =
     (if s < 7 \<or> s > 12 \<or> c < 5 \<or> c > 8 \<or> bw \<le> 0 then None
      else if os < 1 \<or> os > 16 then None
      else Some \<lparr> sf = s, cr = c, bw_hz = bw, fft_N = 2 ^ nat s, os_factor = os,
        samples_per_symbol = nat (2 ^ nat s * os), symbuf = [], dstate = STATE_IDLE,
        preamble_count = 0, preamble_locked_once = False, preamble_bin = 0,
        preamble_bin_hist = [], sto_skip_remaining = 0, sfo_next_sym_shift = 0,
        header_syms = replicate 8 0, header_idx = 0, payload_len = 0, payload_cr = 0,
        payload_has_crc = False, payload_ldro = False, hdr_leftover = [], payload_syms = [],
        payload_sym_target = 0, crc_bruteforce = True, crc_bruteforce_2bit = False,
        meta = meta0\<lparr> m_sf := s, m_cr := c, m_bw_hz := bw \<rparr>,
        has_cb = False, has_preamble_cb = False,
        stream_chunk_anchor = 0, stream_step_per_sample = 0, samples_in_chunk = 0 \<rparr>)"

definition lora_decoder_create :: "int \<Rightarrow> int \<Rightarrow> int \<Rightarrow> 'a lora_decoder option" where
  "lora_decoder_create s c bw = lora_decoder_create_os s c bw 1"

definition lora_decoder_set_callback :: "'a lora_decoder \<Rightarrow> bool \<Rightarrow> 'a lora_decoder" where
  "lora_decoder_set_callback d cb = d\<lparr> has_cb := cb \<rparr>"

definition lora_decoder_set_preamble_cb :: "'a lora_decoder \<Rightarrow> bool \<Rightarrow> 'a lora_decoder" where
  "lora_decoder_set_preamble_cb d cb = d\<lparr> has_preamble_cb := cb \<rparr>"

definition lora_decoder_set_stream_cursor :: "'a lora_decoder \<Rightarrow> u64 \<Rightarrow> u32 \<Rightarrow> 'a lora_decoder" where
  "lora_decoder_set_stream_cursor d anchor step =
     d\<lparr> stream_chunk_anchor := anchor, stream_step_per_sample := step, samples_in_chunk := 0 \<rparr>"

definition lora_decoder_set_crc_bruteforce :: "'a lora_decoder \<Rightarrow> bool \<Rightarrow> 'a lora_decoder" where
  "lora_decoder_set_crc_bruteforce d en = d\<lparr> crc_bruteforce := en \<rparr>"

definition lora_decoder_set_crc_bruteforce_2bit :: "'a lora_decoder \<Rightarrow> bool \<Rightarrow> 'a lora_decoder" where
  "lora_decoder_set_crc_bruteforce_2bit d en = d\<lparr> crc_bruteforce_2bit := en \<rparr>"

definition reset_to_idle :: "'a lora_decoder \<Rightarrow> 'a lora_decoder" where
  "reset_to_idle d = d\<lparr> dstate := STATE_IDLE, preamble_count := 0, preamble_locked_once := False,
     preamble_bin_hist := [], header_idx := 0, sto_skip_remaining := 0, hdr_leftover := [],
     payload_syms := [], payload_sym_target := 0, payload_ldro := False,
     sfo_next_sym_shift := 0 \<rparr>"

subsection \<open>Preamble states\<close>

definition tick_idle :: "'a lora_decoder \<Rightarrow> lora_tick \<Rightarrow> 'a lora_decoder" where
  "tick_idle d t =
     (if \<not> t_above_floor t then d
      else d\<lparr> preamble_bin := uint (t_sym t), preamble_count := 1,
        preamble_bin_hist := [uint (t_sym t)], dstate := STATE_PREAMBLE_OK,
        preamble_locked_once := False \<rparr>)"

text \<open>The cyclic bin distance and the mode of the captured bins (first maximum wins).\<close>

definition bin_diff :: "int \<Rightarrow> int \<Rightarrow> int \<Rightarrow> int" where
  "bin_diff N a b = (let diff = \<bar>a - b\<bar> in if diff > N div 2 then N - diff else diff)"

definition mode_step :: "int list \<Rightarrow> int \<Rightarrow> int \<times> nat \<Rightarrow> int \<times> nat" where
  "mode_step hist b best =
     (let c = count_list hist b in if c > snd best then (b, c) else best)"

definition preamble_mode :: "int \<Rightarrow> int list \<Rightarrow> int" where
  "preamble_mode bin hist =
     (if length hist \<ge> 2 then fst (fold (mode_step hist) hist (hd hist, 1)) else bin)"

definition clamp_k_hat :: "int \<Rightarrow> int \<Rightarrow> int" where
  "clamp_k_hat N k = (let k = (if k < 0 then 0 else k) in if k \<ge> N then 0 else k)"

definition k_signed :: "int \<Rightarrow> int \<Rightarrow> int" where
  "k_signed N k = (if k \<ge> N div 2 then k - N else k)"

text \<open>A symbol that still matches the preamble, with the once-per-run lock event.\<close>

definition preamble_extend :: "'a lora_decoder \<Rightarrow> lora_tick \<Rightarrow> 'a lora_decoder \<times> lora_event list" where
  "preamble_extend d t =
     (let d1 = (if preamble_count d < PREAMBLE_MIN + 4
                then d\<lparr> preamble_count := preamble_count d + 1 \<rparr> else d);
          lock = (preamble_count d1 \<ge> PREAMBLE_MIN \<and> \<not> preamble_locked_once d1);
          d2 = (if lock then d1\<lparr> preamble_locked_once := True,
                  meta := (meta d1)\<lparr>
                    m_preamble_lock_sample_idx := stream_chunk_anchor d1
                      + ucast (samples_in_chunk d1) * ucast (stream_step_per_sample d1),
                    m_preamble_lock_t_ns := t_now_ns t \<rparr> \<rparr> else d1);
          d3 = (if length (preamble_bin_hist d2) < 16
                then d2\<lparr> preamble_bin_hist := preamble_bin_hist d2 @ [uint (t_sym t)] \<rparr>
                else d2)
      in (d3, if lock \<and> has_preamble_cb d then [PreambleCb (sf d) (cr d) (bw_hz d)] else []))"

text \<open>The first sync-word symbol: realign the sample grid and start the header.\<close>

definition preamble_sync :: "'a lora_decoder \<Rightarrow> 'a lora_decoder" where
  "preamble_sync d =
     (let k_hat = clamp_k_hat (fft_N d) (preamble_mode (preamble_bin d) (preamble_bin_hist d))
      in d\<lparr> header_idx := 0, dstate := STATE_HEADER,
            sto_skip_remaining := (fft_N d - k_signed (fft_N d) k_hat) * os_factor d,
            preamble_bin := 0, preamble_bin_hist := [] \<rparr>)"

definition tick_preamble :: "'a lora_decoder \<Rightarrow> lora_tick \<Rightarrow> 'a lora_decoder \<times> lora_event list" where
  "tick_preamble d t =
     (if \<not> t_above_floor t then (reset_to_idle d, [])
      else let diff = bin_diff (fft_N d) (uint (t_sym t)) (preamble_bin d);
               straddle = (preamble_count d \<ge> PREAMBLE_MIN \<and> t_peak_drop t)
           in if diff \<le> 2 \<and> \<not> straddle then preamble_extend d t
              else if preamble_count d \<ge> PREAMBLE_MIN then (preamble_sync d, [])
              else (reset_to_idle d, []))"

subsection \<open>Header\<close>

text \<open>Bin to Gray-demapped symbol; \<^verbatim>\<open>reduced\<close> is the header / low-data-rate mode (divide by 4).\<close>

definition symbol_of_bin :: "int \<Rightarrow> int \<Rightarrow> bool \<Rightarrow> u16 \<Rightarrow> u16" where
  "symbol_of_bin N bin reduced s =
     (let corr = (uint s - bin - 1) smod N;
          corr = (if corr < 0 then corr + N else corr);
          demod_out = (if reduced then word_of_int (corr div 4) else word_of_int corr)
      in lora_gray_decode demod_out)"

definition header_sf_app :: "int \<Rightarrow> int" where
  "header_sf_app s = (if s - 2 < 5 then 5 else s - 2)"

definition header_nibbles :: "u16 list \<Rightarrow> int \<Rightarrow> bytes" where
  "header_nibbles syms sf_app =
     map (\<lambda>c. lora_hamming_decode c 8) (lora_deinterleave syms sf_app 8 [])"

text \<open>Bit k of nibble i, as the checksum formulas read it.\<close>

definition computed_chk :: "bytes \<Rightarrow> byte" where
  "computed_chk n =
     (let n0 = bit (n ! 0); n1 = bit (n ! 1); n2 = bit (n ! 2);
          c4 = (((n0 3 \<noteq> n0 2) \<noteq> n0 1) \<noteq> n0 0);
          c3 = ((((n0 3 \<noteq> n1 3) \<noteq> n1 2) \<noteq> n1 1) \<noteq> n2 0);
          c2 = ((((n0 2 \<noteq> n1 3) \<noteq> n1 0) \<noteq> n2 3) \<noteq> n2 1);
          c1 = (((((n0 1 \<noteq> n1 2) \<noteq> n1 0) \<noteq> n2 2) \<noteq> n2 1) \<noteq> n2 0);
          c0 = (((((n0 0 \<noteq> n1 1) \<noteq> n2 3) \<noteq> n2 2) \<noteq> n2 1) \<noteq> n2 0)
      in push_bit 4 (of_bool c4) OR push_bit 3 (of_bool c3) OR push_bit 2 (of_bool c2)
         OR push_bit 1 (of_bool c1) OR of_bool c0)"

definition header_chk :: "bytes \<Rightarrow> byte" where
  "header_chk n = push_bit 4 (n ! 3 AND 1) OR (n ! 4 AND 0x0f)"

definition header_payload_len :: "bytes \<Rightarrow> int" where
  "header_payload_len n = uint (n ! 0) * 16 + uint (n ! 1)"

definition header_has_crc :: "bytes \<Rightarrow> bool" where
  "header_has_crc n = bit (n ! 2) 0"

definition header_payload_cr :: "bytes \<Rightarrow> int" where
  "header_payload_cr n =
     (let hdr_cr_app = uint (drop_bit 1 (n ! 2) AND 7)
      in if hdr_cr_app \<ge> 1 \<and> hdr_cr_app \<le> 4 then hdr_cr_app + 4 else 5)"

definition header_ldro :: "int \<Rightarrow> int \<Rightarrow> bool" where
  "header_ldro s bw = (2 ^ nat s * 1000 > 16 * bw)"

definition ceil_div :: "int \<Rightarrow> int \<Rightarrow> int" where
  "ceil_div a b = (a + b - 1) div b"

definition payload_symbol_count :: "int \<Rightarrow> bool \<Rightarrow> int \<Rightarrow> bool \<Rightarrow> int \<Rightarrow> nat" where
  "payload_symbol_count s ldro plen crc pcr =
     (let denom = s - (if ldro then 2 else 0);
          numer = 2 * plen - s + 2 + 5 + (if crc then 4 else 0);
          numer = (if numer < 0 then 0 else numer);
          cnt = ceil_div numer denom * pcr;
          cnt = (if cnt < 0 then 0 else cnt)
      in nat (if cnt > int MAX_PAYLOAD_SYMBOLS then int MAX_PAYLOAD_SYMBOLS else cnt))"

text \<open>The block that runs when the eighth header symbol is in.\<close>

definition header_complete :: "'a lora_decoder \<Rightarrow> 'a lora_decoder \<times> lora_event list" where
  "header_complete d =
     (let sf_app = header_sf_app (sf d);
          n = header_nibbles (header_syms d) sf_app;
          plen = header_payload_len n;
          ok = (computed_chk n = header_chk n \<and> plen > 0);
          d1 = d\<lparr> payload_len := plen, payload_has_crc := header_has_crc n,
                  payload_cr := header_payload_cr n,
                  meta := (meta d)\<lparr> m_payload_len := plen, m_has_crc := header_has_crc n,
                                    m_header_crc_ok := ok \<rparr> \<rparr>
      in if \<not> ok then (reset_to_idle d1, [])
         else let ldro = header_ldro (sf d) (bw_hz d);
                  target = payload_symbol_count (sf d) ldro plen (header_has_crc n) (header_payload_cr n);
                  d2 = d1\<lparr> hdr_leftover := take 16 (drop 5 n), payload_ldro := ldro,
                           payload_sym_target := target, payload_syms := [],
                           dstate := STATE_PAYLOAD \<rparr>
              in if target = 0 then
                   (let d3 = d2\<lparr> meta := (meta d2)\<lparr> m_payload_crc_ok := \<not> payload_has_crc d2 \<rparr> \<rparr>
                    in (reset_to_idle d3, if has_cb d then [FrameCb [] (meta d3)] else []))
                 else (d2, []))"

definition tick_header :: "'a lora_decoder \<Rightarrow> lora_tick \<Rightarrow> 'a lora_decoder \<times> lora_event list" where
  "tick_header d t =
     (if header_idx d < 2 then
        (let d1 = d\<lparr> header_idx := header_idx d + 1 \<rparr>;
             trim = (if t_trim_input t < 0 then 0 else t_trim_input t)
         in (if header_idx d1 = 2
             then d1\<lparr> sto_skip_remaining := sto_skip_remaining d1 + trim \<rparr> else d1, []))
      else let hi = header_idx d - 2;
               d1 = (if hi < 8
                     then d\<lparr> header_syms := (header_syms d)[hi :=
                              symbol_of_bin (fft_N d) (preamble_bin d) True (t_sym t)],
                            header_idx := header_idx d + 1 \<rparr>
                     else d)
           in if header_idx d1 = 2 + 8 then header_complete d1 else (d1, []))"

subsection \<open>Payload\<close>

text \<open>
  One nibble into the half-byte carry \<^verbatim>\<open>pending_lo\<close> and the byte buffer; both
  source loops stop taking nibbles once the buffer holds 256 bytes.
\<close>

definition nibble_step :: "byte \<Rightarrow> byte option \<times> bytes \<Rightarrow> byte option \<times> bytes" where
  "nibble_step nib st =
     (let (pending_lo, bytes) = st
      in if length bytes < MAX_PAYLOAD_BYTES then
           (case pending_lo of
              None \<Rightarrow> (Some nib, bytes)
            | Some lo \<Rightarrow> (None, bytes @ [push_bit 4 nib OR (lo AND 0x0f)]))
         else st)"

text \<open>The loop over the blocks of \<^verbatim>\<open>cr_p\<close> symbols.\<close>

function payload_blocks :: "u16 list \<Rightarrow> nat \<Rightarrow> nat \<Rightarrow> byte option \<times> bytes \<Rightarrow> byte option \<times> bytes" where
  "payload_blocks syms sf_p cr_p st =
     (if 0 < cr_p \<and> cr_p \<le> length syms then
        payload_blocks (drop cr_p syms) sf_p cr_p
          (fold nibble_step
            (map (\<lambda>c. lora_hamming_decode c (int cr_p))
              (take sf_p (lora_deinterleave (take cr_p syms) (int sf_p) (int cr_p) (replicate 16 0)))) st)
      else st)"
  by auto
termination
  by (relation "measure (\<lambda>(syms, _). length syms)") auto

declare payload_blocks.simps [simp del]

definition payload_bytes :: "bytes \<Rightarrow> u16 list \<Rightarrow> nat \<Rightarrow> nat \<Rightarrow> bytes" where
  "payload_bytes leftover syms sf_p cr_p =
     snd (payload_blocks syms sf_p cr_p
            (fold nibble_step (map (\<lambda>nib. nib AND 0x0f) leftover) (None, [])))"

text \<open>Truncation to the announced length and dewhitening of the payload part only.\<close>

definition payload_trim :: "bytes \<Rightarrow> nat \<Rightarrow> bool \<Rightarrow> bytes" where
  "payload_trim bytes plen crc =
     (let total = plen + (if crc then 2 else 0);
          bytes = take total bytes
      in lora_dewhiten bytes (if plen > length bytes then length bytes else plen))"

text \<open>The CRC check and its two recovery tiers: (ok, corrected, bits, buffer).\<close>

definition payload_crc_tiers :: "bool \<Rightarrow> bool \<Rightarrow> bytes \<Rightarrow> bool \<times> bool \<times> int \<times> bytes" where
  "payload_crc_tiers bf bf2 bytes =
     (let n = length bytes
      in if got_crc bytes n = want_crc bytes (n - 2) then (True, False, 0, bytes)
         else if bf \<and> fst (lora_crc_bruteforce_correct bytes n)
           then (True, True, 1, snd (lora_crc_bruteforce_correct bytes n))
         else if bf \<and> bf2 \<and> fst (lora_crc_bruteforce_correct_2bit True bytes n)
           then (True, True, 2, snd (lora_crc_bruteforce_correct_2bit True bytes n))
         else (False, False, 0, bytes))"

definition payload_complete :: "'a lora_decoder \<Rightarrow> 'a lora_decoder \<times> lora_event list" where
  "payload_complete d =
     (let sf_p = nat (if payload_ldro d then sf d - 2 else sf d);
          bytes = payload_trim (payload_bytes (hdr_leftover d) (payload_syms d) sf_p (nat (payload_cr d)))
                    (nat (payload_len d)) (payload_has_crc d);
          (m, out) =
            (if payload_has_crc d \<and> length bytes \<ge> 4 then
               (let (ok, corr, bits, b) = payload_crc_tiers (crc_bruteforce d) (crc_bruteforce_2bit d) bytes
                in ((meta d)\<lparr> m_payload_crc_ok := ok, m_crc_corrected := corr,
                              m_crc_corrected_bits := bits \<rparr>, b))
             else ((meta d)\<lparr> m_payload_crc_ok := \<not> payload_has_crc d \<rparr>, bytes))
      in (reset_to_idle (d\<lparr> meta := m \<rparr>),
          if has_cb d then [FrameCb (take (nat (payload_len d)) out) m] else []))"

definition tick_payload :: "'a lora_decoder \<Rightarrow> lora_tick \<Rightarrow> 'a lora_decoder \<times> lora_event list" where
  "tick_payload d t =
     (let g = symbol_of_bin (fft_N d) (preamble_bin d) (payload_ldro d) (t_sym t);
          d1 = (if length (payload_syms d) < MAX_PAYLOAD_SYMBOLS
                then d\<lparr> payload_syms := payload_syms d @ [g] \<rparr> else d)
      in if length (payload_syms d1) \<ge> payload_sym_target d1 then payload_complete d1 else (d1, []))"

subsection \<open>The state machine and the sample loop\<close>

definition apply_drift :: "'a lora_decoder \<Rightarrow> lora_tick \<Rightarrow> 'a lora_decoder" where
  "apply_drift d t =
     (if (dstate d = STATE_HEADER \<and> header_idx d \<ge> 2) \<or> dstate d = STATE_PAYLOAD
      then (if t_sfo_shift t > 0 then d\<lparr> sfo_next_sym_shift := 1 \<rparr>
            else if t_sfo_shift t < 0 then d\<lparr> sfo_next_sym_shift := -1 \<rparr> else d)
      else d)"

definition state_tick :: "'a lora_decoder \<Rightarrow> lora_tick \<Rightarrow> 'a lora_decoder \<times> lora_event list" where
  "state_tick d t =
     (let (d1, evs) = (case dstate d of
            STATE_IDLE \<Rightarrow> (tick_idle d t, [])
          | STATE_PREAMBLE_OK \<Rightarrow> tick_preamble d t
          | STATE_HEADER \<Rightarrow> tick_header d t
          | STATE_PAYLOAD \<Rightarrow> tick_payload d t)
      in (apply_drift d1 t, evs))"

text \<open>One input sample; \<^verbatim>\<open>demod\<close> is the front end run on a full symbol buffer.\<close>

definition feed_sample ::
  "('a lora_decoder \<Rightarrow> 'a list \<Rightarrow> lora_tick) \<Rightarrow> 'a lora_decoder \<Rightarrow> 'a \<Rightarrow> 'a lora_decoder \<times> lora_event list" where
  "feed_sample demod d x =
     (if sto_skip_remaining d > 0 then
        (d\<lparr> sto_skip_remaining := sto_skip_remaining d - 1,
            samples_in_chunk := samples_in_chunk d + 1 \<rparr>, [])
      else let d1 = d\<lparr> symbuf := symbuf d @ [x], samples_in_chunk := samples_in_chunk d + 1 \<rparr>
           in if length (symbuf d1) = samples_per_symbol d1 then
                (let (d2, evs) = state_tick d1 (demod d1 (symbuf d1));
                     d3 = (if sfo_next_sym_shift d2 > 0 then d2\<lparr> symbuf := [last (symbuf d1)] \<rparr>
                           else if sfo_next_sym_shift d2 < 0
                             then d2\<lparr> sto_skip_remaining := sto_skip_remaining d2 + 1, symbuf := [] \<rparr>
                           else d2\<lparr> symbuf := [] \<rparr>)
                 in (d3\<lparr> sfo_next_sym_shift := 0 \<rparr>, evs))
              else (d1, []))"

fun lora_decoder_feed ::
  "('a lora_decoder \<Rightarrow> 'a list \<Rightarrow> lora_tick) \<Rightarrow> 'a lora_decoder \<Rightarrow> 'a list \<Rightarrow> 'a lora_decoder \<times> lora_event list" where
  "lora_decoder_feed demod d [] = (d, [])"
| "lora_decoder_feed demod d (x # xs) =
     (let (d1, e1) = feed_sample demod d x; (d2, e2) = lora_decoder_feed demod d1 xs
      in (d2, e1 @ e2))"

end
