(* ===== verification/Lora_Phy.thy ===== *)
theory Lora_Phy
  imports Lora_Frame
begin

text \<open>
  The coding primitives of the LoRa physical layer as the waveform defines them, independent
  of the receiver's code: the whitening sequence as the output of its shift register, the CRC
  as a bit-serial division, the header checksum as a parity-check matrix.  The lemmas equate
  each with the routine of \<^verbatim>\<open>src/lora.c\<close> that the receiver runs.
\<close>

subsection \<open>Whitening\<close>

text \<open>The register of \<open>x^8 + x^6 + x^5 + x^4 + 1\<close>, started at all ones.\<close>

definition lfsr_next :: "byte \<Rightarrow> byte" where
  "lfsr_next s = push_bit 1 s OR of_bool (((bit s 7 \<noteq> bit s 5) \<noteq> bit s 4) \<noteq> bit s 3)"

fun lfsr_seq :: "nat \<Rightarrow> byte \<Rightarrow> bytes" where
  "lfsr_seq 0 s = []"
| "lfsr_seq (Suc n) s = s # lfsr_seq n (lfsr_next s)"

definition tx_whiten :: "bytes \<Rightarrow> bytes" where
  "tx_whiten p = map2 (XOR) p (lfsr_seq (length p) 0xFF)"

subsection \<open>Checksum of a payload\<close>

text \<open>Division by \<open>x^16 + x^12 + x^5 + 1\<close>, one message bit at a time, high bits first.\<close>

definition crc_bit :: "u16 \<Rightarrow> bool \<Rightarrow> u16" where
  "crc_bit c b = push_bit 1 c XOR (if bit c 15 \<noteq> b then 0x1021 else 0)"

definition msb_bits :: "byte \<Rightarrow> bool list" where
  "msb_bits x = map (bit x) [7, 6, 5, 4, 3, 2, 1, 0]"

definition crc_serial :: "bytes \<Rightarrow> u16" where
  "crc_serial p = foldl crc_bit 0 (concat (map msb_bits p))"

text \<open>The last two payload bytes enter the checksum unshifted.\<close>

definition crc_reference :: "bytes \<Rightarrow> u16" where
  "crc_reference p =
     (let n = length p
      in crc_serial (take (n - 2) p) XOR ucast (p ! (n - 1)) XOR push_bit 8 (ucast (p ! (n - 2))))"

subsection \<open>Checksum of the header\<close>

text \<open>The parity-check rows, high bit first, over the twelve header bits counted from the top
  bit of the first nibble.\<close>

definition header_parity :: "nat list list" where
  "header_parity = [[0, 1, 2, 3], [0, 4, 5, 6, 11], [1, 4, 7, 8, 10],
     [2, 5, 7, 9, 10, 11], [3, 6, 8, 9, 10, 11]]"

definition header_bit :: "bytes \<Rightarrow> nat \<Rightarrow> bool" where
  "header_bit n i = bit (n ! (i div 4)) (3 - i mod 4)"

definition parity_of :: "bool list \<Rightarrow> bool" where
  "parity_of bs = foldl (\<noteq>) False bs"

definition tx_chk :: "bytes \<Rightarrow> byte" where
  "tx_chk n = foldl (\<lambda>a row. push_bit 1 a OR of_bool (parity_of (map (header_bit n) row))) 0 header_parity"

subsection \<open>The receiver's routines agree\<close>

lemma length_lfsr_seq [simp]: "length (lfsr_seq n s) = n"
  by (induction n arbitrary: s) simp_all

lemma lfsr_seq_prefix: "n \<le> m \<Longrightarrow> i < n \<Longrightarrow> lfsr_seq n s ! i = lfsr_seq m s ! i"
proof (induction n arbitrary: m s i)
  case (Suc n)
  then obtain k where "m = Suc k" "n \<le> k" by (cases m) auto
  with Suc show ?case by (cases i) auto
qed simp

lemma whiten_table_is_lfsr: "take 255 LORA_WHITEN = lfsr_seq 255 0xFF"
  by code_simp

lemma tx_whiten_code:
  assumes "length p \<le> 255"
  shows "tx_whiten p = lora_dewhiten p (length p)"
proof (rule nth_equalityI)
  fix i assume "i < length (tx_whiten p)"
  then have i: "i < length p" by (simp add: tx_whiten_def)
  then show "tx_whiten p ! i = lora_dewhiten p (length p) ! i"
    using assms lfsr_seq_prefix [OF assms i, of "0xFF"] nth_take [of i 255 LORA_WHITEN]
    by (simp add: tx_whiten_def nth_lora_dewhiten whiten_table_is_lfsr)
qed (simp add: tx_whiten_def)

lemma crc_bit_shift: "crc_bit c b = crc_shift (c XOR (if b then 0x8000 else 0))"
proof -
  have "crc_shift 0x8000 = 0x1021" by code_simp
  then have "crc_shift (c XOR 0x8000) = crc_shift c XOR 0x1021" by (simp only: shift.xor)
  then show ?thesis by (cases b) (auto simp: crc_bit_def crc_shift_def bit_15_test xor.assoc)
qed

lemma byte_high_bits:
  fixes x :: byte
  defines "t \<equiv> \<lambda>k. if bit x k then push_bit (8 + k) (1 :: u16) else 0"
  shows "push_bit 8 (ucast x) = t 7 XOR t 6 XOR t 5 XOR t 4 XOR t 3 XOR t 2 XOR t 1 XOR t 0"
proof (rule bit_word_eqI)
  fix n assume n: "n < LENGTH(16)"
  have t: "bit (t k) n \<longleftrightarrow> bit x k \<and> n = 8 + k" for k
    using n by (auto simp: t_def bit_push_bit_iff bit_1_iff simp del: push_bit_of_1)
  consider "n < 8" | "n = 8" | "n = 9" | "n = 10" | "n = 11" | "n = 12" | "n = 13" | "n = 14" | "n = 15"
    using n by fastforce
  then show "bit (push_bit 8 (ucast x) :: u16) n =
      bit (t 7 XOR t 6 XOR t 5 XOR t 4 XOR t 3 XOR t 2 XOR t 1 XOR t 0) n"
    unfolding bit_xor_iff t by cases (simp_all add: bit_push_bit_iff bit_ucast_iff)
qed

lemma crc_shift_if: "crc_shift (if b then w else 0) = (if b then crc_shift w else 0)"
  by (simp add: shift.zero)

lemma crc_shift_powers:
  "crc_shift 0x0100 = 0x0200" "crc_shift 0x0200 = 0x0400" "crc_shift 0x0400 = 0x0800"
  "crc_shift 0x0800 = 0x1000" "crc_shift 0x1000 = 0x2000" "crc_shift 0x2000 = 0x4000"
  "crc_shift 0x4000 = 0x8000"
  by code_simp+

lemma crc_byte_serial: "foldl crc_bit c (msb_bits x) = crc_byte c x"
proof -
  let ?t = "\<lambda>k w. if bit x k then w else (0 :: u16)"
  have x: "push_bit 8 (ucast x) = ?t 7 0x8000 XOR ?t 6 0x4000 XOR ?t 5 0x2000 XOR ?t 4 0x1000
      XOR ?t 3 0x0800 XOR ?t 2 0x0400 XOR ?t 1 0x0200 XOR ?t 0 0x0100"
    using byte_high_bits [of x] by simp
  have "(crc_shift ^^ 8) w = crc_shift (crc_shift (crc_shift (crc_shift (crc_shift (crc_shift
      (crc_shift (crc_shift w)))))))" for w by (simp add: eval_nat_numeral)
  then show ?thesis
    unfolding crc_byte_def crc_step8_def msb_bits_def x
    by (simp only: list.map foldl.simps crc_bit_shift shift.xor crc_shift_if crc_shift_powers xor.assoc)
qed

lemma crc_serial_code: "crc_serial p = lora_crc16 p (length p)"
proof -
  have "foldl crc_bit c (concat (map msb_bits p)) = foldl crc_byte c p" for c
    by (induction p arbitrary: c) (simp_all add: crc_byte_serial)
  then show ?thesis by (simp add: crc_serial_def lora_crc16_def)
qed

lemma crc_reference_code: "crc_reference p = want_crc p (length p)"
  by (simp add: crc_reference_def want_crc_def crc_serial_code lora_crc16_def Let_def xor.assoc)

lemma tx_chk_code: "tx_chk n = computed_chk n"
  by (simp add: tx_chk_def header_parity_def parity_of_def header_bit_def computed_chk_def Let_def
      push_bit_or push_bit_push_bit)

end
