(* ===== verification/Lora_Link.thy ===== *)
theory Lora_Link
  imports Lora_Phy
begin

text \<open>
  Correctness of the frame decoder of \<^verbatim>\<open>src/lora.c\<close>: nibble packing, the symbol budget
  computed from the header, the decoder invariant, and the round trip with a
  reference transmitter (the encoder chain that the decoder's comments cite).
\<close>

subsection \<open>Nibble packing\<close>

fun pack_nibbles :: "bytes \<Rightarrow> bytes" where
  "pack_nibbles (lo # hi # rest) = (push_bit 4 hi OR (lo AND 0x0f)) # pack_nibbles rest"
| "pack_nibbles _ = []"

definition unpack_nibbles :: "bytes \<Rightarrow> bytes" where
  "unpack_nibbles bs = concat (map (\<lambda>b. [b AND 0x0f, drop_bit 4 b]) bs)"

lemma length_pack_nibbles: "length (pack_nibbles ns) = length ns div 2"
  by (induction ns rule: pack_nibbles.induct) auto

lemma nibble_step_full: "length bs \<ge> MAX_PAYLOAD_BYTES \<Longrightarrow> fold nibble_step ns (p, bs) = (p, bs)"
  by (induction ns) (auto simp: nibble_step_def)

lemma fold_nibble_step:
  "length bs \<le> 256 \<Longrightarrow> snd (fold nibble_step ns (None, bs)) = bs @ take (256 - length bs) (pack_nibbles ns)"
proof (induction ns arbitrary: bs rule: pack_nibbles.induct)
  case (1 lo hi rest)
  show ?case
  proof (cases "length bs < 256")
    case True
    let ?b = "push_bit 4 hi OR (lo AND 0x0f)"
    have "fold nibble_step (lo # hi # rest) (None, bs) = fold nibble_step rest (None, bs @ [?b])"
      using True by (simp add: nibble_step_def MAX_PAYLOAD_BYTES_def)
    moreover have "256 - length bs = Suc (255 - length bs)" using True by simp
    ultimately show ?thesis using True "1.IH" [of "bs @ [?b]"] by simp
  next
    case False
    then show ?thesis
      using "1.prems" nibble_step_full [of bs "lo # hi # rest" None] by (simp add: MAX_PAYLOAD_BYTES_def)
  qed
qed (auto simp: nibble_step_def)

text \<open>All nibbles of a symbol stream, block by block.\<close>

function block_nibbles :: "u16 list \<Rightarrow> nat \<Rightarrow> nat \<Rightarrow> bytes" where
  "block_nibbles syms sf_p cr_p =
     (if 0 < cr_p \<and> cr_p \<le> length syms then
        map (\<lambda>c. lora_hamming_decode c (int cr_p))
            (take sf_p (lora_deinterleave (take cr_p syms) (int sf_p) (int cr_p) (replicate 16 0)))
        @ block_nibbles (drop cr_p syms) sf_p cr_p
      else [])"
  by auto
termination
  by (relation "measure (\<lambda>(syms, _). length syms)") auto

declare block_nibbles.simps [simp del]

lemma payload_blocks_fold: "payload_blocks syms s c st = fold nibble_step (block_nibbles syms s c) st"
proof (induction syms s c st rule: payload_blocks.induct)
  case (1 syms s c st)
  then show ?case
    by (subst payload_blocks.simps, subst block_nibbles.simps) simp
qed

lemma payload_bytes_pack:
  "payload_bytes leftover syms s c =
     take 256 (pack_nibbles (map (\<lambda>n. n AND 0x0f) leftover @ block_nibbles syms s c))"
  using fold_nibble_step [of "[]" "map (\<lambda>n. n AND 0x0f) leftover @ block_nibbles syms s c"]
  by (simp add: payload_bytes_def payload_blocks_fold)

lemma length_deinterleave:
  "0 < s \<Longrightarrow> 0 < c \<Longrightarrow> length (lora_deinterleave syms (int s) (int c) buf) = max s (length buf)"
  by (simp add: lora_deinterleave_def Let_def)

lemma length_block_nibbles:
  "0 < s \<Longrightarrow> 0 < c \<Longrightarrow> length (block_nibbles syms s c) = s * (length syms div c)"
proof (induction syms s c rule: block_nibbles.induct)
  case (1 syms s c)
  then show ?case
    by (subst block_nibbles.simps) (auto simp: length_deinterleave le_div_geq)
qed

lemma pack_unpack_append: "pack_nibbles (unpack_nibbles bs @ junk) = bs @ pack_nibbles junk"
proof (induction bs)
  case (Cons b bs)
  have "push_bit 4 (drop_bit 4 b) OR ((b AND 0x0f) AND 0x0f) = b"
    by (simp only: and.assoc and.idem byte_of_nibbles)
  then show ?case using Cons by (simp add: unpack_nibbles_def)
qed (simp add: unpack_nibbles_def)

lemma length_unpack_nibbles [simp]: "length (unpack_nibbles bs) = 2 * length bs"
  by (induction bs) (auto simp: unpack_nibbles_def)

subsection \<open>The symbol budget\<close>

lemma ceil_div_bounds:
  assumes "0 < b" shows "a \<le> b * ceil_div a b" "b * ceil_div a b < a + b"
proof -
  have "b * ((a + b - 1) div b) = a + b - 1 - (a + b - 1) mod b" by (simp add: minus_mod_eq_mult_div)
  moreover have "0 \<le> (a + b - 1) mod b" "(a + b - 1) mod b < b" using assms by auto
  ultimately show "a \<le> b * ceil_div a b" "b * ceil_div a b < a + b" by (auto simp: ceil_div_def)
qed

lemma symbol_count_exact:
  assumes s: "7 \<le> s" "s \<le> 12" and l: "1 \<le> plen" "plen \<le> 255" and c: "5 \<le> c" "c \<le> 8"
  shows "int (payload_symbol_count s ldro plen crc c) =
    ceil_div (max 0 (2 * plen - s + 7 + (if crc then 4 else 0))) (s - (if ldro then 2 else 0)) * c"
proof -
  define numer where "numer = max 0 (2 * plen - s + 7 + (if crc then 4 else 0))"
  define denom where "denom = s - (if ldro then 2 else 0)"
  have n: "0 \<le> numer" "numer \<le> 514" using assms by (auto simp: numer_def)
  have d: "5 \<le> denom" using assms by (auto simp: denom_def)
  have numer: "numer = (if 2 * plen - s + 2 + 5 + (if crc then 4 else 0) < 0 then 0
      else 2 * plen - s + 2 + 5 + (if crc then 4 else 0))" by (auto simp: numer_def)
  have k0: "0 \<le> ceil_div numer denom"
    using n d by (simp add: ceil_div_def pos_imp_zdiv_nonneg_iff)
  have "5 * ceil_div numer denom \<le> denom * ceil_div numer denom"
    using d k0 by (rule mult_right_mono)
  also have "\<dots> < 514 + 12"
    using ceil_div_bounds(2) [of denom numer] n d s by (auto simp: denom_def split: if_splits)
  finally have k: "0 \<le> ceil_div numer denom" "ceil_div numer denom \<le> 105" using k0 by auto
  then have "0 \<le> ceil_div numer denom * c" "ceil_div numer denom * c \<le> 105 * 8"
    using c mult_mono [of "ceil_div numer denom" 105 c 8] by auto
  moreover have "payload_symbol_count s ldro plen crc c =
      (let cnt = ceil_div numer denom * c in nat (if cnt < 0 then 0 else if cnt > 1024 then 1024 else cnt))"
    unfolding payload_symbol_count_def Let_def numer denom_def MAX_PAYLOAD_SYMBOLS_def by simp
  ultimately show ?thesis by (simp add: Let_def numer_def denom_def)
qed

lemma payload_symbol_count_le [bound_rules]:
  "payload_symbol_count s ldro plen crc c \<le> MAX_PAYLOAD_SYMBOLS"
  unfolding payload_symbol_count_def Let_def nat_le_iff by (split if_split) simp

lemma payload_bytes_enough:
  assumes s: "7 \<le> s" "s \<le> 12" and l: "1 \<le> plen" "plen \<le> 255" and c: "5 \<le> c" "c \<le> 8"
    and left: "length leftover = nat (s - 7)"
    and syms: "length syms = payload_symbol_count s ldro plen crc c"
  shows "min 256 (nat plen + (if crc then 2 else 0))
     \<le> length (payload_bytes leftover syms (nat (if ldro then s - 2 else s)) (nat c))"
proof -
  define sp where "sp = (if ldro then s - 2 else s)"
  define numer where "numer = max 0 (2 * plen - s + 7 + (if crc then 4 else 0))"
  have sp: "5 \<le> sp" "s - (if ldro then 2 else 0) = sp" using s by (auto simp: sp_def)
  have cnt: "int (length syms) = ceil_div numer sp * c"
    using symbol_count_exact [OF s l c, of ldro crc] syms by (simp add: numer_def sp(2))
  have k: "0 \<le> ceil_div numer sp" using sp by (simp add: ceil_div_def pos_imp_zdiv_nonneg_iff numer_def)
  have "length syms div nat c = nat (ceil_div numer sp)"
  proof -
    have "int (length syms div nat c) = ceil_div numer sp" using cnt c by (simp add: zdiv_int)
    then show ?thesis by simp
  qed
  then have nn: "int (length (block_nibbles syms (nat sp) (nat c))) = sp * ceil_div numer sp"
    using sp c k by (simp add: length_block_nibbles)
  have "numer \<le> sp * ceil_div numer sp" using ceil_div_bounds(1) [of sp numer] sp by simp
  then have "2 * plen + (if crc then 4 else 0) \<le> int (length leftover + length (block_nibbles syms (nat sp) (nat c)))"
    using left s unfolding of_nat_add nn by (auto simp: numer_def)
  then have "nat plen + (if crc then 2 else 0) \<le>
      (length leftover + length (block_nibbles syms (nat sp) (nat c))) div 2"
    using l by (auto split: if_splits)
  then show ?thesis by (auto simp: payload_bytes_pack length_pack_nibbles sp_def)
qed

subsection \<open>Reference transmitter\<close>

text \<open>The two CRC bytes that follow the payload, low byte first, not whitened.\<close>

definition tx_crc :: "bytes \<Rightarrow> bytes" where
  "tx_crc p = (let w = crc_reference p in [ucast w, ucast (drop_bit 8 w)])"

definition tx_data :: "bytes \<Rightarrow> bool \<Rightarrow> bytes" where
  "tx_data p crc = unpack_nibbles (tx_whiten p @ (if crc then tx_crc p else []))"

text \<open>The five header nibbles: length, rate and CRC flag, and the five check bits.\<close>

definition tx_rate :: "int \<Rightarrow> bool \<Rightarrow> byte" where
  "tx_rate c crc = of_int (2 * (c - 4) + of_bool crc)"

definition tx_header :: "nat \<Rightarrow> int \<Rightarrow> bool \<Rightarrow> bytes" where
  "tx_header plen c crc =
     (let n = [of_nat (plen div 16), of_nat (plen mod 16), tx_rate c crc];
          chk = tx_chk n
      in n @ [drop_bit 4 chk, chk AND 0x0f])"

definition pad_to :: "nat \<Rightarrow> bytes \<Rightarrow> bytes" where
  "pad_to n xs = take n (xs @ replicate n 0)"

definition tx_block :: "bytes \<Rightarrow> nat \<Rightarrow> nat \<Rightarrow> u16 list" where
  "tx_block nibs s c = interleave_ref (map (\<lambda>n. hamming_encode n (int c)) nibs) s c"

function tx_blocks :: "bytes \<Rightarrow> nat \<Rightarrow> nat \<Rightarrow> u16 list" where
  "tx_blocks nibs s c =
     (if nibs = [] \<or> s = 0 then [] else tx_block (pad_to s nibs) s c @ tx_blocks (drop s nibs) s c)"
  by auto
termination
  by (relation "measure (\<lambda>(nibs, _). length nibs)") auto

declare tx_blocks.simps [simp del]

text \<open>Gray mapping and the chirp offset of one bin; a reduced-rate symbol uses every fourth bin.\<close>

definition tx_bin :: "int \<Rightarrow> bool \<Rightarrow> u16 \<Rightarrow> u16" where
  "tx_bin N reduced g =
     word_of_int ((uint (lora_gray_encode g) * (if reduced then 4 else 1) + 1) mod N)"

definition tx_header_block :: "int \<Rightarrow> int \<Rightarrow> bool \<Rightarrow> bytes \<Rightarrow> u16 list" where
  "tx_header_block s c crc p =
     tx_block (tx_header (length p) c crc @ pad_to (nat (s - 7)) (tx_data p crc)) (nat (s - 2)) 8"

definition tx_payload_blocks :: "int \<Rightarrow> bool \<Rightarrow> int \<Rightarrow> bool \<Rightarrow> bytes \<Rightarrow> u16 list" where
  "tx_payload_blocks s ldro c crc p =
     tx_blocks (drop (nat (s - 7)) (tx_data p crc)) (nat (if ldro then s - 2 else s)) (nat c)"

definition tx_frame :: "int \<Rightarrow> bool \<Rightarrow> int \<Rightarrow> bool \<Rightarrow> bytes \<Rightarrow> u16 list" where
  "tx_frame s ldro c crc p =
     map (tx_bin (2 ^ nat s) True) (tx_header_block s c crc p)
     @ map (tx_bin (2 ^ nat s) ldro) (tx_payload_blocks s ldro c crc p)"

subsection \<open>One symbol, one block\<close>

lemma symbol_of_tx_bin:
  assumes "7 \<le> s" "s \<le> 12" "unat g < 2 ^ nat (if reduced then s - 2 else s)"
  shows "symbol_of_bin (2 ^ nat s) 0 reduced (tx_bin (2 ^ nat s) reduced g) = g"
proof -
  define N m v where "N = (2 :: int) ^ nat s" and "m = (if reduced then 4 else 1 :: int)"
    and "v = uint (lora_gray_encode g)"
  have "unat (lora_gray_encode g) < 2 ^ nat (if reduced then s - 2 else s)"
    using assms by (intro gray_encode_bound)
  then have v: "v < 2 ^ nat (if reduced then s - 2 else s)"
    unfolding v_def by (rule uint_less_of_unat)
  have "nat s = nat (s - 2) + 2" using assms(1) by auto
  then have "N = 2 ^ nat (s - 2) * 4" by (simp add: N_def power_add)
  then have vm: "v * m < N" using v by (auto simp: m_def N_def split: if_splits)
  have "N \<le> 2 ^ 12" unfolding N_def using assms(2) by (intro power_increasing) auto
  moreover have "2 ^ 2 \<le> N" unfolding N_def using assms(1) by (intro power_increasing) auto
  ultimately have N: "0 < N" "1 < N" "N \<le> 4096" by auto
  have t: "0 \<le> (v * m + 1) mod N" "(v * m + 1) mod N < N" using N by auto
  have bin: "uint (tx_bin N reduced g) = (v * m + 1) mod N"
  proof -
    have "(v * m + 1) mod N mod 65536 = (v * m + 1) mod N"
      using t N by (intro mod_pos_pos_trivial) linarith+
    then show ?thesis
      by (simp add: tx_bin_def v_def [symmetric] m_def [symmetric] uint_word_of_int take_bit_eq_mod)
  qed
  have v0: "0 \<le> v" by (simp add: v_def)
  have corr: "(let c = ((v * m + 1) mod N - 0 - 1) smod N in if c < 0 then c + N else c) = v * m"
  proof (cases "v * m + 1 < N")
    case True
    have "0 \<le> v * m" using v0 by (simp add: m_def)
    then show ?thesis using True N by (simp add: Let_def smod_mod_positive)
  next
    case False
    then have "v * m + 1 = N" using vm by simp
    then show ?thesis using N by (simp add: smod_int_alt_def)
  qed
  have "symbol_of_bin N 0 reduced (tx_bin N reduced g) =
      lora_gray_decode (if reduced then word_of_int (v * m div 4) else word_of_int (v * m))"
    unfolding symbol_of_bin_def bin using corr by (simp add: Let_def)
  also have "\<dots> = g" by (simp add: m_def v_def)
  finally show ?thesis by (simp add: N_def)
qed

lemma hamming_encode_bound: "c \<in> {5..8} \<Longrightarrow> unat (hamming_encode n (int c)) < 2 ^ c"
proof (rule unat_less_if_not_bit)
  fix k assume c: "c \<in> {5..8}" and k: "c \<le> k"
  then have "length (hamming_code_bits (int c) (bit n 0) (bit n 1) (bit n 2) (bit n 3)) = c"
    using length_hamming_code_bits [of "int c"] by auto
  then show "\<not> bit (hamming_encode n (int c)) k"
    using c k by (simp add: hamming_encode_def Let_def bit_pack_row)
qed

lemma block_decode:
  assumes "1 \<le> s" "s \<le> 16" "c \<in> {5..8}" "length nibs = s" "\<forall>n\<in>set nibs. n < 16"
  shows "map (\<lambda>w. lora_hamming_decode w (int c))
           (take s (lora_deinterleave (tx_block nibs s c) (int s) (int c) buf)) = nibs"
proof -
  have "lora_deinterleave (tx_block nibs s c) (int s) (int c) buf
      = map (\<lambda>n. hamming_encode n (int c)) nibs @ drop s buf"
    unfolding tx_block_def using assms hamming_encode_bound [OF assms(3)]
    by (intro deinterleave_interleave) auto
  then show ?thesis using assms
    by (auto simp: o_def hamming_decode_encode intro!: map_idI)
qed

lemma length_tx_block [simp]: "length (tx_block nibs s c) = c"
  by (simp add: tx_block_def interleave_ref_def)

lemma length_pad_to [simp]: "length (pad_to n xs) = n"
  by (simp add: pad_to_def)

lemma set_pad_to: "\<forall>n\<in>set xs. n < 16 \<Longrightarrow> \<forall>n\<in>set (pad_to k xs). n < 16"
  by (auto simp: pad_to_def dest!: in_set_takeD)

lemma block_nibbles_tx:
  assumes "1 \<le> s" "s \<le> 16" "c \<in> {5..8}" "\<forall>n\<in>set nibs. n < 16"
  shows "\<exists>k. block_nibbles (tx_blocks nibs s c) s c = nibs @ replicate k 0"
  using assms
proof (induction nibs s c rule: tx_blocks.induct)
  case (1 nibs s c)
  show ?case
  proof (cases "nibs = []")
    case True
    then show ?thesis using 1 by (auto simp: tx_blocks.simps block_nibbles.simps)
  next
    case False
    have "\<forall>n\<in>set (drop s nibs). n < 16" using 1(5) by (auto dest: in_set_dropD)
    then obtain k where k: "block_nibbles (tx_blocks (drop s nibs) s c) s c = drop s nibs @ replicate k 0"
      using 1 False by auto
    have "block_nibbles (tx_blocks nibs s c) s c = pad_to s nibs @ drop s nibs @ replicate k 0"
      using 1(2-5) False
      by (subst tx_blocks.simps, subst block_nibbles.simps)
         (auto simp: k block_decode set_pad_to)
    moreover have "pad_to s nibs @ drop s nibs @ replicate k 0 =
        nibs @ replicate (if s \<le> length nibs then k else s - length nibs + k) 0"
      by (auto simp: pad_to_def simp flip: replicate_add)
    ultimately show ?thesis by metis
  qed
qed

subsection \<open>Runs of the state machine\<close>

fun run_ticks :: "'a lora_decoder \<Rightarrow> lora_tick list \<Rightarrow> 'a lora_decoder \<times> lora_event list" where
  "run_ticks d [] = (d, [])"
| "run_ticks d (t # ts) =
     (let (d1, e1) = state_tick d t; (d2, e2) = run_ticks d1 ts in (d2, e1 @ e2))"

lemma run_ticks_append:
  "run_ticks d (ts @ us) =
     (let (d1, e1) = run_ticks d ts; (d2, e2) = run_ticks d1 us in (d2, e1 @ e2))"
  by (induction ts arbitrary: d) (auto simp: Let_def split: prod.splits)

lemma apply_drift_none [simp]: "t_sfo_shift t = 0 \<Longrightarrow> apply_drift d t = d"
  by (simp add: apply_drift_def)

lemma header_prefix:
  assumes "dstate d = STATE_HEADER" "header_idx d = 2" "length (header_syms d) = 8"
    and "preamble_bin d = 0" "length ts \<le> 7" "\<forall>t\<in>set ts. t_sfo_shift t = 0"
  shows "run_ticks d ts =
    (d\<lparr> header_syms := map (\<lambda>t. symbol_of_bin (fft_N d) 0 True (t_sym t)) ts @ drop (length ts) (header_syms d),
        header_idx := 2 + length ts \<rparr>, [])"
  using assms(5,6)
proof (induction ts rule: rev_induct)
  case Nil
  then show ?case using assms by simp
next
  case (snoc t ts)
  let ?f = "\<lambda>t. symbol_of_bin (fft_N d) 0 True (t_sym t)"
  have "(map ?f ts @ drop (length ts) (header_syms d))[length ts := ?f t] =
      map ?f (ts @ [t]) @ drop (length (ts @ [t])) (header_syms d)"
    using snoc.prems assms(3)
    by (intro nth_equalityI) (auto simp: nth_append nth_list_update less_Suc_eq)
  then show ?case
    using snoc assms by (simp add: run_ticks_append state_tick_def tick_header_def Let_def)
qed

lemma header_run:
  assumes "dstate d = STATE_HEADER" "header_idx d = 2" "length (header_syms d) = 8"
    and "preamble_bin d = 0" "length ts = 8" "\<forall>t\<in>set ts. t_sfo_shift t = 0"
  shows "run_ticks d ts = header_complete
    (d\<lparr> header_syms := map (\<lambda>t. symbol_of_bin (fft_N d) 0 True (t_sym t)) ts, header_idx := 10 \<rparr>)"
proof -
  obtain us t where ts: "ts = us @ [t]" "length us = 7"
    using assms(5) by (cases ts rule: rev_cases) auto
  have "(map (\<lambda>t. symbol_of_bin (fft_N d) 0 True (t_sym t)) us @ drop 7 (header_syms d))[7 := x] =
      map (\<lambda>t. symbol_of_bin (fft_N d) 0 True (t_sym t)) us @ [x]" for x
    using ts assms(3) by (intro nth_equalityI) (auto simp: nth_append nth_list_update less_Suc_eq)
  then show ?thesis
    using ts header_prefix [OF assms(1-4), of us] assms
    by (simp add: run_ticks_append state_tick_def tick_header_def Let_def)
qed

lemma payload_prefix:
  assumes "dstate d = STATE_PAYLOAD" "preamble_bin d = 0"
    and "length (payload_syms d) + length ts < payload_sym_target d"
    and "payload_sym_target d \<le> MAX_PAYLOAD_SYMBOLS" "\<forall>t\<in>set ts. t_sfo_shift t = 0"
  shows "run_ticks d ts =
    (d\<lparr> payload_syms := payload_syms d @ map (\<lambda>t. symbol_of_bin (fft_N d) 0 (payload_ldro d) (t_sym t)) ts \<rparr>, [])"
  using assms(3,5)
proof (induction ts rule: rev_induct)
  case Nil
  then show ?case by simp
next
  case (snoc t ts)
  then show ?case
    using assms by (simp add: run_ticks_append state_tick_def tick_payload_def Let_def)
qed

lemma payload_run:
  assumes "dstate d = STATE_PAYLOAD" "preamble_bin d = 0" "payload_syms d = []"
    and "length ts = payload_sym_target d" "0 < payload_sym_target d"
    and "payload_sym_target d \<le> MAX_PAYLOAD_SYMBOLS" "\<forall>t\<in>set ts. t_sfo_shift t = 0"
  shows "run_ticks d ts = payload_complete
    (d\<lparr> payload_syms := map (\<lambda>t. symbol_of_bin (fft_N d) 0 (payload_ldro d) (t_sym t)) ts \<rparr>)"
proof -
  obtain us t where ts: "ts = us @ [t]" using assms(4,5) by (cases ts rule: rev_cases) auto
  then have "length (payload_syms d) + length us < payload_sym_target d" using assms by simp
  from payload_prefix [OF assms(1,2) this assms(6)] ts assms
  show ?thesis
    by (simp add: run_ticks_append state_tick_def tick_payload_def Let_def)
qed

subsection \<open>Decoding a transmitted header\<close>

lemma nibble_less_16: "b AND 0x0f < (16 :: byte)" "drop_bit 4 b < (16 :: byte)"
proof -
  have "unat (b AND 0x0f) < 2 ^ 4" "unat (drop_bit 4 b) < 2 ^ 4"
    by (rule unat_less_if_not_bit; auto simp: and_15_take_bit bit_take_bit_iff bit_drop_bit_eq
        dest: bit_imp_le_length)+
  then show "b AND 0x0f < 16" "drop_bit 4 b < 16" by (simp_all add: word_less_nat_alt)
qed

lemma unpack_nibbles_less: "\<forall>n\<in>set (unpack_nibbles bs). n < 16"
  by (auto simp: unpack_nibbles_def nibble_less_16)

lemma tx_data_less: "\<forall>n\<in>set (tx_data p crc). n < 16"
  by (simp add: tx_data_def unpack_nibbles_less)

lemma computed_chk_append: "computed_chk ([a, b, c] @ r) = computed_chk [a, b, c]"
  by (simp add: computed_chk_def)

lemma computed_chk_bits: "5 \<le> k \<Longrightarrow> \<not> bit (computed_chk n) k"
  unfolding computed_chk_def Let_def
  by (simp only: bit_or_iff bit_push_bit_iff bit_of_bool_iff) auto

lemma rate_nibble:
  assumes "c \<in> {5..8}"
  shows "tx_rate c crc < 16" "bit (tx_rate c crc) 0 = crc" "uint (drop_bit 1 (tx_rate c crc) AND 7) = c - 4"
proof -
  from assms have "c = 5 \<or> c = 6 \<or> c = 7 \<or> c = 8" by auto
  then show "tx_rate c crc < 16" "bit (tx_rate c crc) 0 = crc"
    "uint (drop_bit 1 (tx_rate c crc) AND 7) = c - 4"
    by (auto simp: tx_rate_def of_bool_def bit_0)
qed

lemma of_nat_nibble: "n < 16 \<Longrightarrow> (of_nat n :: byte) < 16 \<and> uint (of_nat n :: byte) = int n"
  by (simp add: word_less_nat_alt unat_of_nat uint_nat take_bit_nat_eq_self)

lemma tx_header_less:
  assumes "c \<in> {5..8}" "plen \<le> 255"
  shows "\<forall>n\<in>set (tx_header plen c crc). n < 16"
  using rate_nibble(1) [OF assms(1), of crc] assms(2) of_nat_nibble [of "plen div 16"] of_nat_nibble [of "plen mod 16"]
  by (auto simp: tx_header_def Let_def nibble_less_16)

lemma header_fields_tx:
  assumes "c \<in> {5..8}" "plen \<le> 255" "n = tx_header plen c crc @ r"
  shows "header_payload_len n = int plen" "header_has_crc n = crc" "header_payload_cr n = c"
    "computed_chk n = header_chk n"
proof -
  let ?h = "[of_nat (plen div 16), of_nat (plen mod 16), tx_rate c crc] :: bytes"
  let ?chk = "computed_chk ?h"
  have n: "n = ?h @ drop_bit 4 ?chk # (?chk AND 0x0f) # r"
    using assms(3) by (simp add: tx_header_def Let_def tx_chk_code)
  have "int (plen div 16 * 16 + plen mod 16) = int plen" by (simp only: div_mult_mod_eq)
  then have split: "int (plen div 16) * 16 + int (plen mod 16) = int plen"
    by (simp only: of_nat_add of_nat_mult of_nat_numeral)
  have "plen div 16 < 16" "plen mod 16 < 16" using assms(2) by auto
  then show "header_payload_len n = int plen"
    using of_nat_nibble [of "plen div 16"] of_nat_nibble [of "plen mod 16"]
    by (simp add: header_payload_len_def n split)
  show "header_has_crc n = crc"
    using rate_nibble(2) [OF assms(1), of crc] by (simp add: header_has_crc_def n)
  show "header_payload_cr n = c"
    using rate_nibble(3) [OF assms(1), of crc] assms(1) by (auto simp: header_payload_cr_def n Let_def)
  have "header_chk n = push_bit 4 (drop_bit 4 ?chk AND 1) OR ((?chk AND 0x0f) AND 0x0f)"
    by (simp add: header_chk_def n)
  also have "\<dots> = ?chk"
  proof (rule bit_word_eqI)
    fix k assume "k < LENGTH(8)"
    consider "k < 4" | "k = 4" | "5 \<le> k" by arith
    then show "bit (push_bit 4 (drop_bit 4 ?chk AND 1) OR ((?chk AND 0x0f) AND 0x0f)) k = bit ?chk k"
      using computed_chk_bits [of k ?h]
      by cases (auto simp: bit_or_iff bit_push_bit_iff bit_and_iff bit_drop_bit_eq bit_1_iff
          and_15_take_bit bit_take_bit_iff)
  qed
  finally show "computed_chk n = header_chk n" by (simp only: n computed_chk_append)
qed

lemma header_nibbles_tx:
  assumes "7 \<le> s" "s \<le> 12" "c \<in> {5..8}" "length p \<le> 255"
  shows "header_nibbles (tx_header_block s c crc p) (header_sf_app s) =
    tx_header (length p) c crc @ pad_to (nat (s - 7)) (tx_data p crc)"
proof -
  let ?n = "tx_header (length p) c crc @ pad_to (nat (s - 7)) (tx_data p crc)"
  have len: "length ?n = nat (s - 2)" using assms(1) by (simp add: tx_header_def Let_def)
  have sf: "header_sf_app s = int (nat (s - 2))" using assms(1) by (simp add: header_sf_app_def)
  have less: "\<forall>n\<in>set ?n. n < 16"
    using tx_header_less [OF assms(3,4)] set_pad_to [OF tx_data_less] by auto
  have "map (\<lambda>w. lora_hamming_decode w (int 8))
      (take (nat (s - 2)) (lora_deinterleave (tx_block ?n (nat (s - 2)) 8) (int (nat (s - 2))) (int 8) [])) = ?n"
    using assms len less by (intro block_decode) auto
  moreover have "length (lora_deinterleave (tx_block ?n (nat (s - 2)) 8) (int (nat (s - 2))) (int 8) []) = nat (s - 2)"
    using assms(1) by (subst length_deinterleave) auto
  ultimately show ?thesis by (simp add: header_nibbles_def tx_header_block_def sf)
qed

subsection \<open>Decoding a transmitted payload\<close>

lemma length_tx_blocks: "0 < s \<Longrightarrow> length (tx_blocks nibs s c) = c * ((length nibs + s - 1) div s)"
proof (induction nibs s c rule: tx_blocks.induct)
  case (1 nibs s c)
  show ?case
  proof (cases "nibs = []")
    case True
    then show ?thesis using 1(2) by (simp add: tx_blocks.simps)
  next
    case False
    have rec: "length (tx_blocks nibs s c) = c + c * ((length nibs - s + s - 1) div s)"
      using 1 False by (subst tx_blocks.simps) simp
    have "(length nibs + s - 1) div s = Suc ((length nibs - s + s - 1) div s)"
    proof (cases "length nibs \<le> s")
      case True
      then have "(length nibs + s - 1) div s = 1"
        using False 1(2) by (cases nibs) (auto intro!: div_nat_eqI)
      then show ?thesis using True 1(2) by simp
    next
      case False
      then have eq: "length nibs + s - 1 = (length nibs - s + s - 1) + s" by simp
      show ?thesis unfolding eq using 1(2) div_add_self2 [of s "length nibs - s + s - 1"] by simp
    qed
    then show ?thesis using rec by simp
  qed
qed

lemma length_tx_data: "length (tx_data p crc) = 2 * length p + (if crc then 4 else 0)"
  by (simp add: tx_data_def tx_crc_def tx_whiten_def Let_def)

lemma tx_payload_symbols:
  assumes s: "7 \<le> s" "s \<le> 12" and p: "1 \<le> length p" "length p \<le> 255" and c: "c \<in> {5..8}"
    and more: "nat (s - 7) \<le> length (tx_data p crc)"
  shows "length (tx_payload_blocks s ldro c crc p) = payload_symbol_count s ldro (int (length p)) crc c"
proof -
  define sp where "sp = nat (if ldro then s - 2 else s)"
  define n where "n = length (tx_data p crc) - nat (s - 7)"
  have sp: "0 < sp" "int sp = s - (if ldro then 2 else 0)" using s by (auto simp: sp_def)
  have n: "int n = max 0 (2 * int (length p) - s + 7 + (if crc then 4 else 0))"
    using more s by (auto simp: n_def length_tx_data split: if_splits)
  have "int (length (tx_payload_blocks s ldro c crc p)) = c * (int (n + sp - 1) div int sp)"
    using sp c by (simp add: tx_payload_blocks_def length_tx_blocks sp_def [symmetric] n_def zdiv_int)
  also have "int (n + sp - 1) div int sp = ceil_div (int n) (int sp)"
    using sp(1) by (simp add: ceil_div_def of_nat_diff)
  also have "c * ceil_div (int n) (int sp) = int (payload_symbol_count s ldro (int (length p)) crc c)"
    using symbol_count_exact [of s "int (length p)" c ldro crc] s p c by (simp add: n sp(2) mult.commute)
  finally show ?thesis by simp
qed

lemma map_and_15_nibbles: "\<forall>n\<in>set ns. n < (16 :: byte) \<Longrightarrow> map (\<lambda>n. n AND 0x0f) ns = ns"
proof (rule map_idI)
  fix x assume "\<forall>n\<in>set ns. n < (16 :: byte)" "x \<in> set ns"
  then have "x < 16" by blast
  then show "x AND 0x0f = x"
    unfolding and_15_take_bit
    by (intro bit_word_eqI) (metis bit_take_bit_iff byte_not_bit_above_4 not_less)
qed

lemma payload_bytes_tx:
  assumes "7 \<le> s" "s \<le> 12" "c \<in> {5..8}" "nat (s - 7) \<le> length (tx_data p crc)"
  shows "\<exists>junk. payload_bytes (pad_to (nat (s - 7)) (tx_data p crc)) (tx_payload_blocks s ldro c crc p)
      (nat (if ldro then s - 2 else s)) (nat c)
    = take 256 ((tx_whiten p @ (if crc then tx_crc p else [])) @ junk)"
proof -
  let ?D = "tx_data p crc" and ?k = "nat (s - 7)" and ?sp = "nat (if ldro then s - 2 else s)"
  have "\<exists>k. block_nibbles (tx_blocks (drop ?k ?D) ?sp (nat c)) ?sp (nat c) = drop ?k ?D @ replicate k 0"
    using assms tx_data_less [of p crc] by (intro block_nibbles_tx) (auto dest: in_set_dropD)
  then obtain k where k: "block_nibbles (tx_payload_blocks s ldro c crc p) ?sp (nat c) = drop ?k ?D @ replicate k 0"
    by (auto simp: tx_payload_blocks_def)
  have "map (\<lambda>n. n AND 0x0f) (pad_to ?k ?D) = take ?k ?D"
    using assms(4) map_and_15_nibbles [OF set_pad_to [OF tx_data_less]] by (simp add: pad_to_def)
  then have "payload_bytes (pad_to ?k ?D) (tx_payload_blocks s ldro c crc p) ?sp (nat c)
      = take 256 (pack_nibbles (?D @ replicate k 0))"
    by (simp add: payload_bytes_pack k) (simp flip: append_assoc)
  then show ?thesis unfolding tx_data_def pack_unpack_append by blast
qed

lemma dewhiten_append: "lora_dewhiten (xs @ ys) (length xs) = lora_dewhiten xs (length xs) @ ys"
  by (rule nth_equalityI) (auto simp: nth_lora_dewhiten nth_append)

lemma payload_trim_tx:
  assumes "length p \<le> 255" "length p + (if crc then 2 else 0) \<le> 256"
  shows "payload_trim (take 256 ((tx_whiten p @ (if crc then tx_crc p else [])) @ junk)) (length p) crc
    = p @ (if crc then tx_crc p else [])"
proof -
  have eq: "take (length p + (if crc then 2 else 0))
      (take 256 ((tx_whiten p @ (if crc then tx_crc p else [])) @ junk))
      = lora_dewhiten p (length p) @ (if crc then tx_crc p else [])"
    using assms by (cases crc) (simp_all add: tx_crc_def Let_def tx_whiten_code)
  show ?thesis
    unfolding payload_trim_def Let_def eq
    using dewhiten_append [of "lora_dewhiten p (length p)" "if crc then tx_crc p else []"]
    by (simp add: lora_dewhiten_involution)
qed

lemma want_crc_append: "2 \<le> length p \<Longrightarrow> want_crc (p @ r) (length p) = want_crc p (length p)"
proof -
  assume "2 \<le> length p"
  then have "length p - 1 < length p" "length p - 2 < length p" by auto
  then show ?thesis by (simp add: want_crc_def lora_crc16_def nth_append)
qed

lemma word16_of_bytes: "ucast (ucast w :: byte) OR push_bit 8 (ucast (ucast (drop_bit 8 w) :: byte)) = (w :: u16)"
  by (rule bit_word_eqI) (auto simp: bit_or_iff bit_push_bit_iff bit_ucast_iff bit_drop_bit_eq)

lemma tx_crc_checks:
  assumes "2 \<le> length p"
  shows "got_crc (p @ tx_crc p) (length (p @ tx_crc p)) = want_crc (p @ tx_crc p) (length (p @ tx_crc p) - 2)"
  using assms
  by (simp add: got_crc_def tx_crc_def Let_def nth_append want_crc_append word16_of_bytes
      crc_reference_code)

lemma tx_block_bound: "n \<le> 16 \<Longrightarrow> \<forall>g\<in>set (tx_block nibs n c). unat g < 2 ^ n"
  by (auto simp: tx_block_def interleave_ref_def bit_pack_row intro!: unat_less_if_not_bit)

lemma tx_blocks_bound: "n \<le> 16 \<Longrightarrow> \<forall>g\<in>set (tx_blocks nibs n c). unat g < 2 ^ n"
proof (induction nibs n c rule: tx_blocks.induct)
  case (1 nibs n c)
  then show ?case using tx_block_bound [of n "pad_to n nibs" c] by (subst tx_blocks.simps) auto
qed

lemma tick_symbols:
  assumes s: "7 \<le> s" "s \<le> 12" and gs: "\<forall>g\<in>set gs. unat g < 2 ^ nat (if reduced then s - 2 else s)"
    and ts: "map t_sym ts = map (tx_bin (2 ^ nat s) reduced) gs"
  shows "map (\<lambda>t. symbol_of_bin (2 ^ nat s) 0 reduced (t_sym t)) ts = gs"
proof -
  have "map (\<lambda>t. symbol_of_bin (2 ^ nat s) 0 reduced (t_sym t)) ts
      = map (symbol_of_bin (2 ^ nat s) 0 reduced) (map t_sym ts)" by simp
  also have "\<dots> = gs" unfolding ts using gs symbol_of_tx_bin [OF s] by (auto intro!: map_idI)
  finally show ?thesis .
qed

lemma tx_payload_bound:
  assumes "s \<le> 12"
  shows "\<forall>g\<in>set (tx_payload_blocks s ldro c crc p). unat g < 2 ^ nat (if ldro then s - 2 else s)"
  unfolding tx_payload_blocks_def using assms by (intro tx_blocks_bound) auto

lemma tx_header_bound:
  assumes "s \<le> 12"
  shows "\<forall>g\<in>set (tx_header_block s c crc p). unat g < 2 ^ nat (if True then s - 2 else s)"
  unfolding tx_header_block_def if_True using assms by (intro tx_block_bound) auto

lemma tx_blocks_ne:
  assumes "nibs \<noteq> []" "0 < n" "0 < c" shows "tx_blocks nibs n c \<noteq> []"
proof -
  have "tx_block (pad_to n nibs) n c \<noteq> []"
    using assms(3) by (simp add: length_greater_0_conv [symmetric] del: length_greater_0_conv)
  then show ?thesis using assms by (subst tx_blocks.simps) simp
qed

lemma header_complete_tx:
  assumes s: "7 \<le> sf d" "sf d \<le> 12" and c: "c \<in> {5..8}" and p: "1 \<le> length p" "length p \<le> 255"
    and syms: "header_syms d = tx_header_block (sf d) c crc p"
    and tgt: "0 < payload_symbol_count (sf d) (header_ldro (sf d) (bw_hz d)) (int (length p)) crc c"
  shows "header_complete d =
    (d\<lparr> payload_len := int (length p), payload_has_crc := crc, payload_cr := c,
        meta := (meta d)\<lparr> m_payload_len := int (length p), m_has_crc := crc, m_header_crc_ok := True \<rparr>,
        hdr_leftover := pad_to (nat (sf d - 7)) (tx_data p crc),
        payload_ldro := header_ldro (sf d) (bw_hz d),
        payload_sym_target := payload_symbol_count (sf d) (header_ldro (sf d) (bw_hz d)) (int (length p)) crc c,
        payload_syms := [], dstate := STATE_PAYLOAD \<rparr>, [])"
proof -
  let ?pad = "pad_to (nat (sf d - 7)) (tx_data p crc)"
  have n: "header_nibbles (header_syms d) (header_sf_app (sf d)) = tx_header (length p) c crc @ ?pad"
    unfolding syms using s c p by (intro header_nibbles_tx)
  note f = header_fields_tx [OF c p(2) refl, of crc ?pad]
  have left: "take 16 ?pad = ?pad" "length (tx_header (length p) c crc) = 5"
    using s by (simp_all add: tx_header_def Let_def)
  have "0 < length p" using p by linarith
  then show ?thesis
    using tgt by (simp add: header_complete_def Let_def n f left)
qed

lemma payload_complete_tx:
  assumes s: "7 \<le> sf d" "sf d \<le> 12" and c: "payload_cr d \<in> {5..8}"
    and plen: "payload_len d = int (length p)"
    and crc: "payload_has_crc d \<longrightarrow> 2 \<le> length p \<and> length p \<le> 254" "length p \<le> 255"
    and more: "nat (sf d - 7) \<le> length (tx_data p (payload_has_crc d))"
    and left: "hdr_leftover d = pad_to (nat (sf d - 7)) (tx_data p (payload_has_crc d))"
    and syms: "payload_syms d = tx_payload_blocks (sf d) (payload_ldro d) (payload_cr d) (payload_has_crc d) p"
  shows "payload_complete d =
    (let m = (if payload_has_crc d
              then (meta d)\<lparr> m_payload_crc_ok := True, m_crc_corrected := False, m_crc_corrected_bits := 0 \<rparr>
              else (meta d)\<lparr> m_payload_crc_ok := True \<rparr>)
     in (reset_to_idle (d\<lparr> meta := m \<rparr>), if has_cb d then [FrameCb p m] else []))"
proof -
  let ?crc = "payload_has_crc d" and ?sp = "nat (if payload_ldro d then sf d - 2 else sf d)"
  obtain junk where "payload_bytes (hdr_leftover d) (payload_syms d) ?sp (nat (payload_cr d))
      = take 256 ((tx_whiten p @ (if ?crc then tx_crc p else [])) @ junk)"
    unfolding left syms using payload_bytes_tx [OF s c more] by auto
  moreover have "length p + (if ?crc then 2 else 0) \<le> 256" "length p \<le> 255" using crc by auto
  ultimately have bytes: "payload_trim (payload_bytes (hdr_leftover d) (payload_syms d) ?sp (nat (payload_cr d)))
      (nat (payload_len d)) ?crc = p @ (if ?crc then tx_crc p else [])"
    by (simp only: plen nat_int payload_trim_tx)
  show ?thesis
  proof (cases ?crc)
    case True
    then have two: "2 \<le> length p" using crc by simp
    then have "payload_crc_tiers b1 b2 (p @ tx_crc p) = (True, False, 0, p @ tx_crc p)" for b1 b2
      using tx_crc_checks [OF two] by (simp add: payload_crc_tiers_def)
    moreover have "4 \<le> length (p @ tx_crc p)" using two by (simp add: tx_crc_def Let_def)
    ultimately show ?thesis using True bytes plen by (simp add: payload_complete_def Let_def)
  next
    case False
    then show ?thesis using bytes plen by (simp add: payload_complete_def Let_def)
  qed
qed

subsection \<open>The decoder invariant\<close>

text \<open>
  What holds of a decoder between two samples: the configuration accepted by
  \<^verbatim>\<open>lora_decoder_create_os\<close>, the fill levels of the fixed arrays, and, while a payload
  is being read, that the header fields and the symbol budget belong together.
\<close>

definition config_ok :: "'a lora_decoder \<Rightarrow> bool" where
  "config_ok d \<longleftrightarrow> 7 \<le> sf d \<and> sf d \<le> 12 \<and> 5 \<le> cr d \<and> cr d \<le> 8 \<and> 0 < bw_hz d
     \<and> fft_N d = 2 ^ nat (sf d) \<and> 1 \<le> os_factor d \<and> os_factor d \<le> 16
     \<and> samples_per_symbol d = nat (2 ^ nat (sf d) * os_factor d)
     \<and> m_sf (meta d) = sf d \<and> m_cr (meta d) = cr d \<and> m_bw_hz (meta d) = bw_hz d"

definition payload_ok :: "'a lora_decoder \<Rightarrow> bool" where
  "payload_ok d \<longleftrightarrow> 1 \<le> payload_len d \<and> payload_len d \<le> 255 \<and> 5 \<le> payload_cr d \<and> payload_cr d \<le> 8
     \<and> payload_sym_target d =
         payload_symbol_count (sf d) (payload_ldro d) (payload_len d) (payload_has_crc d) (payload_cr d)
     \<and> length (payload_syms d) < payload_sym_target d
     \<and> length (hdr_leftover d) = nat (sf d - 7)
     \<and> m_header_crc_ok (meta d) \<and> m_payload_len (meta d) = payload_len d
     \<and> m_has_crc (meta d) = payload_has_crc d"

definition lora_base :: "'a lora_decoder \<Rightarrow> bool" where
  "lora_base d \<longleftrightarrow> config_ok d \<and> length (symbuf d) \<le> samples_per_symbol d
     \<and> 0 \<le> preamble_count d \<and> preamble_count d \<le> PREAMBLE_MIN + 4
     \<and> (preamble_locked_once d \<longrightarrow> PREAMBLE_MIN \<le> preamble_count d)
     \<and> length (preamble_bin_hist d) \<le> 16 \<and> 0 \<le> sto_skip_remaining d
     \<and> length (header_syms d) = 8 \<and> length (payload_syms d) \<le> MAX_PAYLOAD_SYMBOLS
     \<and> length (hdr_leftover d) \<le> 16"

definition lora_inv :: "'a lora_decoder \<Rightarrow> bool" where
  "lora_inv d \<longleftrightarrow> lora_base d
     \<and> (dstate d = STATE_HEADER \<longrightarrow> header_idx d \<le> 9 \<and> preamble_bin d = 0)
     \<and> (dstate d = STATE_PAYLOAD \<longrightarrow> payload_ok d \<and> preamble_bin d = 0)"

text \<open>
  C1: a noise-free frame is received exactly.  For every spreading factor, coding rate,
  low-data-rate setting and payload that fits the receiver's buffers, a decoder that
  has consumed the preamble and the two downchirps and is then given the bins the
  reference transmitter sends delivers one frame, whose payload is the transmitted
  one with a valid CRC flag, and returns to the idle state.
\<close>

theorem lora_frame_roundtrip:
  assumes inv: "lora_inv d" and st: "dstate d = STATE_HEADER" "header_idx d = 2" and cb: "has_cb d"
    and c: "c \<in> {5..8}" and p: "1 \<le> length p" "length p \<le> 255"
    and crc: "crc \<longrightarrow> 2 \<le> length p \<and> length p \<le> 254"
    and more: "sf d - 7 < 2 * int (length p) + (if crc then 4 else 0)"
    and bins: "map t_sym ts = tx_frame (sf d) (header_ldro (sf d) (bw_hz d)) c crc p"
    and drift: "\<forall>t\<in>set ts. t_sfo_shift t = 0"
  shows "\<exists>d' m. run_ticks d ts = (d', [FrameCb p m]) \<and> dstate d' = STATE_IDLE
    \<and> m_payload_len m = int (length p) \<and> m_has_crc m = crc \<and> m_header_crc_ok m \<and> m_payload_crc_ok m
    \<and> (crc \<longrightarrow> \<not> m_crc_corrected m \<and> m_crc_corrected_bits m = 0)"
proof -
  let ?s = "sf d" and ?ldro = "header_ldro (sf d) (bw_hz d)" and ?D = "tx_data p crc"
  let ?H = "tx_header_block ?s c crc p" and ?P = "tx_payload_blocks ?s ?ldro c crc p"
  have s: "7 \<le> ?s" "?s \<le> 12" and N: "fft_N d = 2 ^ nat ?s"
    using inv by (auto simp: lora_inv_def lora_base_def config_ok_def)
  have D: "nat (?s - 7) < length ?D" using more s by (auto simp: length_tx_data nat_less_iff)
  have cnt: "length ?P = payload_symbol_count ?s ?ldro (int (length p)) crc c"
    using s p c D by (intro tx_payload_symbols) auto
  have "?P \<noteq> []"
    unfolding tx_payload_blocks_def using D s c by (intro tx_blocks_ne) auto
  then have tgt: "0 < payload_symbol_count ?s ?ldro (int (length p)) crc c" unfolding cnt [symmetric] by simp
  define hs us where "hs = take 8 ts" and "us = drop 8 ts"
  have lenH: "length ?H = 8" by (simp add: tx_header_block_def)
  have ts: "ts = hs @ us" by (simp add: hs_def us_def)
  have hb: "map t_sym hs = map (tx_bin (2 ^ nat ?s) True) ?H"
    and ub: "map t_sym us = map (tx_bin (2 ^ nat ?s) ?ldro) ?P"
    using bins lenH by (simp_all add: hs_def us_def tx_frame_def flip: take_map drop_map)
  have hsym: "map (\<lambda>t. symbol_of_bin (fft_N d) 0 True (t_sym t)) hs = ?H"
    unfolding N by (rule tick_symbols [OF s tx_header_bound [OF s(2)] hb])
  have usym: "map (\<lambda>t. symbol_of_bin (fft_N d) 0 ?ldro (t_sym t)) us = ?P"
    unfolding N by (rule tick_symbols [OF s tx_payload_bound [OF s(2)] ub])
  have lens: "length hs = 8" "length us = length ?P" using hb ub lenH by (metis length_map)+
  have pre: "preamble_bin d = 0" "length (header_syms d) = 8" using inv st by (auto simp: lora_inv_def lora_base_def)
  define d1 where "d1 = d\<lparr> header_syms := ?H, header_idx := 10 \<rparr>"
  obtain d2 where d2: "header_complete d1 = (d2, [])"
    "dstate d2 = STATE_PAYLOAD" "preamble_bin d2 = 0" "payload_syms d2 = []" "sf d2 = ?s" "fft_N d2 = fft_N d"
    "payload_ldro d2 = ?ldro" "payload_cr d2 = c" "payload_has_crc d2 = crc" "payload_len d2 = int (length p)"
    "payload_sym_target d2 = length ?P" "hdr_leftover d2 = pad_to (nat (?s - 7)) ?D" "has_cb d2"
    "m_payload_len (meta d2) = int (length p)" "m_has_crc (meta d2) = crc" "m_header_crc_ok (meta d2)"
    using header_complete_tx [of d1 c p crc] s c p tgt cnt pre cb by (simp add: d1_def)
  have "run_ticks d hs = header_complete d1"
    using header_run [OF st pre(2,1) lens(1)] drift ts hsym by (simp add: d1_def)
  moreover have "length ?P \<le> MAX_PAYLOAD_SYMBOLS"
    unfolding cnt by (rule payload_symbol_count_le)
  then have "run_ticks d2 us = payload_complete (d2\<lparr> payload_syms := ?P \<rparr>)"
    using payload_run [OF d2(2-4), of us] d2 lens drift ts \<open>?P \<noteq> []\<close> usym by simp
  ultimately have run: "run_ticks d ts = payload_complete (d2\<lparr> payload_syms := ?P \<rparr>)"
    using d2(1) by (simp add: ts run_ticks_append split: prod.splits)
  show ?thesis
    using payload_complete_tx [of "d2\<lparr> payload_syms := ?P \<rparr>" p] s c p crc D d2
    unfolding run by (auto simp: Let_def reset_to_idle_def)
qed

text \<open>The theorem at a receiver just after its downchirps, at SF7 / 125 kHz / CR 4/5, for a two-byte payload.\<close>

theorem lora_frame_roundtrip_witness:
  "let d = (the (lora_decoder_create_os 7 5 125000 1) :: nat lora_decoder)
             \<lparr> dstate := STATE_HEADER, header_idx := 2, has_cb := True \<rparr>;
       ts = map (\<lambda>b. \<lparr> t_sym = b, t_above_floor = True, t_peak_drop = False, t_trim_input = 0,
                        t_sfo_shift = 0, t_now_ns = 0 \<rparr>) (tx_frame 7 (header_ldro 7 125000) 5 True [0x41, 0x42])
   in \<exists>d' m. run_ticks d ts = (d', [FrameCb [0x41, 0x42] m]) \<and> dstate d' = STATE_IDLE
       \<and> m_payload_crc_ok m \<and> \<not> m_crc_corrected m"
proof -
  define d where "d = (the (lora_decoder_create_os 7 5 125000 1) :: nat lora_decoder)
    \<lparr> dstate := STATE_HEADER, header_idx := 2, has_cb := True \<rparr>"
  define bins where "bins = tx_frame 7 (header_ldro 7 125000) 5 True [0x41, 0x42]"
  define ts where "ts = map (\<lambda>b. \<lparr> t_sym = b, t_above_floor = True, t_peak_drop = False, t_trim_input = 0,
    t_sfo_shift = 0, t_now_ns = 0 \<rparr>) bins"
  have d: "lora_inv d" "dstate d = STATE_HEADER" "header_idx d = 2" "has_cb d" "sf d = 7" "bw_hz d = 125000"
    by (simp_all add: d_def lora_decoder_create_os_def lora_inv_def lora_base_def config_ok_def meta0_def
        PREAMBLE_MIN_def MAX_PAYLOAD_SYMBOLS_def)
  have "map t_sym ts = tx_frame (sf d) (header_ldro (sf d) (bw_hz d)) 5 True [0x41, 0x42]"
    unfolding d ts_def bins_def by (simp add: comp_def)
  moreover have "\<forall>t\<in>set ts. t_sfo_shift t = 0" by (auto simp: ts_def)
  ultimately obtain d' m where "run_ticks d ts = (d', [FrameCb [0x41, 0x42] m])" "dstate d' = STATE_IDLE"
    "m_payload_crc_ok m" "\<not> m_crc_corrected m"
    using lora_frame_roundtrip [OF d(1-4), of 5 "[0x41, 0x42]" True ts] d(5) by auto
  then show ?thesis unfolding Let_def d_def [symmetric] bins_def [symmetric] ts_def [symmetric] by blast
qed

end
