(* ===== verification/Lora_Inv.thy ===== *)
theory Lora_Inv
  imports Lora_Link
begin

text \<open>
  The invariant of the symbol-level decoder over arbitrary input: every sample the
  front end can report keeps it, every frame delivered is well formed, and a decoder
  that has left the preamble always comes back to the idle state.
\<close>

subsection \<open>The invariant is kept\<close>

lemmas lora_unfold = lora_inv_def lora_base_def config_ok_def PREAMBLE_MIN_def

text \<open>Fields the invariant does not read, or reads alone.\<close>

lemma payload_ok_frame [simp]:
  "payload_ok (d\<lparr> sfo_next_sym_shift := i \<rparr>) = payload_ok d"
  "payload_ok (d\<lparr> samples_in_chunk := j \<rparr>) = payload_ok d"
  "payload_ok (d\<lparr> sto_skip_remaining := k \<rparr>) = payload_ok d"
  "payload_ok (d\<lparr> symbuf := xs \<rparr>) = payload_ok d"
  by (simp_all add: payload_ok_def)

lemma lora_inv_frame [simp]:
  "lora_inv (d\<lparr> sfo_next_sym_shift := i \<rparr>) = lora_inv d"
  "lora_inv (d\<lparr> samples_in_chunk := j \<rparr>) = lora_inv d"
  by (simp_all add: lora_inv_def lora_base_def config_ok_def)

lemma lora_inv_callback [simp]: "lora_inv (lora_decoder_set_callback d cb) = lora_inv d"
  by (simp add: lora_decoder_set_callback_def lora_inv_def lora_base_def config_ok_def payload_ok_def)

lemma lora_inv_skip [inv_intros]: "lora_inv d \<Longrightarrow> 0 \<le> k \<Longrightarrow> lora_inv (d\<lparr> sto_skip_remaining := k \<rparr>)"
  by (simp add: lora_inv_def lora_base_def config_ok_def)

lemma lora_inv_symbuf [inv_intros]:
  "lora_inv d \<Longrightarrow> length xs \<le> samples_per_symbol d \<Longrightarrow> lora_inv (d\<lparr> symbuf := xs \<rparr>)"
  by (simp add: lora_inv_def lora_base_def config_ok_def)

lemma lora_inv_create:
  assumes "lora_decoder_create_os s c bw os = Some d"
  shows "lora_inv d"
  using assms
  by (auto simp: lora_decoder_create_os_def lora_unfold meta0_def MAX_PAYLOAD_SYMBOLS_def split: if_splits)

lemma lora_base_reset [inv_intros]: "lora_base d \<Longrightarrow> lora_base (reset_to_idle d)"
  by (simp add: lora_unfold reset_to_idle_def)

lemma lora_inv_reset [inv_intros]: "lora_base d \<Longrightarrow> lora_inv (reset_to_idle d)"
  by (simp add: lora_inv_def lora_base_reset) (simp add: reset_to_idle_def)

lemma lora_inv_base [dest]: "lora_inv d \<Longrightarrow> lora_base d"
  by (simp add: lora_inv_def)

lemma lora_inv_idle [inv_intros]: "lora_inv d \<Longrightarrow> dstate d = STATE_IDLE \<Longrightarrow> lora_inv (tick_idle d t)"
  by (auto simp: lora_unfold tick_idle_def)

lemma lora_inv_extend [inv_intros]:
  "lora_inv d \<Longrightarrow> dstate d = STATE_PREAMBLE_OK \<Longrightarrow> lora_inv (fst (preamble_extend d t))"
  by (simp add: lora_unfold preamble_extend_def Let_def) linarith

lemma clamp_k_hat_range: "0 < N \<Longrightarrow> 0 \<le> clamp_k_hat N k \<and> clamp_k_hat N k < N"
  by (auto simp: clamp_k_hat_def Let_def)

lemma k_signed_range: "0 \<le> k \<Longrightarrow> k < N \<Longrightarrow> k_signed N k \<le> N div 2"
  by (auto simp: k_signed_def)

lemma preamble_skip_bounds [bound_rules]:
  assumes "0 < N" "0 < os"
  shows "0 \<le> (N - k_signed N (clamp_k_hat N k)) * os \<and> (N - k_signed N (clamp_k_hat N k)) * os \<le> 2 * N * os"
proof -
  have c: "0 \<le> clamp_k_hat N k" "clamp_k_hat N k < N" using clamp_k_hat_range [OF assms(1)] by auto
  then have "0 \<le> N - k_signed N (clamp_k_hat N k)" "N - k_signed N (clamp_k_hat N k) \<le> 2 * N"
    by (auto simp: k_signed_def)
  then show ?thesis using assms by (auto intro: mult_nonneg_nonneg mult_right_mono)
qed

lemma lora_inv_sync [inv_intros]:
  "lora_inv d \<Longrightarrow> dstate d = STATE_PREAMBLE_OK \<Longrightarrow> lora_inv (preamble_sync d)"
  using preamble_skip_bounds [of "fft_N d" "os_factor d"]
  by (simp add: lora_unfold preamble_sync_def Let_def)

lemma lora_inv_preamble [inv_intros]:
  "lora_inv d \<Longrightarrow> dstate d = STATE_PREAMBLE_OK \<Longrightarrow> lora_inv (fst (tick_preamble d t))"
  by (auto simp: tick_preamble_def Let_def intro: inv_intros)

lemma hamming_decode_less [bound_rules]: "lora_hamming_decode cw c < 16"
proof -
  have "unat (lora_hamming_decode cw c) < 2 ^ 4"
    by (rule unat_less_if_not_bit)
      (auto simp: lora_hamming_decode_def Let_def bit_nibble_of_bits split: prod.splits)
  then show ?thesis by (simp add: word_less_nat_alt)
qed

lemma length_header_nibbles [simp]: "0 < sf_app \<Longrightarrow> length (header_nibbles syms sf_app) = nat sf_app"
  by (simp add: header_nibbles_def lora_deinterleave_def Let_def)

lemma header_payload_len_le:
  assumes "2 \<le> sf_app"
  shows "0 \<le> header_payload_len (header_nibbles syms sf_app)
    \<and> header_payload_len (header_nibbles syms sf_app) \<le> 255"
proof -
  have "uint (header_nibbles syms sf_app ! i) < 16" if "i < 2" for i
    using that assms hamming_decode_less
    by (simp add: header_nibbles_def lora_deinterleave_def Let_def word_less_def)
  from this [of 0] this [of 1] show ?thesis by (simp add: header_payload_len_def)
qed

lemma header_payload_cr_range: "5 \<le> header_payload_cr n \<and> header_payload_cr n \<le> 8"
  by (simp add: header_payload_cr_def Let_def)

lemma header_sf_app_eq: "7 \<le> s \<Longrightarrow> header_sf_app s = s - 2"
  by (simp add: header_sf_app_def)

lemma lora_inv_header_complete:
  assumes "lora_base d" "preamble_bin d = 0"
  shows "lora_inv (fst (header_complete d))"
proof -
  define n where "n = header_nibbles (header_syms d) (header_sf_app (sf d))"
  define plen where "plen = header_payload_len n"
  define pcr where "pcr = header_payload_cr n"
  have s: "7 \<le> sf d" "sf d \<le> 12" using assms by (auto simp: lora_base_def config_ok_def)
  have plen: "plen \<le> 255"
    using header_payload_len_le [of "header_sf_app (sf d)"] s by (simp add: header_sf_app_eq plen_def n_def)
  have pcr: "5 \<le> pcr" "pcr \<le> 8" using header_payload_cr_range [of n] by (simp_all add: pcr_def)
  have left: "length (take 16 (drop 5 n)) = nat (sf d - 7)" "nat (sf d - 7) \<le> 16"
    using s by (simp_all add: n_def header_sf_app_eq nat_diff_distrib')
  define crc where "crc = header_has_crc n"
  define ok where "ok \<longleftrightarrow> computed_chk n = header_chk n \<and> plen > 0"
  define ldro where "ldro = header_ldro (sf d) (bw_hz d)"
  define target where "target = payload_symbol_count (sf d) ldro plen crc pcr"
  define d1 where "d1 = d\<lparr> payload_len := plen, payload_has_crc := crc, payload_cr := pcr,
    meta := (meta d)\<lparr> m_payload_len := plen, m_has_crc := crc, m_header_crc_ok := ok \<rparr> \<rparr>"
  define d2 where "d2 = d1\<lparr> hdr_leftover := take 16 (drop 5 n), payload_ldro := ldro,
    payload_sym_target := target, payload_syms := [], dstate := STATE_PAYLOAD \<rparr>"
  have eq: "fst (header_complete d) = (if \<not> ok then reset_to_idle d1
      else if target = 0 then reset_to_idle (d2\<lparr> meta := (meta d2)\<lparr> m_payload_crc_ok := \<not> payload_has_crc d2 \<rparr> \<rparr>)
      else d2)"
    unfolding header_complete_def Let_def n_def [symmetric] plen_def [symmetric] pcr_def [symmetric]
      crc_def [symmetric] ok_def [symmetric] ldro_def [symmetric] target_def [symmetric]
    by (simp add: d1_def d2_def)
  have base: "lora_base d1" "lora_base d2" "lora_base (d2\<lparr> meta := (meta d2)\<lparr> m_payload_crc_ok := v \<rparr> \<rparr>)" for v
    using assms(1) by (simp_all add: d1_def d2_def lora_base_def config_ok_def)
  have "payload_ok d2" if "ok" "target \<noteq> 0"
    using that plen pcr left by (simp add: payload_ok_def d2_def d1_def ok_def target_def)
  then show ?thesis
    using base assms(2) by (auto simp: eq lora_inv_def [of d2] intro: inv_intros) (simp_all add: d2_def d1_def)
qed

text \<open>The state after a header or payload symbol has been stored.\<close>

definition with_header_sym :: "'a lora_decoder \<Rightarrow> lora_tick \<Rightarrow> 'a lora_decoder" where
  "with_header_sym d t = d\<lparr> header_syms := (header_syms d)[header_idx d - 2 :=
     symbol_of_bin (fft_N d) (preamble_bin d) True (t_sym t)], header_idx := header_idx d + 1 \<rparr>"

definition with_payload_sym :: "'a lora_decoder \<Rightarrow> lora_tick \<Rightarrow> 'a lora_decoder" where
  "with_payload_sym d t = d\<lparr> payload_syms := payload_syms d @
     [symbol_of_bin (fft_N d) (preamble_bin d) (payload_ldro d) (t_sym t)] \<rparr>"

lemma tick_header_step:
  assumes "lora_inv d" "dstate d = STATE_HEADER" "2 \<le> header_idx d"
  shows "tick_header d t = (if header_idx d = 9 then header_complete (with_header_sym d t) else (with_header_sym d t, []))"
proof -
  have "header_idx d - 2 < 8" "\<not> header_idx d < 2" "header_idx d + 1 = 2 + 8 \<longleftrightarrow> header_idx d = 9"
    using assms by (auto simp: lora_inv_def)
  then show ?thesis by (simp add: tick_header_def Let_def with_header_sym_def)
qed

lemma with_header_sym_base:
  assumes "lora_inv d" "dstate d = STATE_HEADER"
  shows "lora_base (with_header_sym d t)" "preamble_bin (with_header_sym d t) = 0"
  using assms by (simp_all add: with_header_sym_def lora_inv_def lora_base_def config_ok_def)

lemma payload_room:
  assumes "lora_inv d" "dstate d = STATE_PAYLOAD"
  shows "length (payload_syms d) < payload_sym_target d" "payload_sym_target d \<le> MAX_PAYLOAD_SYMBOLS"
  using assms payload_symbol_count_le by (auto simp: lora_inv_def payload_ok_def)

lemma tick_payload_step:
  assumes "lora_inv d" "dstate d = STATE_PAYLOAD"
  shows "tick_payload d t = (if Suc (length (payload_syms d)) = payload_sym_target d
    then payload_complete (with_payload_sym d t) else (with_payload_sym d t, []))"
  using payload_room [OF assms] by (auto simp: tick_payload_def Let_def with_payload_sym_def)

lemma with_payload_sym_base:
  assumes "lora_inv d" "dstate d = STATE_PAYLOAD"
  shows "lora_base (with_payload_sym d t)" "payload_ok ((with_payload_sym d t)\<lparr> payload_syms := [] \<rparr>)"
    "preamble_bin (with_payload_sym d t) = 0"
  using assms payload_room [OF assms]
  by (simp_all add: with_payload_sym_def lora_inv_def lora_base_def config_ok_def payload_ok_def)

lemma lora_inv_header [inv_intros]:
  assumes "lora_inv d" "dstate d = STATE_HEADER"
  shows "lora_inv (fst (tick_header d t))"
proof (cases "header_idx d < 2")
  case True
  then show ?thesis using assms by (simp add: tick_header_def Let_def lora_unfold)
next
  case False
  have "lora_inv (with_header_sym d t)" if "header_idx d \<noteq> 9"
    using with_header_sym_base [OF assms, of t] that assms
    by (simp add: lora_inv_def) (simp add: with_header_sym_def)
  then show ?thesis
    using False tick_header_step [OF assms] lora_inv_header_complete [OF with_header_sym_base [OF assms]] by simp
qed

lemma payload_complete_reset:
  "\<exists>m. fst (payload_complete d) = reset_to_idle (d\<lparr> meta := m \<rparr>)
     \<and> m_sf m = m_sf (meta d) \<and> m_cr m = m_cr (meta d) \<and> m_bw_hz m = m_bw_hz (meta d)"
  by (auto simp: payload_complete_def Let_def split: prod.splits)

lemma lora_inv_payload [inv_intros]:
  assumes "lora_inv d" "dstate d = STATE_PAYLOAD"
  shows "lora_inv (fst (tick_payload d t))"
proof -
  let ?d = "with_payload_sym d t"
  note base = with_payload_sym_base [OF assms, of t]
  then have "lora_base (?d\<lparr> meta := m \<rparr>)"
    if "m_sf m = m_sf (meta ?d)" "m_cr m = m_cr (meta ?d)" "m_bw_hz m = m_bw_hz (meta ?d)" for m
    using that by (simp add: lora_base_def config_ok_def)
  then have "lora_inv (fst (payload_complete ?d))"
    using payload_complete_reset [of ?d] by (metis lora_inv_reset)
  moreover have "lora_inv ?d" if "Suc (length (payload_syms d)) \<noteq> payload_sym_target d"
    using base assms payload_room [OF assms] that
    by (simp add: lora_inv_def payload_ok_def) (simp add: with_payload_sym_def)
  ultimately show ?thesis by (simp add: tick_payload_step [OF assms])
qed

lemma lora_inv_drift [inv_intros]: "lora_inv d \<Longrightarrow> lora_inv (apply_drift d t)"
  by (simp add: apply_drift_def)

lemma lora_inv_tick [inv_intros]:
  assumes "lora_inv d" shows "lora_inv (fst (state_tick d t))"
  using assms lora_inv_preamble [of d t] lora_inv_header [of d t] lora_inv_payload [of d t]
  by (cases "dstate d") (auto simp: state_tick_def intro: inv_intros split: prod.splits)


lemma feed_sample_inv:
  assumes "lora_inv d" "length (symbuf d) < samples_per_symbol d"
  shows "lora_inv (fst (feed_sample demod d x))
    \<and> length (symbuf (fst (feed_sample demod d x))) < samples_per_symbol (fst (feed_sample demod d x))"
proof -
  define d1 where "d1 = d\<lparr> symbuf := symbuf d @ [x], samples_in_chunk := samples_in_chunk d + 1 \<rparr>"
  have d1: "lora_inv d1" unfolding d1_def using assms by (auto intro!: inv_intros)
  define d2 where "d2 = fst (state_tick d1 (demod d1 (symbuf d1)))"
  have d2: "lora_inv d2" unfolding d2_def by (rule lora_inv_tick [OF d1])
  have two: "1 < samples_per_symbol d2"
  proof -
    have "7 \<le> sf d2" "1 \<le> os_factor d2" "samples_per_symbol d2 = nat (2 ^ nat (sf d2) * os_factor d2)"
      using d2 by (auto simp: lora_unfold)
    moreover have "(2 :: int) ^ 1 \<le> 2 ^ nat (sf d2)" using calculation(1) by (intro power_increasing) auto
    moreover have "2 * 1 \<le> 2 ^ nat (sf d2) * os_factor d2" using calculation by (intro mult_mono) auto
    ultimately show ?thesis by linarith
  qed
  have skip: "0 \<le> sto_skip_remaining d2" using d2 by (simp add: lora_unfold)
  have eq: "fst (feed_sample demod d x) =
      (if sto_skip_remaining d > 0
       then d\<lparr> sto_skip_remaining := sto_skip_remaining d - 1, samples_in_chunk := samples_in_chunk d + 1 \<rparr>
       else if length (symbuf d1) = samples_per_symbol d1
       then (if sfo_next_sym_shift d2 > 0 then d2\<lparr> symbuf := [last (symbuf d1)] \<rparr>
             else if sfo_next_sym_shift d2 < 0
               then d2\<lparr> sto_skip_remaining := sto_skip_remaining d2 + 1, symbuf := [] \<rparr>
             else d2\<lparr> symbuf := [] \<rparr>)\<lparr> sfo_next_sym_shift := 0 \<rparr>
       else d1)"
    by (simp add: feed_sample_def Let_def d1_def d2_def split_beta)
  consider "sto_skip_remaining d > 0" | "sto_skip_remaining d \<le> 0" "length (symbuf d1) = samples_per_symbol d1"
    | "sto_skip_remaining d \<le> 0" "length (symbuf d1) \<noteq> samples_per_symbol d1" by linarith
  then show ?thesis
  proof cases
    case 1
    then show ?thesis using assms by (simp add: eq lora_inv_skip)
  next
    case 2
    then show ?thesis using two skip d2 by (simp add: eq lora_inv_skip lora_inv_symbuf)
  next
    case 3
    moreover have "length (symbuf d1) < samples_per_symbol d1" using 3(2) assms(2) by (simp add: d1_def)
    ultimately show ?thesis using d1 by (simp add: eq)
  qed
qed

lemma feed_inv:
  assumes "lora_inv d" "length (symbuf d) < samples_per_symbol d"
  shows "lora_inv (fst (lora_decoder_feed demod d xs))
    \<and> length (symbuf (fst (lora_decoder_feed demod d xs))) < samples_per_symbol (fst (lora_decoder_feed demod d xs))"
  using assms
proof (induction xs arbitrary: d)
  case (Cons x xs)
  have "fst (lora_decoder_feed demod d (x # xs)) = fst (lora_decoder_feed demod (fst (feed_sample demod d x)) xs)"
    by (simp add: split_beta Let_def)
  then show ?case
    using Cons.IH [of "fst (feed_sample demod d x)"] feed_sample_inv [OF Cons.prems] by metis
qed simp

subsection \<open>Delivered frames\<close>

text \<open>
  What every delivered frame satisfies: its header checksum was good, the announced
  length is 1..255 and the payload handed over has exactly that length, the one
  exception being the short frame that needs no payload symbol, delivered empty.
\<close>

definition frame_ok :: "lora_event \<Rightarrow> bool" where
  "frame_ok e = (case e of
      FrameCb bs m \<Rightarrow> m_header_crc_ok m \<and> 1 \<le> m_payload_len m \<and> m_payload_len m \<le> 255
        \<and> (bs = [] \<or> int (length bs) = m_payload_len m)
    | PreambleCb _ _ _ \<Rightarrow> True)"

lemma payload_crc_tiers_length:
  "payload_crc_tiers bf bf2 bs = (ok, corr, n, out) \<Longrightarrow> length out = length bs"
  by (auto simp: payload_crc_tiers_def Let_def bruteforce_correct_length bruteforce_2bit_length split: if_splits)

lemma payload_complete_frame:
  assumes "lora_base d" "payload_ok (d\<lparr> payload_syms := [] \<rparr>)" "length (payload_syms d) = payload_sym_target d"
    and e: "e \<in> set (snd (payload_complete d))"
  shows "frame_ok e"
proof -
  define bytes where "bytes = payload_trim (payload_bytes (hdr_leftover d) (payload_syms d)
    (nat (if payload_ldro d then sf d - 2 else sf d)) (nat (payload_cr d))) (nat (payload_len d)) (payload_has_crc d)"
  have s: "7 \<le> sf d" "sf d \<le> 12" using assms(1) by (auto simp: lora_base_def config_ok_def)
  have len: "1 \<le> payload_len d" "payload_len d \<le> 255" "m_payload_len (meta d) = payload_len d" "m_header_crc_ok (meta d)"
    and c: "5 \<le> payload_cr d" "payload_cr d \<le> 8" and l: "length (hdr_leftover d) = nat (sf d - 7)"
    and syms: "length (payload_syms d) = payload_symbol_count (sf d) (payload_ldro d) (payload_len d) (payload_has_crc d) (payload_cr d)"
    using assms(2,3) by (auto simp: payload_ok_def)
  have "nat (payload_len d) \<le> length bytes"
    using payload_bytes_enough [OF s len(1,2) c l syms] len by (simp add: bytes_def payload_trim_def Let_def)
  moreover have "length out = length bytes" if "payload_crc_tiers b1 b2 bytes = (ok, corr, n, out)" for b1 b2 ok corr n out
    using that by (rule payload_crc_tiers_length)
  ultimately show ?thesis
    using e len unfolding payload_complete_def Let_def bytes_def [symmetric]
    by (auto simp: frame_ok_def split: prod.splits if_splits)
qed

lemma header_complete_frame:
  assumes "lora_base d" "e \<in> set (snd (header_complete d))"
  shows "frame_ok e"
proof -
  have "7 \<le> sf d" using assms(1) by (simp add: lora_base_def config_ok_def)
  then have "header_payload_len (header_nibbles (header_syms d) (header_sf_app (sf d))) \<le> 255"
    using header_payload_len_le [of "header_sf_app (sf d)"] by (simp add: header_sf_app_eq)
  then show ?thesis
    using assms(2) unfolding header_complete_def Let_def by (auto simp: frame_ok_def split: if_splits)
qed

lemma tick_payload_frame:
  assumes "lora_inv d" "dstate d = STATE_PAYLOAD" "e \<in> set (snd (tick_payload d t))"
  shows "frame_ok e"
proof -
  have "length (payload_syms (with_payload_sym d t)) = payload_sym_target (with_payload_sym d t)"
    if "Suc (length (payload_syms d)) = payload_sym_target d"
    using that by (simp add: with_payload_sym_def)
  then show ?thesis
    using assms(3) payload_complete_frame [OF with_payload_sym_base(1,2) [OF assms(1,2)], of t e]
    by (simp add: tick_payload_step [OF assms(1,2)] split: if_splits)
qed

lemma tick_header_frame:
  assumes "lora_inv d" "dstate d = STATE_HEADER" "e \<in> set (snd (tick_header d t))"
  shows "frame_ok e"
proof (cases "header_idx d < 2")
  case True
  then show ?thesis using assms(3) by (simp add: tick_header_def Let_def)
next
  case False
  then show ?thesis
    using assms(3) tick_header_step [OF assms(1,2)] header_complete_frame [OF with_header_sym_base(1) [OF assms(1,2)], of e t]
    by (simp split: if_splits)
qed

lemma state_tick_frame:
  assumes "lora_inv d" "e \<in> set (snd (state_tick d t))"
  shows "frame_ok e"
proof (cases "dstate d")
  case STATE_PREAMBLE_OK
  then show ?thesis
    using assms(2) by (auto simp: state_tick_def tick_preamble_def preamble_extend_def Let_def frame_ok_def split: if_splits)
qed (use assms tick_header_frame [of d e t] tick_payload_frame [of d e t] in
      \<open>auto simp: state_tick_def split: prod.splits\<close>)

lemma feed_frames:
  assumes "lora_inv d" "length (symbuf d) < samples_per_symbol d"
  shows "list_all frame_ok (snd (lora_decoder_feed demod d xs))"
  using assms
proof (induction xs arbitrary: d)
  case (Cons x xs)
  let ?d1 = "d\<lparr> symbuf := symbuf d @ [x], samples_in_chunk := samples_in_chunk d + 1 \<rparr>"
  have "lora_inv ?d1" using Cons.prems by (simp add: lora_inv_symbuf)
  then have "\<forall>t. \<forall>e\<in>set (snd (state_tick ?d1 t)). frame_ok e" using state_tick_frame by blast
  then have "list_all frame_ok (snd (feed_sample demod d x))"
    by (auto simp: feed_sample_def Let_def list_all_iff split_beta)
  then show ?case
    using Cons.IH [of "fst (feed_sample demod d x)"] feed_sample_inv [OF Cons.prems, of demod x]
    by (simp add: split_beta Let_def)
qed simp

subsection \<open>Progress\<close>

text \<open>An upper bound on the symbols a decoder still takes before it is idle again.\<close>

definition remaining :: "'a lora_decoder \<Rightarrow> nat" where
  "remaining d = (case dstate d of
      STATE_HEADER \<Rightarrow> 10 - header_idx d + MAX_PAYLOAD_SYMBOLS
    | STATE_PAYLOAD \<Rightarrow> payload_sym_target d - length (payload_syms d)
    | _ \<Rightarrow> 0)"

lemma dstate_reset [simp]: "dstate (reset_to_idle d) = STATE_IDLE"
  by (simp add: reset_to_idle_def)

lemma drift_frame [simp]: "dstate (apply_drift d t) = dstate d" "header_idx (apply_drift d t) = header_idx d"
  "payload_sym_target (apply_drift d t) = payload_sym_target d" "payload_syms (apply_drift d t) = payload_syms d"
  "remaining (apply_drift d t) = remaining d"
  by (simp_all add: apply_drift_def remaining_def)

lemma header_complete_progress:
  "dstate (fst (header_complete d)) = STATE_IDLE
   \<or> (dstate (fst (header_complete d)) = STATE_PAYLOAD \<and> remaining (fst (header_complete d)) \<le> MAX_PAYLOAD_SYMBOLS)"
  by (simp add: header_complete_def Let_def remaining_def payload_symbol_count_le)

lemma tick_progress:
  assumes "lora_inv d" "dstate d = STATE_HEADER \<or> dstate d = STATE_PAYLOAD"
  shows "dstate (fst (state_tick d t)) = STATE_IDLE
     \<or> ((dstate (fst (state_tick d t)) = STATE_HEADER \<or> dstate (fst (state_tick d t)) = STATE_PAYLOAD)
        \<and> remaining (fst (state_tick d t)) < remaining d)"
proof -
  consider "dstate d = STATE_HEADER" "header_idx d < 2" | "dstate d = STATE_HEADER" "2 \<le> header_idx d"
    | "dstate d = STATE_PAYLOAD" using assms(2) by linarith
  then show ?thesis
  proof cases
    case 1
    then show ?thesis by (auto simp: state_tick_def tick_header_def Let_def remaining_def)
  next
    case 2
    then have "header_idx d \<le> 9" using assms(1) by (simp add: lora_inv_def)
    moreover have "dstate (with_header_sym d t) = STATE_HEADER" "header_idx (with_header_sym d t) = header_idx d + 1"
      using 2 by (simp_all add: with_header_sym_def)
    ultimately show ?thesis
      using 2 tick_header_step [OF assms(1) 2, of t] header_complete_progress [of "with_header_sym d t"]
      by (auto simp: state_tick_def remaining_def split_beta)
  next
    case 3
    have "dstate (fst (payload_complete (with_payload_sym d t))) = STATE_IDLE"
      using payload_complete_reset [of "with_payload_sym d t"] by auto
    moreover have "dstate (with_payload_sym d t) = STATE_PAYLOAD"
      "remaining (with_payload_sym d t) < remaining d" 
      using 3 payload_room [OF assms(1) 3] by (simp_all add: with_payload_sym_def remaining_def)
    ultimately show ?thesis
      using 3 tick_payload_step [OF assms(1) 3, of t] by (simp add: state_tick_def split_beta)
  qed
qed

lemma run_ticks_Cons_state: "fst (run_ticks d (t # ts)) = fst (run_ticks (fst (state_tick d t)) ts)"
  by (simp add: split_beta Let_def)

lemma returns_to_idle_within:
  assumes "lora_inv d" "dstate d = STATE_HEADER \<or> dstate d = STATE_PAYLOAD" "remaining d \<le> length ts"
  shows "\<exists>k \<le> remaining d. dstate (fst (run_ticks d (take k ts))) = STATE_IDLE"
  using assms
proof (induction ts arbitrary: d)
  case Nil
  then show ?case
    using payload_room(1) [of d] by (auto simp: remaining_def lora_inv_def MAX_PAYLOAD_SYMBOLS_def)
next
  case (Cons t ts)
  let ?d = "fst (state_tick d t)"
  have pos: "0 < remaining d" using tick_progress [OF Cons.prems(1,2), of t] Cons.prems payload_room(1) [of d]
    by (auto simp: remaining_def MAX_PAYLOAD_SYMBOLS_def)
  show ?case
  proof (cases "dstate ?d = STATE_IDLE")
    case True
    then have "dstate (fst (run_ticks d (take 1 (t # ts)))) = STATE_IDLE" by (simp add: split_beta Let_def)
    then show ?thesis using pos by (intro exI [of _ 1]) simp
  next
    case False
    then have lt: "dstate ?d = STATE_HEADER \<or> dstate ?d = STATE_PAYLOAD" "remaining ?d < remaining d"
      using tick_progress [OF Cons.prems(1,2), of t] by auto
    then obtain k where "k \<le> remaining ?d" "dstate (fst (run_ticks ?d (take k ts))) = STATE_IDLE"
      using Cons.IH [of ?d] Cons.prems lora_inv_tick by force
    then show ?thesis
      using lt by (intro exI [of _ "Suc k"]) (simp add: run_ticks_Cons_state del: run_ticks.simps)
  qed
qed

lemma remaining_le:
  assumes "lora_inv d" shows "remaining d \<le> 1034"
proof (cases "dstate d = STATE_PAYLOAD")
  case True
  then show ?thesis using payload_room(2) [OF assms True] by (simp add: remaining_def MAX_PAYLOAD_SYMBOLS_def)
qed (simp add: remaining_def MAX_PAYLOAD_SYMBOLS_def split: lora_state.splits)

subsection \<open>Claims\<close>

text \<open>
  C2: every decoder that lora_decoder_create_os hands out keeps its invariant under any
  sequence of input samples, whatever the demodulator reports for them: the fixed
  arrays never overflow, the skip counter is never negative, the symbol buffer is
  never left full, and while a payload is read the header fields and the symbol
  budget agree.
\<close>

theorem decoder_invariant:
  assumes "lora_decoder_create_os s c bw os = Some d"
  shows "lora_inv (fst (lora_decoder_feed demod d xs))
    \<and> length (symbuf (fst (lora_decoder_feed demod d xs))) < samples_per_symbol (fst (lora_decoder_feed demod d xs))"
proof (rule feed_inv)
  show "lora_inv d" using assms by (rule lora_inv_create)
  then show "length (symbuf d) < samples_per_symbol d"
    using assms by (auto simp: lora_decoder_create_os_def zero_less_mult_iff split: if_splits)
qed

theorem decoder_invariant_witness:
  "\<exists>d :: nat lora_decoder. lora_decoder_create_os 11 5 250000 2 = Some d
     \<and> lora_inv (fst (lora_decoder_feed (\<lambda>_ _. \<lparr> t_sym = 7, t_above_floor = True, t_peak_drop = False,
         t_trim_input = 0, t_sfo_shift = 0, t_now_ns = 0 \<rparr>) d [1, 2, 3]))"
proof -
  obtain d :: "nat lora_decoder" where d: "lora_decoder_create_os 11 5 250000 2 = Some d"
    by (simp add: lora_decoder_create_os_def)
  then show ?thesis using decoder_invariant [OF d] by blast
qed



text \<open>
  C4: the receiver never hangs inside a frame.  Once the preamble has been left, at most
  1034 further symbols (two downchirps, eight header and 1024 payload symbols) bring
  the decoder back to the idle state, whatever those symbols are.
\<close>

theorem decoder_returns_to_idle:
  assumes "lora_inv d" "dstate d = STATE_HEADER \<or> dstate d = STATE_PAYLOAD" "1034 \<le> length ts"
  shows "\<exists>k \<le> 1034. dstate (fst (run_ticks d (take k ts))) = STATE_IDLE"
  using returns_to_idle_within [OF assms(1,2), of ts] remaining_le [OF assms(1)] assms(3) by (meson le_trans)

theorem decoder_returns_to_idle_witness:
  "\<exists>d :: nat lora_decoder. dstate d = STATE_HEADER
     \<and> (\<exists>k \<le> 1034. dstate (fst (run_ticks d (take k (replicate 2000
          \<lparr> t_sym = 9, t_above_floor = True, t_peak_drop = False, t_trim_input = 0, t_sfo_shift = 0, t_now_ns = 0 \<rparr>))))
          = STATE_IDLE)"
proof -
  define d where "d = (the (lora_decoder_create_os 7 5 125000 1) :: nat lora_decoder)\<lparr> dstate := STATE_HEADER \<rparr>"
  have "lora_inv d" "dstate d = STATE_HEADER"
    by (simp_all add: d_def lora_decoder_create_os_def lora_unfold meta0_def MAX_PAYLOAD_SYMBOLS_def)
  moreover have "1034 \<le> length (replicate 2000 t)" for t :: lora_tick by simp
  ultimately show ?thesis using decoder_returns_to_idle [of d] by blast
qed

end
