(* ===== verification/Protobuf.thy ===== *)
theory Protobuf
  imports Prelude
begin

text \<open>
  The wire-format reader of \<^verbatim>\<open>src/protobuf.c\<close> and the tag loop that every decoder of
  \<^verbatim>\<open>src/mesh_packet.c\<close> and \<^verbatim>\<open>src/mesh_decoders.c\<close> runs over it.  A cursor \<^verbatim>\<open>*cur\<close> with
  its \<^verbatim>\<open>end\<close> is the list of the bytes still to be read; a reader returns its value
  (None for \<^verbatim>\<open>false\<close>) and the cursor it leaves, which moves on failure too.
\<close>

subsection \<open>Readers\<close>

type_synonym 'v reader = "bytes \<Rightarrow> 'v option \<times> bytes"

fun varint_loop :: "u64 \<Rightarrow> nat \<Rightarrow> u64 reader" where
  "varint_loop v shift [] = (None, [])"
| "varint_loop v shift (b # cur) =
     (let v = v OR push_bit shift (ucast (b AND 0x7f))
      in if b AND 0x80 = 0 then (Some v, cur)
         else if shift + 7 > 63 then (None, cur)
         else varint_loop v (shift + 7) cur)"

definition pb_read_varint :: "u64 reader" where
  "pb_read_varint = varint_loop 0 0"

definition pb_read_tag :: "(u32 \<times> u32) reader" where
  "pb_read_tag cur =
     (case pb_read_varint cur of
        (None, p) \<Rightarrow> (None, p)
      | (Some tag, p) \<Rightarrow> (Some (ucast (drop_bit 3 tag), ucast (tag AND 7)), p))"

text \<open>\<^verbatim>\<open>memcpy\<close> into an integer on a little-endian host.\<close>

definition le_word :: "bytes \<Rightarrow> 'a::len word" where
  "le_word bs = foldr (\<lambda>b acc. ucast b OR push_bit 8 acc) bs 0"

definition pb_read_fixed32 :: "u32 reader" where
  "pb_read_fixed32 cur =
     (if length cur < 4 then (None, cur) else (Some (le_word (take 4 cur)), drop 4 cur))"

definition pb_read_fixed64 :: "u64 reader" where
  "pb_read_fixed64 cur =
     (if length cur < 8 then (None, cur) else (Some (le_word (take 8 cur)), drop 8 cur))"

definition pb_read_length :: "bytes reader" where
  "pb_read_length cur =
     (case pb_read_varint cur of
        (None, p) \<Rightarrow> (None, p)
      | (Some l, p) \<Rightarrow> if length p < unat l then (None, p)
                       else (Some (take (unat l) p), drop (unat l) p))"

definition PB_WIRE_VARINT :: u32 where "PB_WIRE_VARINT = 0"
definition PB_WIRE_FIXED64 :: u32 where "PB_WIRE_FIXED64 = 1"
definition PB_WIRE_LENGTH :: u32 where "PB_WIRE_LENGTH = 2"
definition PB_WIRE_FIXED32 :: u32 where "PB_WIRE_FIXED32 = 5"

text \<open>The value of a skipped field is dropped, only its presence and the cursor remain.\<close>

definition skipped :: "'v option \<times> bytes \<Rightarrow> unit option \<times> bytes" where
  "skipped r = (map_option (\<lambda>_. ()) (fst r), snd r)"

definition pb_skip_value :: "u32 \<Rightarrow> unit reader" where
  "pb_skip_value wire_type cur =
     (if wire_type = PB_WIRE_VARINT then skipped (pb_read_varint cur)
      else if wire_type = PB_WIRE_FIXED64 then skipped (pb_read_fixed64 cur)
      else if wire_type = PB_WIRE_LENGTH then skipped (pb_read_length cur)
      else if wire_type = PB_WIRE_FIXED32 then skipped (pb_read_fixed32 cur)
      else (None, cur))"

text \<open>\<^verbatim>\<open>(int32_t)((v >> 1) ^ -(int32_t)(v & 1))\<close> at both widths.\<close>

definition pb_zigzag32 :: "u32 \<Rightarrow> int" where
  "pb_zigzag32 v = sint (drop_bit 1 v XOR - (v AND 1))"

definition pb_zigzag64 :: "u64 \<Rightarrow> int" where
  "pb_zigzag64 v = sint (drop_bit 1 v XOR - (v AND 1))"

subsection \<open>The tag loop\<close>

text \<open>
  \<^verbatim>\<open>while (p < end) { if (!pb_read_tag(...)) return ...; switch (fld) { ... } }\<close>: a step
  takes the state, the field number, the wire type and the cursor behind the tag, and
  returns the new state with the next cursor, or None where the source returns.  The
  outcome tells a bad tag from a bad field, since some callers do.  The comparison of
  the cursors only makes the recursion well founded: the readers never move back.
\<close>

type_synonym 's field_step = "'s \<Rightarrow> u32 \<Rightarrow> u32 \<Rightarrow> bytes \<Rightarrow> 's \<times> bytes option"

datatype pb_end = PB_DONE | PB_BAD_TAG | PB_BAD_FIELD

function pb_loop :: "'s field_step \<Rightarrow> 's \<Rightarrow> bytes \<Rightarrow> pb_end \<times> 's" where
  "pb_loop step s p =
     (if p = [] then (PB_DONE, s)
      else case pb_read_tag p of
        (None, _) \<Rightarrow> (PB_BAD_TAG, s)
      | (Some (fld, wt), q) \<Rightarrow>
         (case step s fld wt q of
            (s', None) \<Rightarrow> (PB_BAD_FIELD, s')
          | (s', Some r) \<Rightarrow> if length r < length p then pb_loop step s' r else (PB_BAD_FIELD, s')))"
  by pat_completeness auto
termination
  by (relation "measure (\<lambda>(_, _, p). length p)") auto

declare pb_loop.simps [simp del]

text \<open>
  The shapes of a \<^verbatim>\<open>case\<close> of the switch: read or return; read when the wire type fits and
  skip otherwise; skip.
\<close>

definition on_read :: "'v reader \<Rightarrow> ('v \<Rightarrow> 's) \<Rightarrow> 's \<Rightarrow> bytes \<Rightarrow> 's \<times> bytes option" where
  "on_read rd f s p = (case rd p of (Some v, q) \<Rightarrow> (f v, Some q) | (None, q) \<Rightarrow> (s, None))"

definition on_skip :: "'s \<Rightarrow> u32 \<Rightarrow> bytes \<Rightarrow> 's \<times> bytes option" where
  "on_skip s wt p = on_read (pb_skip_value wt) (\<lambda>_. s) s p"

definition on_read_wt ::
  "u32 \<Rightarrow> 'v reader \<Rightarrow> ('v \<Rightarrow> 's) \<Rightarrow> 's \<Rightarrow> u32 \<Rightarrow> bytes \<Rightarrow> 's \<times> bytes option" where
  "on_read_wt w rd f s wt p =
     (if wt \<noteq> w then on_skip s wt p
      else case rd p of (Some v, q) \<Rightarrow> (f v, Some q) | (None, q) \<Rightarrow> on_skip s wt q)"

subsection \<open>Reference writer\<close>

text \<open>The encoder of the wire format, against which the readers are checked.\<close>

function pb_varint :: "u64 \<Rightarrow> bytes" where
  "pb_varint v =
     (if v < 0x80 then [ucast v] else (ucast v OR 0x80) # pb_varint (drop_bit 7 v))"
  by pat_completeness auto
termination
proof (relation "measure unat")
  fix v :: u64 assume "\<not> v < 0x80"
  then have "0x80 \<le> unat v" by (simp add: word_less_nat_alt)
  then show "(drop_bit 7 v, v) \<in> measure unat" by (simp add: unat_drop_bit_eq drop_bit_eq_div unat_div)
qed simp

declare pb_varint.simps [simp del]

definition le_bytes :: "nat \<Rightarrow> 'a::len word \<Rightarrow> bytes" where
  "le_bytes n w = map (\<lambda>i. ucast (drop_bit (8 * i) w)) [0..<n]"

datatype wire_value = Varint u64 | Fixed64 u64 | Len bytes | Fixed32 u32

fun wire_type_of :: "wire_value \<Rightarrow> u32" where
  "wire_type_of (Varint _) = PB_WIRE_VARINT"
| "wire_type_of (Fixed64 _) = PB_WIRE_FIXED64"
| "wire_type_of (Len _) = PB_WIRE_LENGTH"
| "wire_type_of (Fixed32 _) = PB_WIRE_FIXED32"

fun wire_bytes :: "wire_value \<Rightarrow> bytes" where
  "wire_bytes (Varint v) = pb_varint v"
| "wire_bytes (Fixed64 v) = le_bytes 8 v"
| "wire_bytes (Len bs) = pb_varint (of_nat (length bs)) @ bs"
| "wire_bytes (Fixed32 v) = le_bytes 4 v"

fun wire_ok :: "wire_value \<Rightarrow> bool" where
  "wire_ok (Len bs) = (length bs < 2 ^ 64)"
| "wire_ok _ = True"

definition pb_tag :: "u32 \<Rightarrow> u32 \<Rightarrow> bytes" where
  "pb_tag fld wt = pb_varint (push_bit 3 (ucast fld) OR ucast wt)"

definition pb_field :: "u32 \<times> wire_value \<Rightarrow> bytes" where
  "pb_field f = pb_tag (fst f) (wire_type_of (snd f)) @ wire_bytes (snd f)"

definition pb_message :: "(u32 \<times> wire_value) list \<Rightarrow> bytes" where
  "pb_message fs = concat (map pb_field fs)"

subsection \<open>The reader contract\<close>

text \<open>
  What a decoder may rely on: the cursor a reader leaves is a suffix of the one it
  got, and a successful read consumes at least one byte.
\<close>

locale wire_reader =
  fixes rd :: "'v reader"
  assumes suffix: "\<exists>pre. cur = pre @ snd (rd cur)"
    and progress: "rd cur = (Some v, r) \<Longrightarrow> length r < length cur"
begin

lemma length_le: "length (snd (rd cur)) \<le> length cur"
  using suffix [of cur] by (metis length_append le_add2)

lemma rest_le: "rd cur = (x, r) \<Longrightarrow> length r \<le> length cur"
  using length_le [of cur] by simp

lemma on_read_le: "on_read rd f s p = (s', Some r) \<Longrightarrow> length r \<le> length p"
  by (auto simp: on_read_def dest: progress split: prod.splits option.splits)

end

lemma drop_suffix: "\<exists>pre. cur = pre @ drop n cur"
  by (metis append_take_drop_id)

lemma varint_loop_suffix: "\<exists>pre. cur = pre @ snd (varint_loop v shift cur)"
proof (induction v shift cur rule: varint_loop.induct)
  case (2 v shift b cur)
  let ?v = "v OR push_bit shift (ucast (b AND 0x7f))"
  obtain pre where "cur = pre @ snd (varint_loop ?v (shift + 7) cur)"
    if "b AND 0x80 \<noteq> 0" "\<not> shift + 7 > 63" using 2 by blast
  then show ?case
    by (cases "b AND 0x80 = 0"; cases "shift + 7 > 63")
      (auto simp: Let_def intro: exI [of _ "[b]"] exI [of _ "b # pre"])
qed simp

lemma varint_loop_progress: "varint_loop v shift cur = (Some w, r) \<Longrightarrow> length r < length cur"
  by (induction v shift cur rule: varint_loop.induct) (auto simp: Let_def split: if_splits)

interpretation varint: wire_reader pb_read_varint
  by unfold_locales (auto simp: pb_read_varint_def varint_loop_suffix dest: varint_loop_progress)

interpretation tag: wire_reader pb_read_tag
proof
  fix cur show "\<exists>pre. cur = pre @ snd (pb_read_tag cur)"
    using varint.suffix [of cur] by (auto simp: pb_read_tag_def split: prod.splits option.splits)
next
  fix cur v r show "pb_read_tag cur = (Some v, r) \<Longrightarrow> length r < length cur"
    by (auto simp: pb_read_tag_def dest: varint.progress split: prod.splits option.splits)
qed

interpretation fixed32: wire_reader pb_read_fixed32
  by unfold_locales (auto simp: pb_read_fixed32_def drop_suffix split: if_splits)

interpretation fixed64: wire_reader pb_read_fixed64
  by unfold_locales (auto simp: pb_read_fixed64_def drop_suffix split: if_splits)

interpretation len: wire_reader pb_read_length
proof
  fix cur :: bytes
  obtain x p where p: "pb_read_varint cur = (x, p)" by fastforce
  obtain pre where cur: "cur = pre @ p" using varint.suffix [of cur] p by auto
  have "\<exists>pre. cur = pre @ drop n p" for n
    using drop_suffix [of p n] by (metis cur append.assoc)
  moreover have "\<exists>pre. cur = pre @ p" using cur by blast
  ultimately show "\<exists>pre. cur = pre @ snd (pb_read_length cur)"
    by (simp add: pb_read_length_def p split: option.split)
next
  fix cur v r assume "pb_read_length cur = (Some v, r)"
  then obtain l p where "pb_read_varint cur = (Some l, p)" "r = drop (unat l) p"
    by (auto simp: pb_read_length_def split: prod.splits option.splits if_splits)
  then show "length r < length cur" using varint.progress [of cur l p] by simp
qed

interpretation skip: wire_reader "pb_skip_value wt"
proof
  fix cur show "\<exists>pre. cur = pre @ snd (pb_skip_value wt cur)"
    using varint.suffix [of cur] fixed32.suffix [of cur] fixed64.suffix [of cur] len.suffix [of cur]
    by (simp add: pb_skip_value_def skipped_def)
next
  fix cur v r assume "pb_skip_value wt cur = (Some v, r)"
  then show "length r < length cur"
    by (auto simp: pb_skip_value_def skipped_def prod_eq_iff split: if_splits
        intro: varint.progress fixed32.progress fixed64.progress len.progress)
qed

lemma on_skip_le [bound_rules]: "on_skip s wt p = (s', Some r) \<Longrightarrow> length r \<le> length p"
  unfolding on_skip_def by (rule skip.on_read_le)

lemma on_read_wt_le:
  assumes "wire_reader rd" "on_read_wt w rd f s wt p = (s', Some r)"
  shows "length r \<le> length p"
proof -
  have "length q \<le> length p" if "rd p = (x, q)" for x q using that by (rule wire_reader.rest_le [OF assms(1)])
  then show ?thesis
    using assms(2) by (force simp: on_read_wt_def dest: on_skip_le split: if_splits prod.splits option.splits)
qed

subsection \<open>Reading back what was written\<close>

lemma bit_0x80: "bit (0x80 :: 'a::len word) n \<longleftrightarrow> n = 7 \<and> 7 < LENGTH('a)"
proof -
  have "(0x80 :: 'a word) = 2 ^ 7" by simp
  then show ?thesis by (simp only: bit_exp_iff) auto
qed

lemma bit_0x7f: "bit (0x7f :: 'a::len word) n \<longleftrightarrow> n < 7 \<and> n < LENGTH('a)"
proof -
  have "(0x7f :: 'a word) = mask 7" by (simp add: mask_eq_exp_minus_1)
  then show ?thesis by (simp only: bit_mask_iff) auto
qed

lemmas bit_varint = bit_and_iff bit_or_iff bit_ucast_iff bit_0x80 bit_0x7f bit_take_bit_iff

lemma varint_low_byte:
  "(ucast v OR 0x80 :: byte) AND 0x80 \<noteq> 0"
  "ucast ((ucast (v :: u64) OR 0x80 :: byte) AND 0x7f) = (take_bit 7 v :: u64)"
proof -
  have "bit ((ucast v OR 0x80 :: byte) AND 0x80) 7" by (simp add: bit_varint)
  then show "(ucast v OR 0x80 :: byte) AND 0x80 \<noteq> 0" by (metis bit_0_eq bot_fun_def bot_bool_def)
  show "ucast ((ucast v OR 0x80 :: byte) AND 0x7f) = (take_bit 7 v :: u64)"
    by (rule bit_word_eqI, unfold bit_varint) auto
qed

lemma varint_last_byte:
  assumes "(v :: u64) < 0x80"
  shows "(ucast v :: byte) AND 0x80 = 0" "ucast ((ucast v :: byte) AND 0x7f) = v"
proof -
  have "unat v < 2 ^ 7" using assms by (simp add: word_less_nat_alt)
  then have hi: "\<not> bit v n" if "7 \<le> n" for n
    using that not_bit_above by blast
  show "(ucast v :: byte) AND 0x80 = 0"
    by (rule bit_word_eqI, unfold bit_varint) (auto simp: hi)
  show "ucast ((ucast v :: byte) AND 0x7f) = v"
    by (rule bit_word_eqI, unfold bit_varint) (use hi in \<open>auto simp: not_le [symmetric]\<close>)
qed

lemma varint_split:
  "(v0 OR push_bit shift (take_bit 7 v)) OR push_bit (shift + 7) (drop_bit 7 v) = v0 OR push_bit shift (v :: u64)"
proof (rule bit_word_eqI)
  fix n assume "n < LENGTH(64)"
  show "bit ((v0 OR push_bit shift (take_bit 7 v)) OR push_bit (shift + 7) (drop_bit 7 v)) n
    = bit (v0 OR push_bit shift v) n"
    by (cases "n < shift + 7") (auto simp: bit_or_iff bit_push_bit_iff bit_take_bit_iff bit_drop_bit_eq)
qed

lemma unat_drop_bit_7: "unat v < 2 ^ (7 + k) \<Longrightarrow> unat (drop_bit 7 (v :: u64)) < 2 ^ k"
  using less_mult_imp_div_less [of "unat v" "2 ^ k" "2 ^ 7"]
  by (simp add: unat_drop_bit_eq drop_bit_eq_div unat_div power_add mult.commute)

lemma varint_loop_pb_varint:
  assumes "shift \<le> 63" "unat v < 2 ^ (64 - shift)"
  shows "varint_loop v0 shift (pb_varint v @ rest) = (Some (v0 OR push_bit shift v), rest)"
  using assms
proof (induction v arbitrary: v0 shift rule: pb_varint.induct)
  case (1 v)
  show ?case
  proof (cases "v < 0x80")
    case True
    then show ?thesis by (simp add: pb_varint.simps [of v] varint_last_byte)
  next
    case False
    then have ge: "2 ^ 7 \<le> unat v" by (simp add: word_less_nat_alt)
    then have "(2 :: nat) ^ 7 < 2 ^ (64 - shift)" using 1(3) by linarith
    then have "7 < 64 - shift" by (rule power_less_imp_less_exp [rotated]) simp
    then have sh: "shift + 7 \<le> 63" by linarith
    have "64 - shift = 7 + (64 - (shift + 7))" using sh by linarith
    then have "unat (drop_bit 7 v) < 2 ^ (64 - (shift + 7))"
      using 1(3) by (metis unat_drop_bit_7)
    note IH = 1(1) [OF False sh this]
    have "pb_varint v = (ucast v OR 0x80) # pb_varint (drop_bit 7 v)"
      using False by (subst pb_varint.simps) simp
    then have "varint_loop v0 shift (pb_varint v @ rest)
        = varint_loop (v0 OR push_bit shift (take_bit 7 v)) (shift + 7) (pb_varint (drop_bit 7 v) @ rest)"
      using sh by (simp only: append_Cons varint_loop.simps Let_def varint_low_byte) simp
    then show ?thesis unfolding IH varint_split .
  qed
qed

lemma read_varint [reader_simps]: "pb_read_varint (pb_varint v @ rest) = (Some v, rest)"
proof -
  have "unat v < 2 ^ (64 - 0)" using unsigned_less [of v, where ?'a = nat] by simp
  from varint_loop_pb_varint [OF _ this] show ?thesis by (simp add: pb_read_varint_def)
qed

lemma read_tag [reader_simps]:
  assumes "wt < 8"
  shows "pb_read_tag (pb_tag fld wt @ rest) = (Some (fld, wt), rest)"
proof -
  let ?t = "push_bit 3 (ucast fld) OR ucast wt :: u64"
  have "unat wt < 2 ^ 3" using assms by (simp add: word_less_nat_alt)
  then have wt: "\<not> bit wt n" if "3 \<le> n" for n using that not_bit_above by blast
  have seven: "bit (7 :: u64) n \<longleftrightarrow> n < 3" for n
  proof -
    have "(7 :: u64) = mask 3" by (simp add: mask_eq_exp_minus_1)
    then show ?thesis by (simp only: bit_mask_iff) auto
  qed
  have "(ucast (drop_bit 3 ?t) :: u32) = fld"
    by (rule bit_word_eqI, unfold bit_ucast_iff bit_drop_bit_eq bit_or_iff bit_push_bit_iff comp_def)
      (auto simp: wt)
  moreover have "(ucast (?t AND 7) :: u32) = wt"
    by (rule bit_word_eqI, unfold bit_ucast_iff bit_and_iff bit_or_iff bit_push_bit_iff seven)
      (use wt in \<open>auto simp: not_le [symmetric]\<close>)
  ultimately show ?thesis by (simp add: pb_read_tag_def pb_tag_def read_varint)
qed

lemma le_word_Cons: "le_word (b # bs) = ucast b OR push_bit 8 (le_word bs)"
  by (simp add: le_word_def)

lemma bit_le_word:
  "bit (le_word bs :: 'a::len word) n \<longleftrightarrow> n < LENGTH('a) \<and> n div 8 < length bs \<and> bit (bs ! (n div 8)) (n mod 8)"
proof (induction bs arbitrary: n)
  case Nil
  then show ?case by (simp add: le_word_def)
next
  case (Cons b bs)
  show ?case
  proof (cases "n < 8")
    case True
    then show ?thesis by (auto simp: le_word_Cons bit_or_iff bit_push_bit_iff bit_ucast_iff)
  next
    case False
    then have "n div 8 = Suc ((n - 8) div 8)" "n mod 8 = (n - 8) mod 8"
      by (simp_all add: le_div_geq le_mod_geq)
    moreover have "\<not> bit b n" using False bit_imp_le_length [of b n] by auto
    then have "bit (le_word (b # bs) :: 'a word) n \<longleftrightarrow> n < LENGTH('a) \<and> bit (le_word bs :: 'a word) (n - 8)"
      using False by (simp add: le_word_Cons bit_or_iff bit_push_bit_iff bit_ucast_iff)
    ultimately show ?thesis unfolding Cons [of "n - 8"] by (simp; linarith)
  qed
qed

lemma length_le_bytes [simp]: "length (le_bytes n w) = n"
  by (simp add: le_bytes_def)

lemma le_word_le_bytes:
  assumes "LENGTH('a) = 8 * n"
  shows "le_word (le_bytes n w) = (w :: 'a::len word)"
proof (rule bit_word_eqI)
  fix k assume k: "k < LENGTH('a)"
  then have "k div 8 < n" using assms by auto
  then show "bit (le_word (le_bytes n w) :: 'a word) k = bit w k"
    using k by (simp add: bit_le_word le_bytes_def bit_ucast_iff bit_drop_bit_eq)
qed

lemma read_fixed32 [reader_simps]: "pb_read_fixed32 (le_bytes 4 v @ rest) = (Some v, rest)"
  by (simp add: pb_read_fixed32_def le_word_le_bytes)

lemma read_fixed64 [reader_simps]: "pb_read_fixed64 (le_bytes 8 v @ rest) = (Some v, rest)"
  by (simp add: pb_read_fixed64_def le_word_le_bytes)

lemma read_length [reader_simps]:
  "length bs < 2 ^ 64 \<Longrightarrow> pb_read_length (pb_varint (of_nat (length bs)) @ bs @ rest) = (Some bs, rest)"
  by (simp add: pb_read_length_def read_varint unsigned_of_nat take_bit_nat_eq_self)

lemma skip_wire [reader_simps]:
  "wire_ok v \<Longrightarrow> pb_skip_value (wire_type_of v) (wire_bytes v @ rest) = (Some (), rest)"
  by (cases v)
    (simp_all add: pb_skip_value_def skipped_def read_varint read_fixed32 read_fixed64 read_length
      PB_WIRE_VARINT_def PB_WIRE_FIXED64_def PB_WIRE_LENGTH_def PB_WIRE_FIXED32_def)

lemma wire_type_less [simp]: "wire_type_of v < 8"
  by (cases v) (simp_all add: PB_WIRE_VARINT_def PB_WIRE_FIXED64_def PB_WIRE_LENGTH_def PB_WIRE_FIXED32_def)

lemma pb_varint_ne [simp]: "pb_varint v \<noteq> []"
  by (subst pb_varint.simps) simp

lemma on_read_wire [reader_simps]:
  "on_read pb_read_varint f s (wire_bytes (Varint v) @ rest) = (f v, Some rest)"
  "on_read pb_read_fixed64 g s (wire_bytes (Fixed64 v) @ rest) = (g v, Some rest)"
  "wire_ok (Len bs) \<Longrightarrow> on_read pb_read_length h s (wire_bytes (Len bs) @ rest) = (h bs, Some rest)"
  "on_read pb_read_fixed32 k s (wire_bytes (Fixed32 w) @ rest) = (k w, Some rest)"
  by (simp_all add: on_read_def reader_simps)

lemma on_skip_wire [reader_simps]:
  "wire_ok v \<Longrightarrow> on_skip s (wire_type_of v) (wire_bytes v @ rest) = (s, Some rest)"
  by (simp add: on_skip_def on_read_def skip_wire)

lemma on_read_wt_wire [reader_simps]:
  "on_read_wt PB_WIRE_VARINT pb_read_varint f s PB_WIRE_VARINT (wire_bytes (Varint v) @ rest) = (f v, Some rest)"
  "on_read_wt PB_WIRE_FIXED32 pb_read_fixed32 k s PB_WIRE_FIXED32 (wire_bytes (Fixed32 w) @ rest) = (k w, Some rest)"
  by (simp_all add: on_read_wt_def reader_simps)

lemma on_read_wt_other [reader_simps]:
  "\<lbrakk> wire_ok v; wire_type_of v \<noteq> w \<rbrakk>
   \<Longrightarrow> on_read_wt w rd f s (wire_type_of v) (wire_bytes v @ rest) = (s, Some rest)"
  by (simp add: on_read_wt_def on_skip_wire)

lemma on_read_wt_cases:
  assumes "wire_ok v"
  shows "on_read_wt PB_WIRE_VARINT pb_read_varint f s (wire_type_of v) (wire_bytes v @ rest)
      = ((case v of Varint x \<Rightarrow> f x | _ \<Rightarrow> s), Some rest)"
    "on_read_wt PB_WIRE_FIXED32 pb_read_fixed32 g s (wire_type_of v) (wire_bytes v @ rest)
      = ((case v of Fixed32 x \<Rightarrow> g x | _ \<Rightarrow> s), Some rest)"
proof -
  have ne: "PB_WIRE_VARINT \<noteq> PB_WIRE_FIXED32" "PB_WIRE_FIXED64 \<noteq> PB_WIRE_VARINT" "PB_WIRE_FIXED64 \<noteq> PB_WIRE_FIXED32"
    "PB_WIRE_LENGTH \<noteq> PB_WIRE_VARINT" "PB_WIRE_LENGTH \<noteq> PB_WIRE_FIXED32"
    by (simp_all add: PB_WIRE_VARINT_def PB_WIRE_FIXED64_def PB_WIRE_LENGTH_def PB_WIRE_FIXED32_def)
  show "on_read_wt PB_WIRE_VARINT pb_read_varint f s (wire_type_of v) (wire_bytes v @ rest)
      = ((case v of Varint x \<Rightarrow> f x | _ \<Rightarrow> s), Some rest)"
    using on_read_wt_other [OF assms, of PB_WIRE_VARINT] ne by (cases v) (simp_all add: on_read_wt_wire [simplified])
  show "on_read_wt PB_WIRE_FIXED32 pb_read_fixed32 g s (wire_type_of v) (wire_bytes v @ rest)
      = ((case v of Fixed32 x \<Rightarrow> g x | _ \<Rightarrow> s), Some rest)"
    using on_read_wt_other [OF assms, of PB_WIRE_FIXED32] ne by (cases v) (simp_all add: on_read_wt_wire [simplified])
qed

subsection \<open>Contracts of a decoder step\<close>

text \<open>Every property of the state that the steps keep holds of the decoded message.\<close>

lemma pb_loop_invariant:
  assumes "P s" and step: "\<And>s fld wt p. P s \<Longrightarrow> P (fst (step s fld wt p))"
  shows "P (snd (pb_loop step s p))"
  using assms(1)
proof (induction "length p" arbitrary: s p rule: less_induct)
  case less
  have st: "P s'" if "step s fld wt q = (s', x)" for fld wt q s' x
    using step [OF less.prems, of fld wt q] that by simp
  have rec: "P (snd (pb_loop step s' r))" if "length r < length p" "step s fld wt q = (s', Some r)" for fld wt q s' r
    using less.hyps [OF that(1)] st [OF that(2)] by simp
  show ?case
    by (subst pb_loop.simps) (auto intro: rec st less.prems split: prod.splits option.splits)
qed

lemma on_read_keeps: "P s \<Longrightarrow> (\<And>v. P (f v)) \<Longrightarrow> P (fst (on_read rd f s p))"
  by (simp add: on_read_def split: prod.splits option.splits)

lemma on_skip_keeps: "P s \<Longrightarrow> P (fst (on_skip s wt p))"
  by (simp add: on_skip_def on_read_keeps)

lemma on_read_wt_keeps: "P s \<Longrightarrow> (\<And>v. P (f v)) \<Longrightarrow> P (fst (on_read_wt w rd f s wt p))"
  by (simp add: on_read_wt_def on_skip_keeps split: prod.splits option.splits)

locale field_decoder =
  fixes step :: "'s field_step"
  assumes no_growth: "step s fld wt p = (s', Some r) \<Longrightarrow> length r \<le> length p"
begin

lemma loop_unfold:
  "pb_loop step s p =
     (if p = [] then (PB_DONE, s)
      else case pb_read_tag p of
        (None, _) \<Rightarrow> (PB_BAD_TAG, s)
      | (Some (fld, wt), q) \<Rightarrow>
         (case step s fld wt q of
            (s', None) \<Rightarrow> (PB_BAD_FIELD, s')
          | (s', Some r) \<Rightarrow> pb_loop step s' r))"
proof -
  have "length r < length p" if "pb_read_tag p = (Some fw, q)" "step s fld wt q = (s', Some r)" for fw fld wt q s' r
    using tag.progress [OF that(1)] no_growth [OF that(2)] by linarith
  then show ?thesis
    by (subst pb_loop.simps) (auto split: prod.splits option.splits)
qed

lemma loop_field:
  assumes "wt < 8" "step s fld wt q = (s', Some r)"
  shows "pb_loop step s (pb_tag fld wt @ q) = pb_loop step s' r"
proof -
  have "pb_tag fld wt @ q \<noteq> []" by (simp add: pb_tag_def)
  then show ?thesis by (subst loop_unfold) (simp only: if_False read_tag [OF assms(1)] assms(2) prod.case option.case)
qed

end

locale message_decoder = field_decoder step for step :: "'s field_step" +
  fixes upd :: "u32 \<Rightarrow> wire_value \<Rightarrow> 's \<Rightarrow> 's"
    and accepts :: "u32 \<Rightarrow> wire_value \<Rightarrow> bool"
  assumes field: "accepts fld v \<Longrightarrow> wire_ok v
    \<Longrightarrow> step s fld (wire_type_of v) (wire_bytes v @ rest) = (upd fld v s, Some rest)"
begin

lemma decode_message:
  "\<forall>(fld, v)\<in>set fs. accepts fld v \<and> wire_ok v
   \<Longrightarrow> pb_loop step s (pb_message fs) = (PB_DONE, fold (\<lambda>(fld, v). upd fld v) fs s)"
proof (induction fs arbitrary: s)
  case Nil
  then show ?case by (subst loop_unfold) (simp add: pb_message_def)
next
  case (Cons f fs)
  obtain fld v where f: "f = (fld, v)" by fastforce
  have "pb_message (f # fs) = pb_tag fld (wire_type_of v) @ wire_bytes v @ pb_message fs"
    by (simp add: pb_message_def pb_field_def f)
  moreover have "step s fld (wire_type_of v) (wire_bytes v @ pb_message fs) = (upd fld v s, Some (pb_message fs))"
    using Cons.prems by (intro field) (auto simp: f)
  ultimately have "pb_loop step s (pb_message (f # fs)) = pb_loop step (upd fld v s) (pb_message fs)"
    using loop_field wire_type_less by metis
  then show ?case using Cons by (simp add: f)
qed

end

text \<open>The inverse of the zig-zag map: the encoder of \<^verbatim>\<open>sint32\<close> fields.\<close>

definition zigzag32 :: "int \<Rightarrow> u32" where
  "zigzag32 n = word_of_int (if n < 0 then - 2 * n - 1 else 2 * n)"

lemma half_word:
  assumes "0 \<le> k" "k < 2 ^ 31" "b = 0 \<or> b = 1"
  shows "drop_bit 1 (word_of_int (2 * k + b) :: u32) = word_of_int k"
    "(word_of_int (2 * k + b) :: u32) AND 1 = word_of_int b"
proof -
  have u: "uint (word_of_int (2 * k + b) :: u32) = 2 * k + b"
    unfolding uint_word_of_int using assms by (intro mod_pos_pos_trivial) auto
  have d: "uint (drop_bit 1 (word_of_int (2 * k + b) :: u32)) = k"
    unfolding drop_bit_eq_div uint_div_distrib u using assms(3) by auto
  then show "drop_bit 1 (word_of_int (2 * k + b) :: u32) = word_of_int k" by (metis word_of_int_uint)
  have "uint ((word_of_int (2 * k + b) :: u32) AND 1) = b"
    unfolding uint_and u using assms(3) by (auto simp: and_one_eq)
  then show "(word_of_int (2 * k + b) :: u32) AND 1 = word_of_int b" by (metis word_of_int_uint)
qed

lemma sint_word_of_int:
  assumes "0 \<le> k" "k < 2 ^ 31"
  shows "sint (word_of_int k :: u32) = k"
  using assms by (simp add: signed_of_int signed_take_bit_int_eq_self)

text \<open>
  The zig-zag decoder inverts the protobuf encoding of sint32 on the whole 32-bit
  signed range.
\<close>

lemma zigzag32_roundtrip:
  assumes "- (2 ^ 31) \<le> n" "n < 2 ^ 31"
  shows "pb_zigzag32 (zigzag32 n) = n"
proof (cases "n < 0")
  case True
  then have "zigzag32 n = word_of_int (2 * (- n - 1) + 1)" by (simp add: zigzag32_def)
  moreover have "sint (NOT (word_of_int (- n - 1) :: u32)) = n"
  proof -
    have "signed_take_bit LENGTH(32) n = n" using assms by (intro signed_take_bit_int_eq_self) auto
    moreover have "sint (word_of_int (- n - 1) :: u32) = - n - 1"
      by (rule sint_word_of_int) (use True assms in auto)
    ultimately show ?thesis unfolding signed_not_eq by (simp add: not_int_def)
  qed
  moreover have "w XOR - 1 = NOT w" for w :: u32 by simp
  ultimately show ?thesis
    using True assms half_word [of "- n - 1" 1] by (simp add: pb_zigzag32_def)
next
  case False
  then show ?thesis
    using assms half_word [of n 0] sint_word_of_int [of n] by (simp add: pb_zigzag32_def zigzag32_def)
qed
text \<open>
  C16: whatever field a conforming writer emits is read back exactly: the tag gives the
  field number and the wire type, the reader of that wire type gives the value, the
  skipper passes over it, and all of them leave the cursor on the next field.
\<close>

theorem pb_field_roundtrip:
  assumes "wire_ok v"
  shows "pb_read_tag (pb_field (fld, v) @ rest) = (Some (fld, wire_type_of v), wire_bytes v @ rest)
    \<and> pb_skip_value (wire_type_of v) (wire_bytes v @ rest) = (Some (), rest)
    \<and> (case v of
         Varint x \<Rightarrow> pb_read_varint (wire_bytes v @ rest) = (Some x, rest)
       | Fixed64 x \<Rightarrow> pb_read_fixed64 (wire_bytes v @ rest) = (Some x, rest)
       | Len bs \<Rightarrow> pb_read_length (wire_bytes v @ rest) = (Some bs, rest)
       | Fixed32 x \<Rightarrow> pb_read_fixed32 (wire_bytes v @ rest) = (Some x, rest))"
  using assms
  by (auto simp: pb_field_def read_tag skip_wire read_varint read_fixed32 read_fixed64 read_length
      split: wire_value.split)

theorem pb_field_roundtrip_witness:
  "pb_read_length (wire_bytes (Len [1, 2, 3]) @ [9]) = (Some [1, 2, 3], [9])"
  using pb_field_roundtrip [of "Len [1, 2, 3]" 5 "[9]"] by simp

lemma varint_loop_overlong:
  "\<forall>b\<in>set bs. b AND 0x80 \<noteq> 0 \<Longrightarrow> shift = 7 * k \<Longrightarrow> k \<le> 9
   \<Longrightarrow> varint_loop v shift bs = (None, drop (10 - k) bs)"
proof (induction bs arbitrary: v shift k)
  case (Cons b bs)
  show ?case
  proof (cases "k = 9")
    case True
    then show ?thesis using Cons.prems by simp
  next
    case False
    then have "10 - k = Suc (10 - Suc k)" "\<not> 7 * k + 7 > 63" using Cons.prems by linarith+
    then show ?thesis
      using Cons.prems False Cons.IH [of "7 * k + 7" "Suc k"] by (simp add: Let_def)
  qed
qed simp

text \<open>
  A varint whose bytes all announce a continuation is refused, after at most ten
  bytes and without leaving the buffer: the cursor stands ten bytes further on, or at
  the end of a shorter buffer.
\<close>

lemma varint_overlong_rejected:
  assumes "\<forall>b\<in>set bs. b AND 0x80 \<noteq> 0"
  shows "pb_read_varint bs = (None, drop 10 bs)"
  using varint_loop_overlong [OF assms, of 0 0 0] by (simp add: pb_read_varint_def)

end
