(* ===== verification/Mesh_Position.thy ===== *)
theory Mesh_Position
  imports Protobuf
begin

text \<open>
  The decoders of positions and node descriptions in \<^verbatim>\<open>src/mesh_decoders.c\<close>:
  \<^verbatim>\<open>mesh_decode_position\<close> and \<^verbatim>\<open>mesh_decode_user\<close>.  Degrees stay the integers of the wire
  format (units of 1e-7); a C string is the list of its bytes without the terminating
  NUL and the padding.
\<close>

subsection \<open>Position\<close>

record mesh_position =
  pos_have_lat :: bool
  pos_have_lon :: bool
  pos_have_alt :: bool
  pos_have_alt_hae :: bool
  pos_have_alt_geosep :: bool
  pos_have_time :: bool
  pos_have_timestamp :: bool
  pos_have_ground_speed :: bool
  pos_have_ground_track :: bool
  pos_lat_i :: int
  pos_lon_i :: int
  pos_altitude_m :: int
  pos_time :: u32
  pos_location_source :: u32
  pos_altitude_source :: u32
  pos_timestamp :: u32
  pos_timestamp_millis_adjust :: int
  pos_altitude_hae_m :: int
  pos_altitude_geoidal_separation_m :: int
  pos_pdop_x100 :: u32
  pos_hdop_x100 :: u32
  pos_vdop_x100 :: u32
  pos_gps_accuracy_mm :: u32
  pos_ground_speed_mps :: u32
  pos_ground_track_x100 :: u32
  pos_fix_quality :: u32
  pos_fix_type :: u32
  pos_sats_in_view :: u32
  pos_sensor_id :: u32
  pos_next_update_s :: u32
  pos_seq_number :: u32
  pos_precision_bits :: u32

definition mesh_position0 :: mesh_position where
  "mesh_position0 = \<lparr> pos_have_lat = False, pos_have_lon = False, pos_have_alt = False,
     pos_have_alt_hae = False, pos_have_alt_geosep = False, pos_have_time = False,
     pos_have_timestamp = False, pos_have_ground_speed = False, pos_have_ground_track = False,
     pos_lat_i = 0, pos_lon_i = 0, pos_altitude_m = 0, pos_time = 0, pos_location_source = 0,
     pos_altitude_source = 0, pos_timestamp = 0, pos_timestamp_millis_adjust = 0,
     pos_altitude_hae_m = 0, pos_altitude_geoidal_separation_m = 0, pos_pdop_x100 = 0,
     pos_hdop_x100 = 0, pos_vdop_x100 = 0, pos_gps_accuracy_mm = 0, pos_ground_speed_mps = 0,
     pos_ground_track_x100 = 0, pos_fix_quality = 0, pos_fix_type = 0, pos_sats_in_view = 0,
     pos_sensor_id = 0, pos_next_update_s = 0, pos_seq_number = 0, pos_precision_bits = 0 \<rparr>"

definition position_field :: "mesh_position field_step" where
  "position_field s fld wt p =
     (if fld = 1 then
          on_read_wt PB_WIRE_FIXED32 pb_read_fixed32 (\<lambda>v. s\<lparr> pos_lat_i := sint v, pos_have_lat := True \<rparr>) s wt p
      else if fld = 2 then
           on_read_wt PB_WIRE_FIXED32 pb_read_fixed32 (\<lambda>v. s\<lparr> pos_lon_i := sint v, pos_have_lon := True \<rparr>) s wt p
      else if fld = 3 then
           on_read_wt PB_WIRE_VARINT pb_read_varint (\<lambda>v. s\<lparr> pos_altitude_m := sint (ucast v :: u32), pos_have_alt := True \<rparr>) s wt p
      else if fld = 4 then
           on_read_wt PB_WIRE_FIXED32 pb_read_fixed32 (\<lambda>v. s\<lparr> pos_time := v, pos_have_time := True \<rparr>) s wt p
      else if fld = 5 then
           on_read_wt PB_WIRE_VARINT pb_read_varint (\<lambda>v. s\<lparr> pos_location_source := ucast v \<rparr>) s wt p
      else if fld = 6 then
           on_read_wt PB_WIRE_VARINT pb_read_varint (\<lambda>v. s\<lparr> pos_altitude_source := ucast v \<rparr>) s wt p
      else if fld = 7 then
           on_read_wt PB_WIRE_FIXED32 pb_read_fixed32 (\<lambda>v. s\<lparr> pos_timestamp := v, pos_have_timestamp := True \<rparr>) s wt p
      else if fld = 8 then
           on_read_wt PB_WIRE_VARINT pb_read_varint (\<lambda>v. s\<lparr> pos_timestamp_millis_adjust := sint (ucast v :: u32) \<rparr>) s wt p
      else if fld = 9 then
           on_read_wt PB_WIRE_VARINT pb_read_varint (\<lambda>v. s\<lparr> pos_altitude_hae_m := pb_zigzag32 (ucast v), pos_have_alt_hae := True \<rparr>) s wt p
      else if fld = 10 then
           on_read_wt PB_WIRE_VARINT pb_read_varint (\<lambda>v. s\<lparr> pos_altitude_geoidal_separation_m := pb_zigzag32 (ucast v), pos_have_alt_geosep := True \<rparr>) s wt p
      else if fld = 11 then
           on_read_wt PB_WIRE_VARINT pb_read_varint (\<lambda>v. s\<lparr> pos_pdop_x100 := ucast v \<rparr>) s wt p
      else if fld = 12 then
           on_read_wt PB_WIRE_VARINT pb_read_varint (\<lambda>v. s\<lparr> pos_hdop_x100 := ucast v \<rparr>) s wt p
      else if fld = 13 then
           on_read_wt PB_WIRE_VARINT pb_read_varint (\<lambda>v. s\<lparr> pos_vdop_x100 := ucast v \<rparr>) s wt p
      else if fld = 14 then
           on_read_wt PB_WIRE_VARINT pb_read_varint (\<lambda>v. s\<lparr> pos_gps_accuracy_mm := ucast v \<rparr>) s wt p
      else if fld = 15 then
           on_read_wt PB_WIRE_VARINT pb_read_varint (\<lambda>v. s\<lparr> pos_ground_speed_mps := ucast v, pos_have_ground_speed := True \<rparr>) s wt p
      else if fld = 16 then
           on_read_wt PB_WIRE_VARINT pb_read_varint (\<lambda>v. s\<lparr> pos_ground_track_x100 := ucast v, pos_have_ground_track := True \<rparr>) s wt p
      else if fld = 17 then
           on_read_wt PB_WIRE_VARINT pb_read_varint (\<lambda>v. s\<lparr> pos_fix_quality := ucast v \<rparr>) s wt p
      else if fld = 18 then
           on_read_wt PB_WIRE_VARINT pb_read_varint (\<lambda>v. s\<lparr> pos_fix_type := ucast v \<rparr>) s wt p
      else if fld = 19 then
           on_read_wt PB_WIRE_VARINT pb_read_varint (\<lambda>v. s\<lparr> pos_sats_in_view := ucast v \<rparr>) s wt p
      else if fld = 20 then
           on_read_wt PB_WIRE_VARINT pb_read_varint (\<lambda>v. s\<lparr> pos_sensor_id := ucast v \<rparr>) s wt p
      else if fld = 21 then
           on_read_wt PB_WIRE_VARINT pb_read_varint (\<lambda>v. s\<lparr> pos_next_update_s := ucast v \<rparr>) s wt p
      else if fld = 22 then
           on_read_wt PB_WIRE_VARINT pb_read_varint (\<lambda>v. s\<lparr> pos_seq_number := ucast v \<rparr>) s wt p
      else if fld = 23 then
           on_read_wt PB_WIRE_VARINT pb_read_varint (\<lambda>v. s\<lparr> pos_precision_bits := ucast v \<rparr>) s wt p
      else on_skip s wt p)"

text \<open>The caller's \<^verbatim>\<open>mesh_position_t\<close> and the returned truth value.\<close>

definition mesh_decode_position :: "bytes \<Rightarrow> bool \<times> mesh_position" where
  "mesh_decode_position buf =
     (case pb_loop position_field mesh_position0 buf of
        (PB_DONE, out) \<Rightarrow>
          (pos_have_lat out \<or> pos_have_lon out \<or> pos_have_time out \<or> pos_have_timestamp out, out)
      | (_, out) \<Rightarrow> (False, out))"

text \<open>
  \<^verbatim>\<open>copy_str(dst, dst_size, src, len)\<close>: truncation to \<^verbatim>\<open>dst_size - 1\<close> bytes and a terminator;
  a consumer sees the bytes before the first NUL.
\<close>

definition copy_str :: "nat \<Rightarrow> bytes \<Rightarrow> bytes" where
  "copy_str dst_size src = take (if length src \<ge> dst_size then dst_size - 1 else length src) src"

definition c_str :: "bytes \<Rightarrow> bytes" where
  "c_str b = takeWhile (\<lambda>c. c \<noteq> 0) b"

text \<open>\<^verbatim>\<open>memcpy\<close> to the front of a fixed array.\<close>

subsection \<open>User\<close>

record mesh_user =
  usr_id :: bytes
  usr_long_name :: bytes
  usr_short_name :: bytes
  usr_macaddr :: bytes
  usr_have_macaddr :: bool
  usr_hw_model :: u32
  usr_is_licensed :: bool
  usr_role :: u32
  usr_public_key :: bytes
  usr_have_public_key :: bool
  usr_is_unmessagable :: bool
  usr_have_is_unmessagable :: bool

definition mesh_user0 :: mesh_user where
  "mesh_user0 = \<lparr> usr_id = [], usr_long_name = [], usr_short_name = [],
     usr_macaddr = replicate 6 0, usr_have_macaddr = False, usr_hw_model = 0,
     usr_is_licensed = False, usr_role = 0, usr_public_key = replicate 32 0,
     usr_have_public_key = False, usr_is_unmessagable = False,
     usr_have_is_unmessagable = False \<rparr>"

definition user_field :: "mesh_user field_step" where
  "user_field s fld wt p =
     (if fld = 1 then on_read pb_read_length (\<lambda>v. s\<lparr> usr_id := copy_str 24 v \<rparr>) s p
      else if fld = 2 then
           on_read pb_read_length (\<lambda>v. s\<lparr> usr_long_name := copy_str 64 v \<rparr>) s p
      else if fld = 3 then
           on_read pb_read_length (\<lambda>v. s\<lparr> usr_short_name := copy_str 8 v \<rparr>) s p
      else if fld = 4 then
           on_read pb_read_length (\<lambda>v. (if length v = 6 then s\<lparr> usr_macaddr := v, usr_have_macaddr := True \<rparr> else s)) s p
      else if fld = 5 then on_read pb_read_varint (\<lambda>v. s\<lparr> usr_hw_model := ucast v \<rparr>) s p
      else if fld = 6 then
           on_read pb_read_varint (\<lambda>v. s\<lparr> usr_is_licensed := v \<noteq> 0 \<rparr>) s p
      else if fld = 7 then on_read pb_read_varint (\<lambda>v. s\<lparr> usr_role := ucast v \<rparr>) s p
      else if fld = 8 then
           on_read pb_read_length (\<lambda>v. (if length v \<le> 32 then s\<lparr> usr_public_key := overwrite v (usr_public_key s), usr_have_public_key := True \<rparr> else s)) s p
      else if fld = 9 then
           on_read pb_read_varint (\<lambda>v. s\<lparr> usr_is_unmessagable := v \<noteq> 0, usr_have_is_unmessagable := True \<rparr>) s p
      else on_skip s wt p)"

definition mesh_decode_user :: "bytes \<Rightarrow> bool \<times> mesh_user" where
  "mesh_decode_user buf =
     (case pb_loop user_field mesh_user0 buf of
        (PB_DONE, out) \<Rightarrow>
          (c_str (usr_id out) \<noteq> [] \<or> c_str (usr_long_name out) \<noteq> [] \<or> c_str (usr_short_name out) \<noteq> [], out)
      | (_, out) \<Rightarrow> (False, out))"

subsection \<open>The wire-level meaning of a position message\<close>

text \<open>
  The abstract reading of a position: fields with their wire values, in order, the later
  one winning; a field with a wire type the schema does not give it changes nothing.
\<close>

definition position_upd :: "u32 \<Rightarrow> wire_value \<Rightarrow> mesh_position \<Rightarrow> mesh_position" where
  "position_upd fld w s = (case w of
      Varint v \<Rightarrow>
        (if fld = 3 then s\<lparr> pos_altitude_m := sint (ucast v :: u32), pos_have_alt := True \<rparr>
         else if fld = 5 then s\<lparr> pos_location_source := ucast v \<rparr>
         else if fld = 6 then s\<lparr> pos_altitude_source := ucast v \<rparr>
         else if fld = 8 then s\<lparr> pos_timestamp_millis_adjust := sint (ucast v :: u32) \<rparr>
         else if fld = 9 then
              s\<lparr> pos_altitude_hae_m := pb_zigzag32 (ucast v), pos_have_alt_hae := True \<rparr>
         else if fld = 10 then
              s\<lparr> pos_altitude_geoidal_separation_m := pb_zigzag32 (ucast v), pos_have_alt_geosep := True \<rparr>
         else if fld = 11 then s\<lparr> pos_pdop_x100 := ucast v \<rparr>
         else if fld = 12 then s\<lparr> pos_hdop_x100 := ucast v \<rparr>
         else if fld = 13 then s\<lparr> pos_vdop_x100 := ucast v \<rparr>
         else if fld = 14 then s\<lparr> pos_gps_accuracy_mm := ucast v \<rparr>
         else if fld = 15 then
              s\<lparr> pos_ground_speed_mps := ucast v, pos_have_ground_speed := True \<rparr>
         else if fld = 16 then
              s\<lparr> pos_ground_track_x100 := ucast v, pos_have_ground_track := True \<rparr>
         else if fld = 17 then s\<lparr> pos_fix_quality := ucast v \<rparr>
         else if fld = 18 then s\<lparr> pos_fix_type := ucast v \<rparr>
         else if fld = 19 then s\<lparr> pos_sats_in_view := ucast v \<rparr>
         else if fld = 20 then s\<lparr> pos_sensor_id := ucast v \<rparr>
         else if fld = 21 then s\<lparr> pos_next_update_s := ucast v \<rparr>
         else if fld = 22 then s\<lparr> pos_seq_number := ucast v \<rparr>
         else if fld = 23 then s\<lparr> pos_precision_bits := ucast v \<rparr>
         else s)
    | Fixed32 v \<Rightarrow>
        (if fld = 1 then s\<lparr> pos_lat_i := sint v, pos_have_lat := True \<rparr>
         else if fld = 2 then s\<lparr> pos_lon_i := sint v, pos_have_lon := True \<rparr>
         else if fld = 4 then s\<lparr> pos_time := v, pos_have_time := True \<rparr>
         else if fld = 7 then s\<lparr> pos_timestamp := v, pos_have_timestamp := True \<rparr>
         else s)
    | _ \<Rightarrow> s)"

lemmas position_le = on_skip_le on_read_wt_le [OF varint.wire_reader_axioms] on_read_wt_le [OF fixed32.wire_reader_axioms]

interpretation position: message_decoder position_field position_upd "\<lambda>_ _. True"
proof
  fix s s' :: mesh_position and fld wt p r
  assume "position_field s fld wt p = (s', Some r)"
  then show "length r \<le> length p"
    unfolding position_field_def by (auto split: if_splits dest: position_le)
next
  fix fld :: u32 and v :: wire_value and s rest
  assume "wire_ok v"
  then show "position_field s fld (wire_type_of v) (wire_bytes v @ rest) = (position_upd fld v s, Some rest)"
    unfolding position_field_def position_upd_def on_read_wt_cases [OF \<open>wire_ok v\<close>] on_skip_wire [OF \<open>wire_ok v\<close>]
    by (cases v) simp_all
qed

text \<open>
  C17: the position decoder implements the wire-level meaning.  On every well-formed
  message, whatever its fields, their order, repetitions and wire types, it yields the
  fold of the field assignments and succeeds exactly when a coordinate or a time was
  present: a field with an unexpected wire type is skipped, never misread.
\<close>

theorem position_decode_message:
  assumes "\<forall>(fld, v)\<in>set fs. wire_ok v"
  shows "mesh_decode_position (pb_message fs) =
    (let out = fold (\<lambda>(fld, v). position_upd fld v) fs mesh_position0
     in (pos_have_lat out \<or> pos_have_lon out \<or> pos_have_time out \<or> pos_have_timestamp out, out))"
proof -
  have "pb_loop position_field mesh_position0 (pb_message fs)
      = (PB_DONE, fold (\<lambda>(fld, v). position_upd fld v) fs mesh_position0)"
    using assms by (intro position.decode_message) auto
  then show ?thesis by (simp add: mesh_decode_position_def Let_def)
qed

theorem position_decode_message_witness:
  "let out = snd (mesh_decode_position (pb_message [(1, Fixed32 (- 5)), (3, Fixed32 9), (9, Varint 33), (1, Varint 7)]))
   in pos_lat_i out = - 5 \<and> \<not> pos_have_alt out \<and> pos_altitude_hae_m out = - 17"
  using position_decode_message [of "[(1, Fixed32 (- 5)), (3, Fixed32 9), (9, Varint 33), (1, Varint 7)]"]
  by (simp add: Let_def position_upd_def mesh_position0_def pb_zigzag32_def)

subsection \<open>Fixed arrays of a user\<close>

text \<open>What the fixed-size fields of the struct can hold.\<close>

definition user_bounds :: "mesh_user \<Rightarrow> bool" where
  "user_bounds u \<longleftrightarrow> length (usr_id u) < 24 \<and> length (usr_long_name u) < 64 \<and> length (usr_short_name u) < 8
     \<and> length (usr_macaddr u) = 6 \<and> length (usr_public_key u) = 32"

lemma length_copy_str [simp]: "0 < n \<Longrightarrow> length (copy_str n src) < n"
  by (auto simp: copy_str_def)

lemma user_field_bounds: "user_bounds s \<Longrightarrow> user_bounds (fst (user_field s fld wt p))"
  by (auto simp: user_field_def user_bounds_def intro!: on_read_keeps [where P = user_bounds, unfolded user_bounds_def]
      on_skip_keeps [where P = user_bounds, unfolded user_bounds_def])

lemma user_decode_bounds: "user_bounds (snd (mesh_decode_user buf))"
proof -
  have "user_bounds (snd (pb_loop user_field mesh_user0 buf))"
    by (rule pb_loop_invariant [where P = user_bounds])
      (simp_all add: user_field_bounds, simp add: user_bounds_def mesh_user0_def)
  then show ?thesis by (auto simp: mesh_decode_user_def split: prod.splits pb_end.splits)
qed

end
