(* ===== verification/Mesh_Telemetry.thy ===== *)
theory Mesh_Telemetry
  imports Mesh_Position
begin

text \<open>
  \<^verbatim>\<open>mesh_decode_telemetry\<close> and the eight sub-message parsers of \<^verbatim>\<open>src/mesh_decoders.c\<close>.
  The flat \<^verbatim>\<open>mesh_telemetry_t\<close> is one record per sub-message, each with its \<^verbatim>\<open>have_\<close> flag;
  a C float is the 32-bit pattern that \<^verbatim>\<open>u32_as_float\<close> reinterprets.  A parser that meets
  malformed input returns with the fields read so far and leaves its flag unset.
\<close>

subsection \<open>Device metrics\<close>

record device_metrics =
  dm_have :: bool
  dm_battery_level :: u32
  dm_voltage :: u32
  dm_channel_utilization :: u32
  dm_air_util_tx :: u32
  dm_uptime_seconds :: u32

definition device_metrics0 :: device_metrics where
  "device_metrics0 = \<lparr> dm_have = False, dm_battery_level = 0, dm_voltage = 0,
     dm_channel_utilization = 0, dm_air_util_tx = 0, dm_uptime_seconds = 0 \<rparr>"

definition device_field :: "device_metrics field_step" where
  "device_field s fld wt p =
     (if fld = 1 then on_read pb_read_varint (\<lambda>v. s\<lparr> dm_battery_level := ucast v \<rparr>) s p
      else if fld = 2 then on_read pb_read_fixed32 (\<lambda>v. s\<lparr> dm_voltage := v \<rparr>) s p
      else if fld = 3 then
           on_read pb_read_fixed32 (\<lambda>v. s\<lparr> dm_channel_utilization := v \<rparr>) s p
      else if fld = 4 then on_read pb_read_fixed32 (\<lambda>v. s\<lparr> dm_air_util_tx := v \<rparr>) s p
      else if fld = 5 then
           on_read pb_read_varint (\<lambda>v. s\<lparr> dm_uptime_seconds := ucast v \<rparr>) s p
      else on_skip s wt p)"

definition parse_device_metrics :: "bytes \<Rightarrow> device_metrics \<Rightarrow> device_metrics" where
  "parse_device_metrics buf s =
     (case pb_loop device_field s buf of (PB_DONE, s) \<Rightarrow> s\<lparr> dm_have := True \<rparr> | (_, s) \<Rightarrow> s)"

subsection \<open>Environment metrics\<close>

record env_metrics =
  em_have :: bool
  em_temperature_c :: u32
  em_relative_humidity :: u32
  em_barometric_pressure_hpa :: u32
  em_gas_resistance :: u32
  em_voltage_env :: u32
  em_current :: u32
  em_iaq :: u32
  em_distance_mm :: u32
  em_lux :: u32
  em_white_lux :: u32
  em_ir_lux :: u32
  em_uv_lux :: u32
  em_wind_direction :: u32
  em_wind_speed :: u32
  em_weight :: u32
  em_wind_gust :: u32
  em_wind_lull :: u32
  em_radiation_uSvh :: u32
  em_rainfall_1h_mm :: u32
  em_rainfall_24h_mm :: u32
  em_soil_moisture :: u32
  em_soil_temperature_c :: u32

definition env_metrics0 :: env_metrics where
  "env_metrics0 = \<lparr> em_have = False, em_temperature_c = 0, em_relative_humidity = 0,
     em_barometric_pressure_hpa = 0, em_gas_resistance = 0, em_voltage_env = 0, em_current = 0,
     em_iaq = 0, em_distance_mm = 0, em_lux = 0, em_white_lux = 0, em_ir_lux = 0, em_uv_lux = 0,
     em_wind_direction = 0, em_wind_speed = 0, em_weight = 0, em_wind_gust = 0, em_wind_lull = 0,
     em_radiation_uSvh = 0, em_rainfall_1h_mm = 0, em_rainfall_24h_mm = 0, em_soil_moisture = 0,
     em_soil_temperature_c = 0 \<rparr>"

definition env_field :: "env_metrics field_step" where
  "env_field s fld wt p =
     (if fld = 1 then
          on_read_wt PB_WIRE_FIXED32 pb_read_fixed32 (\<lambda>v. s\<lparr> em_temperature_c := v \<rparr>) s wt p
      else if fld = 2 then
           on_read_wt PB_WIRE_FIXED32 pb_read_fixed32 (\<lambda>v. s\<lparr> em_relative_humidity := v \<rparr>) s wt p
      else if fld = 3 then
           on_read_wt PB_WIRE_FIXED32 pb_read_fixed32 (\<lambda>v. s\<lparr> em_barometric_pressure_hpa := v \<rparr>) s wt p
      else if fld = 4 then
           on_read_wt PB_WIRE_FIXED32 pb_read_fixed32 (\<lambda>v. s\<lparr> em_gas_resistance := v \<rparr>) s wt p
      else if fld = 5 then
           on_read_wt PB_WIRE_FIXED32 pb_read_fixed32 (\<lambda>v. s\<lparr> em_voltage_env := v \<rparr>) s wt p
      else if fld = 6 then
           on_read_wt PB_WIRE_FIXED32 pb_read_fixed32 (\<lambda>v. s\<lparr> em_current := v \<rparr>) s wt p
      else if fld = 7 then
           on_read_wt PB_WIRE_VARINT pb_read_varint (\<lambda>v. s\<lparr> em_iaq := ucast v \<rparr>) s wt p
      else if fld = 8 then
           on_read_wt PB_WIRE_FIXED32 pb_read_fixed32 (\<lambda>v. s\<lparr> em_distance_mm := v \<rparr>) s wt p
      else if fld = 9 then
           on_read_wt PB_WIRE_FIXED32 pb_read_fixed32 (\<lambda>v. s\<lparr> em_lux := v \<rparr>) s wt p
      else if fld = 10 then
           on_read_wt PB_WIRE_FIXED32 pb_read_fixed32 (\<lambda>v. s\<lparr> em_white_lux := v \<rparr>) s wt p
      else if fld = 11 then
           on_read_wt PB_WIRE_FIXED32 pb_read_fixed32 (\<lambda>v. s\<lparr> em_ir_lux := v \<rparr>) s wt p
      else if fld = 12 then
           on_read_wt PB_WIRE_FIXED32 pb_read_fixed32 (\<lambda>v. s\<lparr> em_uv_lux := v \<rparr>) s wt p
      else if fld = 13 then
           on_read_wt PB_WIRE_VARINT pb_read_varint (\<lambda>v. s\<lparr> em_wind_direction := ucast v \<rparr>) s wt p
      else if fld = 14 then
           on_read_wt PB_WIRE_FIXED32 pb_read_fixed32 (\<lambda>v. s\<lparr> em_wind_speed := v \<rparr>) s wt p
      else if fld = 15 then
           on_read_wt PB_WIRE_FIXED32 pb_read_fixed32 (\<lambda>v. s\<lparr> em_weight := v \<rparr>) s wt p
      else if fld = 16 then
           on_read_wt PB_WIRE_FIXED32 pb_read_fixed32 (\<lambda>v. s\<lparr> em_wind_gust := v \<rparr>) s wt p
      else if fld = 17 then
           on_read_wt PB_WIRE_FIXED32 pb_read_fixed32 (\<lambda>v. s\<lparr> em_wind_lull := v \<rparr>) s wt p
      else if fld = 18 then
           on_read_wt PB_WIRE_FIXED32 pb_read_fixed32 (\<lambda>v. s\<lparr> em_radiation_uSvh := v \<rparr>) s wt p
      else if fld = 19 then
           on_read_wt PB_WIRE_FIXED32 pb_read_fixed32 (\<lambda>v. s\<lparr> em_rainfall_1h_mm := v \<rparr>) s wt p
      else if fld = 20 then
           on_read_wt PB_WIRE_FIXED32 pb_read_fixed32 (\<lambda>v. s\<lparr> em_rainfall_24h_mm := v \<rparr>) s wt p
      else if fld = 21 then
           on_read_wt PB_WIRE_VARINT pb_read_varint (\<lambda>v. s\<lparr> em_soil_moisture := ucast v \<rparr>) s wt p
      else if fld = 22 then
           on_read_wt PB_WIRE_FIXED32 pb_read_fixed32 (\<lambda>v. s\<lparr> em_soil_temperature_c := v \<rparr>) s wt p
      else on_skip s wt p)"

definition parse_env_metrics :: "bytes \<Rightarrow> env_metrics \<Rightarrow> env_metrics" where
  "parse_env_metrics buf s =
     (case pb_loop env_field s buf of (PB_DONE, s) \<Rightarrow> s\<lparr> em_have := True \<rparr> | (_, s) \<Rightarrow> s)"

subsection \<open>Power metrics\<close>

record power_metrics =
  pm_have :: bool
  pm_ch1_voltage :: u32
  pm_ch1_current :: u32
  pm_ch2_voltage :: u32
  pm_ch2_current :: u32
  pm_ch3_voltage :: u32
  pm_ch3_current :: u32
  pm_ch4_voltage :: u32
  pm_ch4_current :: u32
  pm_ch5_voltage :: u32
  pm_ch5_current :: u32
  pm_ch6_voltage :: u32
  pm_ch6_current :: u32
  pm_ch7_voltage :: u32
  pm_ch7_current :: u32
  pm_ch8_voltage :: u32
  pm_ch8_current :: u32

definition power_metrics0 :: power_metrics where
  "power_metrics0 = \<lparr> pm_have = False, pm_ch1_voltage = 0, pm_ch1_current = 0,
     pm_ch2_voltage = 0, pm_ch2_current = 0, pm_ch3_voltage = 0, pm_ch3_current = 0,
     pm_ch4_voltage = 0, pm_ch4_current = 0, pm_ch5_voltage = 0, pm_ch5_current = 0,
     pm_ch6_voltage = 0, pm_ch6_current = 0, pm_ch7_voltage = 0, pm_ch7_current = 0,
     pm_ch8_voltage = 0, pm_ch8_current = 0 \<rparr>"

definition power_field :: "power_metrics field_step" where
  "power_field s fld wt p =
     (if fld = 1 then on_read pb_read_fixed32 (\<lambda>v. s\<lparr> pm_ch1_voltage := v \<rparr>) s p
      else if fld = 2 then on_read pb_read_fixed32 (\<lambda>v. s\<lparr> pm_ch1_current := v \<rparr>) s p
      else if fld = 3 then on_read pb_read_fixed32 (\<lambda>v. s\<lparr> pm_ch2_voltage := v \<rparr>) s p
      else if fld = 4 then on_read pb_read_fixed32 (\<lambda>v. s\<lparr> pm_ch2_current := v \<rparr>) s p
      else if fld = 5 then on_read pb_read_fixed32 (\<lambda>v. s\<lparr> pm_ch3_voltage := v \<rparr>) s p
      else if fld = 6 then on_read pb_read_fixed32 (\<lambda>v. s\<lparr> pm_ch3_current := v \<rparr>) s p
      else if fld = 7 then on_read pb_read_fixed32 (\<lambda>v. s\<lparr> pm_ch4_voltage := v \<rparr>) s p
      else if fld = 8 then on_read pb_read_fixed32 (\<lambda>v. s\<lparr> pm_ch4_current := v \<rparr>) s p
      else if fld = 9 then on_read pb_read_fixed32 (\<lambda>v. s\<lparr> pm_ch5_voltage := v \<rparr>) s p
      else if fld = 10 then on_read pb_read_fixed32 (\<lambda>v. s\<lparr> pm_ch5_current := v \<rparr>) s p
      else if fld = 11 then on_read pb_read_fixed32 (\<lambda>v. s\<lparr> pm_ch6_voltage := v \<rparr>) s p
      else if fld = 12 then on_read pb_read_fixed32 (\<lambda>v. s\<lparr> pm_ch6_current := v \<rparr>) s p
      else if fld = 13 then on_read pb_read_fixed32 (\<lambda>v. s\<lparr> pm_ch7_voltage := v \<rparr>) s p
      else if fld = 14 then on_read pb_read_fixed32 (\<lambda>v. s\<lparr> pm_ch7_current := v \<rparr>) s p
      else if fld = 15 then on_read pb_read_fixed32 (\<lambda>v. s\<lparr> pm_ch8_voltage := v \<rparr>) s p
      else if fld = 16 then on_read pb_read_fixed32 (\<lambda>v. s\<lparr> pm_ch8_current := v \<rparr>) s p
      else on_skip s wt p)"

definition parse_power_metrics :: "bytes \<Rightarrow> power_metrics \<Rightarrow> power_metrics" where
  "parse_power_metrics buf s =
     (case pb_loop power_field s buf of (PB_DONE, s) \<Rightarrow> s\<lparr> pm_have := True \<rparr> | (_, s) \<Rightarrow> s)"

subsection \<open>Air quality\<close>

record air_quality =
  aq_have :: bool
  aq_pm10_standard :: u32
  aq_pm25_standard :: u32
  aq_pm100_standard :: u32
  aq_pm10_env :: u32
  aq_pm25_env :: u32
  aq_pm100_env :: u32
  aq_particles_03um :: u32
  aq_particles_05um :: u32
  aq_particles_10um :: u32
  aq_particles_25um :: u32
  aq_particles_50um :: u32
  aq_particles_100um :: u32
  aq_co2 :: u32
  aq_co2_temperature_c :: u32
  aq_co2_humidity :: u32
  aq_formaldehyde_ppb :: u32
  aq_form_humidity :: u32
  aq_form_temperature_c :: u32
  aq_pm40_standard :: u32
  aq_particles_40um :: u32
  aq_pm_temperature_c :: u32
  aq_pm_humidity :: u32
  aq_pm_voc_idx :: u32
  aq_pm_nox_idx :: u32
  aq_particles_tps :: u32

definition air_quality0 :: air_quality where
  "air_quality0 = \<lparr> aq_have = False, aq_pm10_standard = 0, aq_pm25_standard = 0,
     aq_pm100_standard = 0, aq_pm10_env = 0, aq_pm25_env = 0, aq_pm100_env = 0,
     aq_particles_03um = 0, aq_particles_05um = 0, aq_particles_10um = 0, aq_particles_25um = 0,
     aq_particles_50um = 0, aq_particles_100um = 0, aq_co2 = 0, aq_co2_temperature_c = 0,
     aq_co2_humidity = 0, aq_formaldehyde_ppb = 0, aq_form_humidity = 0, aq_form_temperature_c = 0,
     aq_pm40_standard = 0, aq_particles_40um = 0, aq_pm_temperature_c = 0, aq_pm_humidity = 0,
     aq_pm_voc_idx = 0, aq_pm_nox_idx = 0, aq_particles_tps = 0 \<rparr>"

definition aq_field :: "air_quality field_step" where
  "aq_field s fld wt p =
     (if fld = 1 then on_read pb_read_varint (\<lambda>v. s\<lparr> aq_pm10_standard := ucast v \<rparr>) s p
      else if fld = 2 then
           on_read pb_read_varint (\<lambda>v. s\<lparr> aq_pm25_standard := ucast v \<rparr>) s p
      else if fld = 3 then
           on_read pb_read_varint (\<lambda>v. s\<lparr> aq_pm100_standard := ucast v \<rparr>) s p
      else if fld = 4 then on_read pb_read_varint (\<lambda>v. s\<lparr> aq_pm10_env := ucast v \<rparr>) s p
      else if fld = 5 then on_read pb_read_varint (\<lambda>v. s\<lparr> aq_pm25_env := ucast v \<rparr>) s p
      else if fld = 6 then on_read pb_read_varint (\<lambda>v. s\<lparr> aq_pm100_env := ucast v \<rparr>) s p
      else if fld = 7 then
           on_read pb_read_varint (\<lambda>v. s\<lparr> aq_particles_03um := ucast v \<rparr>) s p
      else if fld = 8 then
           on_read pb_read_varint (\<lambda>v. s\<lparr> aq_particles_05um := ucast v \<rparr>) s p
      else if fld = 9 then
           on_read pb_read_varint (\<lambda>v. s\<lparr> aq_particles_10um := ucast v \<rparr>) s p
      else if fld = 10 then
           on_read pb_read_varint (\<lambda>v. s\<lparr> aq_particles_25um := ucast v \<rparr>) s p
      else if fld = 11 then
           on_read pb_read_varint (\<lambda>v. s\<lparr> aq_particles_50um := ucast v \<rparr>) s p
      else if fld = 12 then
           on_read pb_read_varint (\<lambda>v. s\<lparr> aq_particles_100um := ucast v \<rparr>) s p
      else if fld = 13 then on_read pb_read_varint (\<lambda>v. s\<lparr> aq_co2 := ucast v \<rparr>) s p
      else if fld = 14 then
           on_read pb_read_fixed32 (\<lambda>v. s\<lparr> aq_co2_temperature_c := v \<rparr>) s p
      else if fld = 15 then on_read pb_read_fixed32 (\<lambda>v. s\<lparr> aq_co2_humidity := v \<rparr>) s p
      else if fld = 16 then
           on_read pb_read_fixed32 (\<lambda>v. s\<lparr> aq_formaldehyde_ppb := v \<rparr>) s p
      else if fld = 17 then on_read pb_read_fixed32 (\<lambda>v. s\<lparr> aq_form_humidity := v \<rparr>) s p
      else if fld = 18 then
           on_read pb_read_fixed32 (\<lambda>v. s\<lparr> aq_form_temperature_c := v \<rparr>) s p
      else if fld = 19 then
           on_read pb_read_varint (\<lambda>v. s\<lparr> aq_pm40_standard := ucast v \<rparr>) s p
      else if fld = 20 then
           on_read pb_read_varint (\<lambda>v. s\<lparr> aq_particles_40um := ucast v \<rparr>) s p
      else if fld = 21 then
           on_read pb_read_fixed32 (\<lambda>v. s\<lparr> aq_pm_temperature_c := v \<rparr>) s p
      else if fld = 22 then on_read pb_read_fixed32 (\<lambda>v. s\<lparr> aq_pm_humidity := v \<rparr>) s p
      else if fld = 23 then on_read pb_read_fixed32 (\<lambda>v. s\<lparr> aq_pm_voc_idx := v \<rparr>) s p
      else if fld = 24 then on_read pb_read_fixed32 (\<lambda>v. s\<lparr> aq_pm_nox_idx := v \<rparr>) s p
      else if fld = 25 then on_read pb_read_fixed32 (\<lambda>v. s\<lparr> aq_particles_tps := v \<rparr>) s p
      else on_skip s wt p)"

definition parse_air_quality :: "bytes \<Rightarrow> air_quality \<Rightarrow> air_quality" where
  "parse_air_quality buf s =
     (case pb_loop aq_field s buf of (PB_DONE, s) \<Rightarrow> s\<lparr> aq_have := True \<rparr> | (_, s) \<Rightarrow> s)"

subsection \<open>Local statistics\<close>

record local_stats =
  ls_have :: bool
  ls_uptime_s :: u32
  ls_channel_utilization :: u32
  ls_air_util_tx :: u32
  ls_num_packets_tx :: u32
  ls_num_packets_rx :: u32
  ls_num_packets_rx_bad :: u32
  ls_num_online_nodes :: u32
  ls_num_total_nodes :: u32
  ls_num_rx_dupe :: u32
  ls_num_tx_relay :: u32
  ls_num_tx_relay_canceled :: u32
  ls_heap_total_bytes :: u32
  ls_heap_free_bytes :: u32
  ls_num_tx_dropped :: u32
  ls_noise_floor_dbm :: int

definition local_stats0 :: local_stats where
  "local_stats0 = \<lparr> ls_have = False, ls_uptime_s = 0, ls_channel_utilization = 0,
     ls_air_util_tx = 0, ls_num_packets_tx = 0, ls_num_packets_rx = 0, ls_num_packets_rx_bad = 0,
     ls_num_online_nodes = 0, ls_num_total_nodes = 0, ls_num_rx_dupe = 0, ls_num_tx_relay = 0,
     ls_num_tx_relay_canceled = 0, ls_heap_total_bytes = 0, ls_heap_free_bytes = 0,
     ls_num_tx_dropped = 0, ls_noise_floor_dbm = 0 \<rparr>"

definition local_field :: "local_stats field_step" where
  "local_field s fld wt p =
     (if fld = 1 then on_read pb_read_varint (\<lambda>v. s\<lparr> ls_uptime_s := ucast v \<rparr>) s p
      else if fld = 2 then
           on_read pb_read_fixed32 (\<lambda>v. s\<lparr> ls_channel_utilization := v \<rparr>) s p
      else if fld = 3 then on_read pb_read_fixed32 (\<lambda>v. s\<lparr> ls_air_util_tx := v \<rparr>) s p
      else if fld = 4 then
           on_read pb_read_varint (\<lambda>v. s\<lparr> ls_num_packets_tx := ucast v \<rparr>) s p
      else if fld = 5 then
           on_read pb_read_varint (\<lambda>v. s\<lparr> ls_num_packets_rx := ucast v \<rparr>) s p
      else if fld = 6 then
           on_read pb_read_varint (\<lambda>v. s\<lparr> ls_num_packets_rx_bad := ucast v \<rparr>) s p
      else if fld = 7 then
           on_read pb_read_varint (\<lambda>v. s\<lparr> ls_num_online_nodes := ucast v \<rparr>) s p
      else if fld = 8 then
           on_read pb_read_varint (\<lambda>v. s\<lparr> ls_num_total_nodes := ucast v \<rparr>) s p
      else if fld = 9 then
           on_read pb_read_varint (\<lambda>v. s\<lparr> ls_num_rx_dupe := ucast v \<rparr>) s p
      else if fld = 10 then
           on_read pb_read_varint (\<lambda>v. s\<lparr> ls_num_tx_relay := ucast v \<rparr>) s p
      else if fld = 11 then
           on_read pb_read_varint (\<lambda>v. s\<lparr> ls_num_tx_relay_canceled := ucast v \<rparr>) s p
      else if fld = 12 then
           on_read pb_read_varint (\<lambda>v. s\<lparr> ls_heap_total_bytes := ucast v \<rparr>) s p
      else if fld = 13 then
           on_read pb_read_varint (\<lambda>v. s\<lparr> ls_heap_free_bytes := ucast v \<rparr>) s p
      else if fld = 14 then
           on_read pb_read_varint (\<lambda>v. s\<lparr> ls_num_tx_dropped := ucast v \<rparr>) s p
      else if fld = 15 then
           on_read pb_read_varint (\<lambda>v. s\<lparr> ls_noise_floor_dbm := sint (ucast v :: u32) \<rparr>) s p
      else on_skip s wt p)"

definition parse_local_stats :: "bytes \<Rightarrow> local_stats \<Rightarrow> local_stats" where
  "parse_local_stats buf s =
     (case pb_loop local_field s buf of (PB_DONE, s) \<Rightarrow> s\<lparr> ls_have := True \<rparr> | (_, s) \<Rightarrow> s)"

subsection \<open>Health\<close>

record health_metrics =
  hm_have :: bool
  hm_heart_bpm :: u32
  hm_spo2 :: u32
  hm_temperature_c :: u32

definition health_metrics0 :: health_metrics where
  "health_metrics0 = \<lparr> hm_have = False, hm_heart_bpm = 0, hm_spo2 = 0,
     hm_temperature_c = 0 \<rparr>"

definition health_field :: "health_metrics field_step" where
  "health_field s fld wt p =
     (if fld = 1 then on_read pb_read_varint (\<lambda>v. s\<lparr> hm_heart_bpm := ucast v \<rparr>) s p
      else if fld = 2 then on_read pb_read_varint (\<lambda>v. s\<lparr> hm_spo2 := ucast v \<rparr>) s p
      else if fld = 3 then on_read pb_read_fixed32 (\<lambda>v. s\<lparr> hm_temperature_c := v \<rparr>) s p
      else on_skip s wt p)"

definition parse_health :: "bytes \<Rightarrow> health_metrics \<Rightarrow> health_metrics" where
  "parse_health buf s =
     (case pb_loop health_field s buf of (PB_DONE, s) \<Rightarrow> s\<lparr> hm_have := True \<rparr> | (_, s) \<Rightarrow> s)"

subsection \<open>Host\<close>

record host_metrics =
  ho_have :: bool
  ho_uptime_s :: u32
  ho_freemem_bytes :: u64
  ho_diskfree1_bytes :: u64
  ho_diskfree2_bytes :: u64
  ho_diskfree3_bytes :: u64
  ho_load1_x100 :: u32
  ho_load5_x100 :: u32
  ho_load15_x100 :: u32
  ho_user_string :: bytes

definition host_metrics0 :: host_metrics where
  "host_metrics0 = \<lparr> ho_have = False, ho_uptime_s = 0, ho_freemem_bytes = 0,
     ho_diskfree1_bytes = 0, ho_diskfree2_bytes = 0, ho_diskfree3_bytes = 0, ho_load1_x100 = 0,
     ho_load5_x100 = 0, ho_load15_x100 = 0, ho_user_string = [] \<rparr>"

definition host_field :: "host_metrics field_step" where
  "host_field s fld wt p =
     (if fld = 1 then on_read pb_read_varint (\<lambda>v. s\<lparr> ho_uptime_s := ucast v \<rparr>) s p
      else if fld = 2 then on_read pb_read_varint (\<lambda>v. s\<lparr> ho_freemem_bytes := v \<rparr>) s p
      else if fld = 3 then on_read pb_read_varint (\<lambda>v. s\<lparr> ho_diskfree1_bytes := v \<rparr>) s p
      else if fld = 4 then on_read pb_read_varint (\<lambda>v. s\<lparr> ho_diskfree2_bytes := v \<rparr>) s p
      else if fld = 5 then on_read pb_read_varint (\<lambda>v. s\<lparr> ho_diskfree3_bytes := v \<rparr>) s p
      else if fld = 6 then
           on_read pb_read_varint (\<lambda>v. s\<lparr> ho_load1_x100 := ucast v \<rparr>) s p
      else if fld = 7 then
           on_read pb_read_varint (\<lambda>v. s\<lparr> ho_load5_x100 := ucast v \<rparr>) s p
      else if fld = 8 then
           on_read pb_read_varint (\<lambda>v. s\<lparr> ho_load15_x100 := ucast v \<rparr>) s p
      else if fld = 9 then
           on_read pb_read_length (\<lambda>v. s\<lparr> ho_user_string := copy_str 64 v \<rparr>) s p
      else on_skip s wt p)"

definition parse_host :: "bytes \<Rightarrow> host_metrics \<Rightarrow> host_metrics" where
  "parse_host buf s =
     (case pb_loop host_field s buf of (PB_DONE, s) \<Rightarrow> s\<lparr> ho_have := True \<rparr> | (_, s) \<Rightarrow> s)"

subsection \<open>Traffic management\<close>

record traffic_mgmt =
  tm_have :: bool
  tm_packets_inspected :: u32
  tm_position_dedup_drops :: u32
  tm_nodeinfo_cache_hits :: u32
  tm_rate_limit_drops :: u32
  tm_unknown_packet_drops :: u32
  tm_hop_exhausted_packets :: u32
  tm_router_hops_preserved :: u32

definition traffic_mgmt0 :: traffic_mgmt where
  "traffic_mgmt0 = \<lparr> tm_have = False, tm_packets_inspected = 0, tm_position_dedup_drops = 0,
     tm_nodeinfo_cache_hits = 0, tm_rate_limit_drops = 0, tm_unknown_packet_drops = 0,
     tm_hop_exhausted_packets = 0, tm_router_hops_preserved = 0 \<rparr>"

definition traffic_field :: "traffic_mgmt field_step" where
  "traffic_field s fld wt p =
     (if fld = 1 then
          on_read pb_read_varint (\<lambda>v. s\<lparr> tm_packets_inspected := ucast v \<rparr>) s p
      else if fld = 2 then
           on_read pb_read_varint (\<lambda>v. s\<lparr> tm_position_dedup_drops := ucast v \<rparr>) s p
      else if fld = 3 then
           on_read pb_read_varint (\<lambda>v. s\<lparr> tm_nodeinfo_cache_hits := ucast v \<rparr>) s p
      else if fld = 4 then
           on_read pb_read_varint (\<lambda>v. s\<lparr> tm_rate_limit_drops := ucast v \<rparr>) s p
      else if fld = 5 then
           on_read pb_read_varint (\<lambda>v. s\<lparr> tm_unknown_packet_drops := ucast v \<rparr>) s p
      else if fld = 6 then
           on_read pb_read_varint (\<lambda>v. s\<lparr> tm_hop_exhausted_packets := ucast v \<rparr>) s p
      else if fld = 7 then
           on_read pb_read_varint (\<lambda>v. s\<lparr> tm_router_hops_preserved := ucast v \<rparr>) s p
      else on_skip s wt p)"

definition parse_traffic_mgmt :: "bytes \<Rightarrow> traffic_mgmt \<Rightarrow> traffic_mgmt" where
  "parse_traffic_mgmt buf s =
     (case pb_loop traffic_field s buf of (PB_DONE, s) \<Rightarrow> s\<lparr> tm_have := True \<rparr> | (_, s) \<Rightarrow> s)"

subsection \<open>The union\<close>

record mesh_telemetry =
  tel_time_unix :: u32
  tel_device :: device_metrics
  tel_env :: env_metrics
  tel_power :: power_metrics
  tel_air :: air_quality
  tel_local :: local_stats
  tel_health :: health_metrics
  tel_host :: host_metrics
  tel_traffic :: traffic_mgmt
  tel_any :: bool

text \<open>\<^verbatim>\<open>tel_any\<close> is the local variable \<^verbatim>\<open>any\<close> of the loop, the value returned on every exit.\<close>

definition mesh_telemetry0 :: mesh_telemetry where
  "mesh_telemetry0 = \<lparr> tel_time_unix = 0, tel_device = device_metrics0, tel_env = env_metrics0,
     tel_power = power_metrics0, tel_air = air_quality0, tel_local = local_stats0,
     tel_health = health_metrics0, tel_host = host_metrics0, tel_traffic = traffic_mgmt0,
     tel_any = False \<rparr>"

definition telemetry_field :: "mesh_telemetry field_step" where
  "telemetry_field s fld wt p =
     (if fld = 1 then on_read pb_read_fixed32 (\<lambda>v. s\<lparr> tel_time_unix := v, tel_any := True \<rparr>) s p
      else if fld = 2 then on_read pb_read_length
        (\<lambda>b. s\<lparr> tel_device := parse_device_metrics b (tel_device s), tel_any := True \<rparr>) s p
      else if fld = 3 then on_read pb_read_length
        (\<lambda>b. s\<lparr> tel_env := parse_env_metrics b (tel_env s), tel_any := True \<rparr>) s p
      else if fld = 4 then on_read pb_read_length
        (\<lambda>b. s\<lparr> tel_air := parse_air_quality b (tel_air s), tel_any := True \<rparr>) s p
      else if fld = 5 then on_read pb_read_length
        (\<lambda>b. s\<lparr> tel_power := parse_power_metrics b (tel_power s), tel_any := True \<rparr>) s p
      else if fld = 6 then on_read pb_read_length
        (\<lambda>b. s\<lparr> tel_local := parse_local_stats b (tel_local s), tel_any := True \<rparr>) s p
      else if fld = 7 then on_read pb_read_length
        (\<lambda>b. s\<lparr> tel_health := parse_health b (tel_health s), tel_any := True \<rparr>) s p
      else if fld = 8 then on_read pb_read_length
        (\<lambda>b. s\<lparr> tel_host := parse_host b (tel_host s), tel_any := True \<rparr>) s p
      else if fld = 9 then on_read pb_read_length
        (\<lambda>b. s\<lparr> tel_traffic := parse_traffic_mgmt b (tel_traffic s), tel_any := True \<rparr>) s p
      else on_skip s wt p)"

definition mesh_decode_telemetry :: "bytes \<Rightarrow> bool \<times> mesh_telemetry" where
  "mesh_decode_telemetry buf =
     (let out = snd (pb_loop telemetry_field mesh_telemetry0 buf) in (tel_any out, out))"

subsection \<open>The cursor never moves back\<close>

lemmas read_le = on_skip_le varint.on_read_le fixed32.on_read_le len.on_read_le

interpretation device: field_decoder device_field
  by unfold_locales (auto simp: device_field_def split: if_splits dest: read_le)

interpretation env: field_decoder env_field
  by unfold_locales (auto simp: env_field_def split: if_splits dest: position_le)

interpretation power: field_decoder power_field
  by unfold_locales (auto simp: power_field_def split: if_splits dest: read_le)

interpretation aq: field_decoder aq_field
  by unfold_locales (auto simp: aq_field_def split: if_splits dest: read_le)

interpretation local: field_decoder local_field
  by unfold_locales (auto simp: local_field_def split: if_splits dest: read_le)

interpretation health: field_decoder health_field
  by unfold_locales (auto simp: health_field_def split: if_splits dest: read_le)

interpretation host: field_decoder host_field
  by unfold_locales (auto simp: host_field_def split: if_splits dest: read_le)

interpretation traffic: field_decoder traffic_field
  by unfold_locales (auto simp: traffic_field_def split: if_splits dest: read_le)

interpretation telemetry: field_decoder telemetry_field
  by unfold_locales (auto simp: telemetry_field_def split: if_splits dest: read_le)

subsection \<open>Nested messages\<close>

text \<open>The meaning of a device-metrics message, field by field.\<close>

definition device_upd :: "u32 \<Rightarrow> wire_value \<Rightarrow> device_metrics \<Rightarrow> device_metrics" where
  "device_upd fld w s = (case w of
      Varint v \<Rightarrow> if fld = 1 then s\<lparr> dm_battery_level := ucast v \<rparr>
                   else if fld = 5 then s\<lparr> dm_uptime_seconds := ucast v \<rparr> else s
    | Fixed32 v \<Rightarrow> if fld = 2 then s\<lparr> dm_voltage := v \<rparr>
                    else if fld = 3 then s\<lparr> dm_channel_utilization := v \<rparr>
                    else if fld = 4 then s\<lparr> dm_air_util_tx := v \<rparr> else s
    | _ \<Rightarrow> s)"

text \<open>Fields 1 to 5 carry the wire type of the schema; other fields may carry any.\<close>

definition device_accepts :: "u32 \<Rightarrow> wire_value \<Rightarrow> bool" where
  "device_accepts fld w \<longleftrightarrow> (fld = 1 \<or> fld = 5 \<longrightarrow> (\<exists>v. w = Varint v))
     \<and> (fld = 2 \<or> fld = 3 \<or> fld = 4 \<longrightarrow> (\<exists>v. w = Fixed32 v))"

interpretation device_msg: message_decoder device_field device_upd device_accepts
proof
  fix fld :: u32 and v :: wire_value and s rest
  assume "device_accepts fld v" "wire_ok v"
  then show "device_field s fld (wire_type_of v) (wire_bytes v @ rest) = (device_upd fld v s, Some rest)"
    using on_skip_wire [OF \<open>wire_ok v\<close>, of s rest]
    by (cases v) (auto simp: device_field_def device_upd_def device_accepts_def on_read_wire
        simp del: wire_type_of.simps wire_bytes.simps)
qed

text \<open>
  A telemetry message that carries a time and a device-metrics sub-message decodes to
  exactly the time and the metrics the sender wrote, marks the device part as present
  and every other part as absent, for every sequence of schema-conforming fields in
  the sub-message.
\<close>

lemma telemetry_device_roundtrip:
  assumes "\<forall>(fld, v)\<in>set fs. device_accepts fld v \<and> wire_ok v" and "length (pb_message fs) < 2 ^ 64"
  shows "mesh_decode_telemetry (pb_message [(1, Fixed32 t), (2, Len (pb_message fs))]) =
    (True, mesh_telemetry0\<lparr> tel_time_unix := t, tel_any := True,
       tel_device := (fold (\<lambda>(fld, v). device_upd fld v) fs device_metrics0)\<lparr> dm_have := True \<rparr> \<rparr>)"
proof -
  let ?sub = "pb_message fs" and ?dev = "(fold (\<lambda>(fld, v). device_upd fld v) fs device_metrics0)\<lparr> dm_have := True \<rparr>"
  have dev: "parse_device_metrics ?sub device_metrics0 = ?dev"
    using device_msg.decode_message [OF assms(1), of device_metrics0] by (simp add: parse_device_metrics_def)
  have msg: "pb_message [(1, Fixed32 t), (2, Len ?sub)] =
      pb_tag 1 (wire_type_of (Fixed32 t)) @ wire_bytes (Fixed32 t)
        @ pb_tag 2 (wire_type_of (Len ?sub)) @ wire_bytes (Len ?sub) @ []"
    by (simp add: pb_message_def [of "[(1, Fixed32 t), (2, Len ?sub)]"] pb_field_def)
  let ?s1 = "mesh_telemetry0\<lparr> tel_time_unix := t, tel_any := True \<rparr>"
  have f1: "telemetry_field mesh_telemetry0 1 wt (wire_bytes (Fixed32 t) @ rest) = (?s1, Some rest)" for wt rest
    by (simp add: telemetry_field_def on_read_wire del: wire_bytes.simps)
  have f2: "telemetry_field ?s1 2 wt (wire_bytes (Len ?sub) @ rest) = (?s1\<lparr> tel_device := ?dev \<rparr>, Some rest)" for wt rest
    using assms(2) dev by (simp add: telemetry_field_def mesh_telemetry0_def on_read_wire del: wire_bytes.simps)
  have "pb_loop telemetry_field mesh_telemetry0 (pb_message [(1, Fixed32 t), (2, Len ?sub)])
      = pb_loop telemetry_field (?s1\<lparr> tel_device := ?dev \<rparr>) []"
    unfolding msg telemetry.loop_field [OF wire_type_less f1] telemetry.loop_field [OF wire_type_less f2] ..
  then show ?thesis by (simp add: mesh_decode_telemetry_def telemetry.loop_unfold)
qed

end
