(* ===== verification/Mesh_Ports.thy ===== *)
theory Mesh_Ports
  imports Mesh_Telemetry
begin

text \<open>
  The remaining per-port decoders of \<^verbatim>\<open>src/mesh_decoders.c\<close>: routing, waypoint, neighbour
  info, key verification, map report, admin, traceroute, remote hardware, detection
  sensor, store-and-forward and paxcounter.  An array with its fill count is the list
  of the elements stored.
\<close>

subsection \<open>Repeated varints\<close>

text \<open>
  The loop over a packed block, \<^verbatim>\<open>while (p < end && n < max)\<close>; \<^verbatim>\<open>conv\<close> is the cast to the
  element type.
\<close>

function parse_packed :: "(u64 \<Rightarrow> 'e) \<Rightarrow> nat \<Rightarrow> bytes \<Rightarrow> 'e list \<Rightarrow> 'e list" where
  "parse_packed conv cap p arr =
     (if p \<noteq> [] \<and> length arr < cap then
        (case pb_read_varint p of
           (None, _) \<Rightarrow> arr
         | (Some v, q) \<Rightarrow> parse_packed conv cap q (arr @ [conv v]))
      else arr)"
  by pat_completeness auto
termination
  by (relation "measure (\<lambda>(_, _, p, _). length p)") (auto dest: varint.progress [OF sym])

declare parse_packed.simps [simp del]

definition parse_packed_uint32 :: "nat \<Rightarrow> bytes \<Rightarrow> u32 list \<Rightarrow> u32 list" where
  "parse_packed_uint32 cap p arr = parse_packed ucast cap p arr"

text \<open>\<^verbatim>\<open>arr[n++] = v\<close> guarded by the capacity.\<close>

definition push_capped :: "nat \<Rightarrow> 'e \<Rightarrow> 'e list \<Rightarrow> 'e list" where
  "push_capped cap v arr = (if length arr < cap then arr @ [v] else arr)"

definition append_repeated_u32 :: "u32 \<Rightarrow> nat \<Rightarrow> u32 list \<Rightarrow> bytes \<Rightarrow> u32 list \<times> bytes option" where
  "append_repeated_u32 wt cap arr p =
     (if wt = 0 then on_read pb_read_varint (\<lambda>v. push_capped cap (ucast v) arr) arr p
      else if wt = 2 then on_read pb_read_length (\<lambda>b. parse_packed_uint32 cap b arr) arr p
      else on_skip arr wt p)"

text \<open>\<^verbatim>\<open>(int8_t)(int32_t)v\<close> keeps the low byte as a signed number.\<close>

definition to_i8 :: "u64 \<Rightarrow> int" where
  "to_i8 v = sint (ucast v :: byte)"

definition append_repeated_i8 :: "u32 \<Rightarrow> nat \<Rightarrow> int list \<Rightarrow> bytes \<Rightarrow> int list \<times> bytes option" where
  "append_repeated_i8 wt cap arr p =
     (if wt = 0 then on_read pb_read_varint (\<lambda>v. push_capped cap (to_i8 v) arr) arr p
      else if wt = 2 then on_read pb_read_length (\<lambda>b. parse_packed to_i8 cap b arr) arr p
      else on_skip arr wt p)"

subsection \<open>Routing\<close>

datatype mesh_routing_kind = MESH_ROUTING_NONE | MESH_ROUTING_REQUEST | MESH_ROUTING_REPLY | MESH_ROUTING_ERROR

record mesh_routing =
  rt_kind :: mesh_routing_kind
  rt_error_reason :: u32
  rt_route :: "u32 list"
  rt_have_error :: bool

definition mesh_routing0 :: mesh_routing where
  "mesh_routing0 = \<lparr> rt_kind = MESH_ROUTING_NONE, rt_error_reason = 0, rt_route = [], rt_have_error = False \<rparr>"

definition route_discovery_field :: "mesh_routing field_step" where
  "route_discovery_field s fld wt p =
     (if fld = 1 then
        (if wt = 0 then on_read pb_read_varint (\<lambda>v. s\<lparr> rt_route := push_capped 16 (ucast v) (rt_route s) \<rparr>) s p
         else if wt = 2 then on_read pb_read_length (\<lambda>b. s\<lparr> rt_route := parse_packed ucast 16 b (rt_route s) \<rparr>) s p
         else on_skip s wt p)
      else on_skip s wt p)"

definition parse_route_discovery :: "bytes \<Rightarrow> mesh_routing \<Rightarrow> mesh_routing" where
  "parse_route_discovery buf s = snd (pb_loop route_discovery_field s buf)"

definition routing_field :: "mesh_routing field_step" where
  "routing_field s fld wt p =
     (if fld = 1 then on_read pb_read_length
        (\<lambda>b. parse_route_discovery b (s\<lparr> rt_kind := MESH_ROUTING_REQUEST \<rparr>)) s p
      else if fld = 2 then on_read pb_read_length
        (\<lambda>b. parse_route_discovery b (s\<lparr> rt_kind := MESH_ROUTING_REPLY \<rparr>)) s p
      else if fld = 3 then on_read pb_read_varint
        (\<lambda>v. s\<lparr> rt_kind := MESH_ROUTING_ERROR, rt_error_reason := ucast v, rt_have_error := True \<rparr>) s p
      else on_skip s wt p)"

definition mesh_decode_routing :: "bytes \<Rightarrow> bool \<times> mesh_routing" where
  "mesh_decode_routing buf =
     (case pb_loop routing_field mesh_routing0 buf of
        (PB_DONE, out) \<Rightarrow> (rt_kind out \<noteq> MESH_ROUTING_NONE, out)
      | (_, out) \<Rightarrow> (False, out))"

subsection \<open>Waypoint\<close>

record mesh_waypoint =
  wp_id :: u32
  wp_have_lat :: bool
  wp_have_lon :: bool
  wp_lat_i :: int
  wp_lon_i :: int
  wp_expire :: u32
  wp_locked_to :: u32
  wp_name :: bytes
  wp_description :: bytes
  wp_icon :: u32

definition mesh_waypoint0 :: mesh_waypoint where
  "mesh_waypoint0 = \<lparr> wp_id = 0, wp_have_lat = False, wp_have_lon = False, wp_lat_i = 0,
     wp_lon_i = 0, wp_expire = 0, wp_locked_to = 0, wp_name = [], wp_description = [],
     wp_icon = 0 \<rparr>"

definition waypoint_field :: "mesh_waypoint field_step" where
  "waypoint_field s fld wt p =
     (if fld = 1 then on_read pb_read_varint (\<lambda>v. s\<lparr> wp_id := ucast v \<rparr>) s p
      else if fld = 2 then
           on_read pb_read_fixed32 (\<lambda>v. s\<lparr> wp_lat_i := sint v, wp_have_lat := True \<rparr>) s p
      else if fld = 3 then
           on_read pb_read_fixed32 (\<lambda>v. s\<lparr> wp_lon_i := sint v, wp_have_lon := True \<rparr>) s p
      else if fld = 4 then on_read pb_read_varint (\<lambda>v. s\<lparr> wp_expire := ucast v \<rparr>) s p
      else if fld = 5 then on_read pb_read_varint (\<lambda>v. s\<lparr> wp_locked_to := ucast v \<rparr>) s p
      else if fld = 6 then
           on_read pb_read_length (\<lambda>v. s\<lparr> wp_name := copy_str 32 v \<rparr>) s p
      else if fld = 7 then
           on_read pb_read_length (\<lambda>v. s\<lparr> wp_description := copy_str 80 v \<rparr>) s p
      else if fld = 8 then on_read pb_read_fixed32 (\<lambda>v. s\<lparr> wp_icon := v \<rparr>) s p
      else on_skip s wt p)"

definition mesh_decode_waypoint :: "bytes \<Rightarrow> bool \<times> mesh_waypoint" where
  "mesh_decode_waypoint buf =
     (case pb_loop waypoint_field mesh_waypoint0 buf of
        (PB_DONE, out) \<Rightarrow> (wp_have_lat out \<or> wp_have_lon out \<or> c_str (wp_name out) \<noteq> [], out)
      | (_, out) \<Rightarrow> (False, out))"

subsection \<open>Neighbour info\<close>

record mesh_neighbor =
  nb_node_id :: u32
  nb_snr_db :: u32
  nb_last_rx_time :: u32
  nb_node_broadcast_interval_secs :: u32

definition mesh_neighbor0 :: mesh_neighbor where
  "mesh_neighbor0 = \<lparr> nb_node_id = 0, nb_snr_db = 0, nb_last_rx_time = 0, nb_node_broadcast_interval_secs = 0 \<rparr>"

definition neighbor_field :: "mesh_neighbor field_step" where
  "neighbor_field s fld wt p =
     (if fld = 1 then on_read pb_read_varint (\<lambda>v. s\<lparr> nb_node_id := ucast v \<rparr>) s p
      else if fld = 2 then on_read pb_read_fixed32 (\<lambda>v. s\<lparr> nb_snr_db := v \<rparr>) s p
      else if fld = 3 then on_read pb_read_fixed32 (\<lambda>v. s\<lparr> nb_last_rx_time := v \<rparr>) s p
      else if fld = 4 then
           on_read pb_read_varint (\<lambda>v. s\<lparr> nb_node_broadcast_interval_secs := ucast v \<rparr>) s p
      else on_skip s wt p)"

definition parse_one_neighbor :: "bytes \<Rightarrow> mesh_neighbor" where
  "parse_one_neighbor buf = snd (pb_loop neighbor_field mesh_neighbor0 buf)"

record mesh_neighborinfo =
  ni_node_id :: u32
  ni_last_sent_by_id :: u32
  ni_node_broadcast_interval_secs :: u32
  ni_neighbors :: "mesh_neighbor list"

definition mesh_neighborinfo0 :: mesh_neighborinfo where
  "mesh_neighborinfo0 = \<lparr> ni_node_id = 0, ni_last_sent_by_id = 0, ni_node_broadcast_interval_secs = 0, ni_neighbors = [] \<rparr>"

definition neighborinfo_field :: "mesh_neighborinfo field_step" where
  "neighborinfo_field s fld wt p =
     (if fld = 1 then on_read pb_read_varint (\<lambda>v. s\<lparr> ni_node_id := ucast v \<rparr>) s p
      else if fld = 2 then
           on_read pb_read_varint (\<lambda>v. s\<lparr> ni_last_sent_by_id := ucast v \<rparr>) s p
      else if fld = 3 then
           on_read pb_read_varint (\<lambda>v. s\<lparr> ni_node_broadcast_interval_secs := ucast v \<rparr>) s p
      else if fld = 4 then
           on_read pb_read_length (\<lambda>v. (if length (ni_neighbors s) < 16 then s\<lparr> ni_neighbors := ni_neighbors s @ [parse_one_neighbor v] \<rparr> else s)) s p
      else on_skip s wt p)"

definition mesh_decode_neighborinfo :: "bytes \<Rightarrow> bool \<times> mesh_neighborinfo" where
  "mesh_decode_neighborinfo buf =
     (case pb_loop neighborinfo_field mesh_neighborinfo0 buf of
        (PB_DONE, out) \<Rightarrow> (ni_node_id out \<noteq> 0 \<or> ni_neighbors out \<noteq> [], out)
      | (_, out) \<Rightarrow> (False, out))"

subsection \<open>Key verification\<close>

record mesh_keyverif =
  kv_nonce :: u64
  kv_hash1_len :: int
  kv_hash2_len :: int

definition mesh_keyverif0 :: mesh_keyverif where
  "mesh_keyverif0 = \<lparr> kv_nonce = 0, kv_hash1_len = 0, kv_hash2_len = 0 \<rparr>"

definition keyverif_field :: "mesh_keyverif field_step" where
  "keyverif_field s fld wt p =
     (if fld = 1 then on_read pb_read_varint (\<lambda>v. s\<lparr> kv_nonce := v \<rparr>) s p
      else if fld = 2 then
           on_read pb_read_length (\<lambda>v. s\<lparr> kv_hash1_len := int (length v) \<rparr>) s p
      else if fld = 3 then
           on_read pb_read_length (\<lambda>v. s\<lparr> kv_hash2_len := int (length v) \<rparr>) s p
      else on_skip s wt p)"

definition mesh_decode_keyverif :: "bytes \<Rightarrow> bool \<times> mesh_keyverif" where
  "mesh_decode_keyverif buf =
     (case pb_loop keyverif_field mesh_keyverif0 buf of
        (PB_DONE, out) \<Rightarrow> (kv_nonce out \<noteq> 0 \<or> kv_hash1_len out \<noteq> 0 \<or> kv_hash2_len out \<noteq> 0, out)
      | (_, out) \<Rightarrow> (False, out))"

subsection \<open>Map report\<close>

record mesh_mapreport =
  mr_long_name :: bytes
  mr_short_name :: bytes
  mr_role :: u32
  mr_hw_model :: u32
  mr_firmware_version :: bytes
  mr_region :: u32
  mr_modem_preset :: u32
  mr_has_default_channel :: u32
  mr_have_lat :: bool
  mr_have_lon :: bool
  mr_lat_i :: int
  mr_lon_i :: int
  mr_altitude_m :: int
  mr_position_precision :: u32
  mr_num_online_local_nodes :: u32

definition mesh_mapreport0 :: mesh_mapreport where
  "mesh_mapreport0 = \<lparr> mr_long_name = [], mr_short_name = [], mr_role = 0, mr_hw_model = 0,
     mr_firmware_version = [], mr_region = 0, mr_modem_preset = 0, mr_has_default_channel = 0,
     mr_have_lat = False, mr_have_lon = False, mr_lat_i = 0, mr_lon_i = 0, mr_altitude_m = 0,
     mr_position_precision = 0, mr_num_online_local_nodes = 0 \<rparr>"

definition mapreport_field :: "mesh_mapreport field_step" where
  "mapreport_field s fld wt p =
     (if fld = 1 then
          on_read pb_read_length (\<lambda>v. s\<lparr> mr_long_name := copy_str 64 v \<rparr>) s p
      else if fld = 2 then
           on_read pb_read_length (\<lambda>v. s\<lparr> mr_short_name := copy_str 8 v \<rparr>) s p
      else if fld = 3 then on_read pb_read_varint (\<lambda>v. s\<lparr> mr_role := ucast v \<rparr>) s p
      else if fld = 4 then on_read pb_read_varint (\<lambda>v. s\<lparr> mr_hw_model := ucast v \<rparr>) s p
      else if fld = 5 then
           on_read pb_read_length (\<lambda>v. s\<lparr> mr_firmware_version := copy_str 24 v \<rparr>) s p
      else if fld = 6 then on_read pb_read_varint (\<lambda>v. s\<lparr> mr_region := ucast v \<rparr>) s p
      else if fld = 7 then
           on_read pb_read_varint (\<lambda>v. s\<lparr> mr_modem_preset := ucast v \<rparr>) s p
      else if fld = 8 then
           on_read pb_read_varint (\<lambda>v. s\<lparr> mr_has_default_channel := ucast v \<rparr>) s p
      else if fld = 9 then
           on_read pb_read_fixed32 (\<lambda>v. s\<lparr> mr_lat_i := sint v, mr_have_lat := True \<rparr>) s p
      else if fld = 10 then
           on_read pb_read_fixed32 (\<lambda>v. s\<lparr> mr_lon_i := sint v, mr_have_lon := True \<rparr>) s p
      else if fld = 11 then
           on_read pb_read_varint (\<lambda>v. s\<lparr> mr_altitude_m := sint (ucast v :: u32) \<rparr>) s p
      else if fld = 12 then
           on_read pb_read_varint (\<lambda>v. s\<lparr> mr_position_precision := ucast v \<rparr>) s p
      else if fld = 13 then
           on_read pb_read_varint (\<lambda>v. s\<lparr> mr_num_online_local_nodes := ucast v \<rparr>) s p
      else on_skip s wt p)"

definition mesh_decode_mapreport :: "bytes \<Rightarrow> bool \<times> mesh_mapreport" where
  "mesh_decode_mapreport buf =
     (case pb_loop mapreport_field mesh_mapreport0 buf of
        (PB_DONE, out) \<Rightarrow> (c_str (mr_long_name out) \<noteq> [] \<or> mr_have_lat out, out)
      | (_, out) \<Rightarrow> (False, out))"

subsection \<open>Admin\<close>

record mesh_admin =
  ad_variant_field :: u32
  ad_has_session_passkey :: bool

definition mesh_admin0 :: mesh_admin where
  "mesh_admin0 = \<lparr> ad_variant_field = 0, ad_has_session_passkey = False \<rparr>"

definition admin_field :: "mesh_admin field_step" where
  "admin_field s fld wt p =
     (if fld = 101 then on_read pb_read_length (\<lambda>b. s\<lparr> ad_has_session_passkey := length b > 0 \<rparr>) s p
      else on_skip (if ad_variant_field s = 0 \<and> fld \<noteq> 0 then s\<lparr> ad_variant_field := fld \<rparr> else s) wt p)"

definition mesh_decode_admin :: "bytes \<Rightarrow> bool \<times> mesh_admin" where
  "mesh_decode_admin buf =
     (case pb_loop admin_field mesh_admin0 buf of
        (PB_DONE, out) \<Rightarrow> (ad_variant_field out \<noteq> 0 \<or> ad_has_session_passkey out, out)
      | (_, out) \<Rightarrow> (False, out))"

subsection \<open>Traceroute\<close>

record mesh_traceroute =
  tr_route :: "u32 list"
  tr_snr_towards :: "int list"
  tr_route_back :: "u32 list"
  tr_snr_back :: "int list"

definition mesh_traceroute0 :: mesh_traceroute where
  "mesh_traceroute0 = \<lparr> tr_route = [], tr_snr_towards = [], tr_route_back = [], tr_snr_back = [] \<rparr>"

text \<open>The array of the field, updated by one of the two appenders, back in the struct.\<close>

definition into :: "('e \<Rightarrow> 's) \<Rightarrow> 'e \<times> bytes option \<Rightarrow> 's \<times> bytes option" where
  "into f r = (f (fst r), snd r)"

definition traceroute_field :: "mesh_traceroute field_step" where
  "traceroute_field s fld wt p =
     (if fld = 1 then into (\<lambda>a. s\<lparr> tr_route := a \<rparr>) (append_repeated_u32 wt 16 (tr_route s) p)
      else if fld = 2 then into (\<lambda>a. s\<lparr> tr_snr_towards := a \<rparr>) (append_repeated_i8 wt 16 (tr_snr_towards s) p)
      else if fld = 3 then into (\<lambda>a. s\<lparr> tr_route_back := a \<rparr>) (append_repeated_u32 wt 16 (tr_route_back s) p)
      else if fld = 4 then into (\<lambda>a. s\<lparr> tr_snr_back := a \<rparr>) (append_repeated_i8 wt 16 (tr_snr_back s) p)
      else on_skip s wt p)"

definition mesh_decode_traceroute :: "bytes \<Rightarrow> bool \<times> mesh_traceroute" where
  "mesh_decode_traceroute buf =
     (case pb_loop traceroute_field mesh_traceroute0 buf of
        (PB_DONE, out) \<Rightarrow> (tr_route out \<noteq> [] \<or> tr_route_back out \<noteq> [], out)
      | (_, out) \<Rightarrow> (False, out))"

subsection \<open>Remote hardware\<close>

record mesh_remote_hw =
  rh_type :: u32
  rh_gpio_mask :: u64
  rh_gpio_value :: u64

definition mesh_remote_hw0 :: mesh_remote_hw where
  "mesh_remote_hw0 = \<lparr> rh_type = 0, rh_gpio_mask = 0, rh_gpio_value = 0 \<rparr>"

definition remote_hw_field :: "mesh_remote_hw field_step" where
  "remote_hw_field s fld wt p =
     (if fld = 1 then on_read pb_read_varint (\<lambda>v. s\<lparr> rh_type := ucast v \<rparr>) s p
      else if fld = 2 then on_read pb_read_varint (\<lambda>v. s\<lparr> rh_gpio_mask := v \<rparr>) s p
      else if fld = 3 then on_read pb_read_varint (\<lambda>v. s\<lparr> rh_gpio_value := v \<rparr>) s p
      else on_skip s wt p)"

definition mesh_decode_remote_hw :: "bytes \<Rightarrow> bool \<times> mesh_remote_hw" where
  "mesh_decode_remote_hw buf =
     (case pb_loop remote_hw_field mesh_remote_hw0 buf of
        (PB_DONE, out) \<Rightarrow> (True, out)
      | (_, out) \<Rightarrow> (False, out))"

subsection \<open>Detection sensor\<close>

text \<open>Plain text, no protobuf: truncated to 127 bytes.\<close>

definition mesh_decode_detection :: "bytes \<Rightarrow> bool \<times> bytes" where
  "mesh_decode_detection buf =
     (let n = (if length buf < 128 - 1 then length buf else 128 - 1) in (n > 0, take n buf))"

subsection \<open>Store and forward\<close>

record mesh_storeforward =
  sf_rr :: u32
  sf_have_stats :: bool
  sf_stats_total :: u32
  sf_stats_history :: u32
  sf_stats_max :: u32
  sf_stats_up_time_s :: u32
  sf_stats_requests :: u32
  sf_have_history :: bool
  sf_hist_count :: u32
  sf_hist_window_s :: u32

definition mesh_storeforward0 :: mesh_storeforward where
  "mesh_storeforward0 = \<lparr> sf_rr = 0, sf_have_stats = False, sf_stats_total = 0,
     sf_stats_history = 0, sf_stats_max = 0, sf_stats_up_time_s = 0, sf_stats_requests = 0,
     sf_have_history = False, sf_hist_count = 0, sf_hist_window_s = 0 \<rparr>"

definition sf_stats_field :: "mesh_storeforward field_step" where
  "sf_stats_field s fld wt p =
     (if fld = 1 then on_read pb_read_varint (\<lambda>v. s\<lparr> sf_stats_total := ucast v \<rparr>) s p
      else if fld = 2 then
           on_read pb_read_varint (\<lambda>v. s\<lparr> sf_stats_history := ucast v \<rparr>) s p
      else if fld = 3 then on_read pb_read_varint (\<lambda>v. s\<lparr> sf_stats_max := ucast v \<rparr>) s p
      else if fld = 4 then
           on_read pb_read_varint (\<lambda>v. s\<lparr> sf_stats_up_time_s := ucast v \<rparr>) s p
      else if fld = 5 then
           on_read pb_read_varint (\<lambda>v. s\<lparr> sf_stats_requests := ucast v \<rparr>) s p
      else on_skip s wt p)"

definition sf_history_field :: "mesh_storeforward field_step" where
  "sf_history_field s fld wt p =
     (if fld = 1 then on_read pb_read_varint (\<lambda>v. s\<lparr> sf_hist_count := ucast v \<rparr>) s p
      else if fld = 2 then
           on_read pb_read_varint (\<lambda>v. s\<lparr> sf_hist_window_s := ucast v \<rparr>) s p
      else on_skip s wt p)"

definition sf_decode_stats :: "bytes \<Rightarrow> mesh_storeforward \<Rightarrow> bool \<times> mesh_storeforward" where
  "sf_decode_stats p out = (let r = pb_loop sf_stats_field out p in (fst r = PB_DONE, snd r))"

definition sf_decode_history :: "bytes \<Rightarrow> mesh_storeforward \<Rightarrow> bool \<times> mesh_storeforward" where
  "sf_decode_history p out = (let r = pb_loop sf_history_field out p in (fst r = PB_DONE, snd r))"

text \<open>The length prefix is read by hand here, with the same test as \<^verbatim>\<open>pb_read_length\<close>.\<close>

definition storeforward_field :: "mesh_storeforward field_step" where
  "storeforward_field s fld wt p =
     (if fld = 1 then on_read pb_read_varint (\<lambda>v. s\<lparr> sf_rr := ucast v \<rparr>) s p
      else if fld = 2 \<and> wt = 2 then
        (case pb_read_varint p of
           (None, _) \<Rightarrow> (s, None)
         | (Some sublen, q) \<Rightarrow>
             if length q < unat sublen then (s, None)
             else let (ok, s') = sf_decode_stats (take (unat sublen) q) s
                  in (if ok then s'\<lparr> sf_have_stats := True \<rparr> else s', Some (drop (unat sublen) q)))
      else if fld = 3 \<and> wt = 2 then
        (case pb_read_varint p of
           (None, _) \<Rightarrow> (s, None)
         | (Some sublen, q) \<Rightarrow>
             if length q < unat sublen then (s, None)
             else let (ok, s') = sf_decode_history (take (unat sublen) q) s
                  in (if ok then s'\<lparr> sf_have_history := True \<rparr> else s', Some (drop (unat sublen) q)))
      else on_skip s wt p)"

definition mesh_decode_storeforward :: "bytes \<Rightarrow> bool \<times> mesh_storeforward" where
  "mesh_decode_storeforward buf =
     (let r = pb_loop storeforward_field mesh_storeforward0 buf in (fst r = PB_DONE, snd r))"

definition SF_RR_NAMES :: "(u32 \<times> string) list" where
  "SF_RR_NAMES =
     [(0, ''UNSET''), (1, ''ROUTER_ERROR''), (2, ''ROUTER_HEARTBEAT''), (3, ''ROUTER_PING''),
      (4, ''ROUTER_PONG''), (5, ''ROUTER_BUSY''), (6, ''ROUTER_HISTORY''), (7, ''ROUTER_STATS''),
      (8, ''ROUTER_TEXT_DIRECT''), (9, ''ROUTER_TEXT_BROADCAST''), (64, ''CLIENT_ERROR''),
      (65, ''CLIENT_HISTORY''), (66, ''CLIENT_STATS''), (67, ''CLIENT_PING''), (68, ''CLIENT_PONG''),
      (106, ''CLIENT_ABORT'')]"

definition mesh_storeforward_rr_name :: "u32 \<Rightarrow> string option" where
  "mesh_storeforward_rr_name rr = map_of SF_RR_NAMES rr"

subsection \<open>Paxcounter\<close>

record mesh_paxcounter =
  px_wifi :: u32
  px_ble :: u32
  px_uptime_s :: u32

definition mesh_paxcounter0 :: mesh_paxcounter where
  "mesh_paxcounter0 = \<lparr> px_wifi = 0, px_ble = 0, px_uptime_s = 0 \<rparr>"

definition paxcounter_field :: "mesh_paxcounter field_step" where
  "paxcounter_field s fld wt p =
     (if fld = 1 then on_read pb_read_varint (\<lambda>v. s\<lparr> px_wifi := ucast v \<rparr>) s p
      else if fld = 2 then on_read pb_read_varint (\<lambda>v. s\<lparr> px_ble := ucast v \<rparr>) s p
      else if fld = 3 then on_read pb_read_varint (\<lambda>v. s\<lparr> px_uptime_s := ucast v \<rparr>) s p
      else on_skip s wt p)"

definition mesh_decode_paxcounter :: "bytes \<Rightarrow> bool \<times> mesh_paxcounter" where
  "mesh_decode_paxcounter buf =
     (case pb_loop paxcounter_field mesh_paxcounter0 buf of
        (PB_DONE, out) \<Rightarrow> (True, out)
      | (_, out) \<Rightarrow> (False, out))"

subsection \<open>The cursor never moves back\<close>

lemma append_u32_le: "append_repeated_u32 wt cap arr p = (a, Some r) \<Longrightarrow> length r \<le> length p"
  by (auto simp: append_repeated_u32_def split: if_splits dest: read_le)

lemma append_i8_le: "append_repeated_i8 wt cap arr p = (a, Some r) \<Longrightarrow> length r \<le> length p"
  by (auto simp: append_repeated_i8_def split: if_splits dest: read_le)

lemma into_Some: "into f r = (s, Some q) \<longleftrightarrow> (\<exists>a. r = (a, Some q) \<and> s = f a)"
  by (cases r) (auto simp: into_def)

interpretation route_discovery: field_decoder route_discovery_field
  by unfold_locales (auto simp: route_discovery_field_def split: if_splits dest: read_le)

interpretation routing: field_decoder routing_field
  by unfold_locales (auto simp: routing_field_def split: if_splits dest: read_le)

interpretation waypoint: field_decoder waypoint_field
  by unfold_locales (auto simp: waypoint_field_def split: if_splits dest: read_le)

interpretation neighbor: field_decoder neighbor_field
  by unfold_locales (auto simp: neighbor_field_def split: if_splits dest: read_le)

interpretation neighborinfo: field_decoder neighborinfo_field
  by unfold_locales (auto simp: neighborinfo_field_def split: if_splits dest: read_le)

interpretation keyverif: field_decoder keyverif_field
  by unfold_locales (auto simp: keyverif_field_def split: if_splits dest: read_le)

interpretation mapreport: field_decoder mapreport_field
  by unfold_locales (auto simp: mapreport_field_def split: if_splits dest: read_le)

interpretation admin: field_decoder admin_field
  by unfold_locales (auto simp: admin_field_def split: if_splits dest: read_le)

interpretation remote_hw: field_decoder remote_hw_field
  by unfold_locales (auto simp: remote_hw_field_def split: if_splits dest: read_le)

interpretation sf_stats: field_decoder sf_stats_field
  by unfold_locales (auto simp: sf_stats_field_def split: if_splits dest: read_le)

interpretation sf_history: field_decoder sf_history_field
  by unfold_locales (auto simp: sf_history_field_def split: if_splits dest: read_le)

interpretation storeforward: field_decoder storeforward_field
proof
  fix s s' :: mesh_storeforward and fld wt p r
  have le: "length (drop n q) \<le> length p" if "pb_read_varint p = (x, q)" for x q n
    using varint.rest_le [OF that] by simp
  assume "storeforward_field s fld wt p = (s', Some r)"
  then show "length r \<le> length p"
    by (auto simp: storeforward_field_def split_beta Let_def split: if_splits option.splits
        dest: read_le intro: le [OF surjective_pairing])
qed

interpretation paxcounter: field_decoder paxcounter_field
  by unfold_locales (auto simp: paxcounter_field_def split: if_splits dest: read_le)

subsection \<open>Fixed arrays\<close>

lemma length_push_capped [simp]: "length arr \<le> cap \<Longrightarrow> length (push_capped cap v arr) \<le> cap"
  by (simp add: push_capped_def)

lemma length_parse_packed [simp]: "length arr \<le> cap \<Longrightarrow> length (parse_packed conv cap p arr) \<le> cap"
proof (induction conv cap p arr rule: parse_packed.induct)
  case (1 conv cap p arr)
  then show ?case by (subst parse_packed.simps) (auto split: prod.splits option.splits)
qed

lemma append_u32_bound: "length arr \<le> cap \<Longrightarrow> length (fst (append_repeated_u32 wt cap arr p)) \<le> cap"
  by (simp add: append_repeated_u32_def parse_packed_uint32_def on_read_keeps [where P = "\<lambda>a. length a \<le> cap"]
      on_skip_keeps [where P = "\<lambda>a. length a \<le> cap"])

lemma append_i8_bound: "length arr \<le> cap \<Longrightarrow> length (fst (append_repeated_i8 wt cap arr p)) \<le> cap"
  by (simp add: append_repeated_i8_def on_read_keeps [where P = "\<lambda>a. length a \<le> cap"]
      on_skip_keeps [where P = "\<lambda>a. length a \<le> cap"])

lemma route_discovery_bound: "length (rt_route s) \<le> 16 \<Longrightarrow> length (rt_route (parse_route_discovery b s)) \<le> 16"
  unfolding parse_route_discovery_def
  by (rule pb_loop_invariant [where P = "\<lambda>s. length (rt_route s) \<le> 16"])
    (simp_all add: route_discovery_field_def on_read_keeps [where P = "\<lambda>s. length (rt_route s) \<le> 16"]
      on_skip_keeps [where P = "\<lambda>s. length (rt_route s) \<le> 16"])

lemma routing_bound: "length (rt_route (snd (mesh_decode_routing buf))) \<le> 16"
proof -
  have "length (rt_route (snd (pb_loop routing_field mesh_routing0 buf))) \<le> 16"
    by (rule pb_loop_invariant [where P = "\<lambda>s. length (rt_route s) \<le> 16"])
      (simp_all add: routing_field_def mesh_routing0_def route_discovery_bound
        on_read_keeps [where P = "\<lambda>s. length (rt_route s) \<le> 16"] on_skip_keeps [where P = "\<lambda>s. length (rt_route s) \<le> 16"])
  then show ?thesis by (auto simp: mesh_decode_routing_def split: prod.splits pb_end.splits)
qed

lemma neighborinfo_bound: "length (ni_neighbors (snd (mesh_decode_neighborinfo buf))) \<le> 16"
proof -
  have "length (ni_neighbors (snd (pb_loop neighborinfo_field mesh_neighborinfo0 buf))) \<le> 16"
    by (rule pb_loop_invariant [where P = "\<lambda>s. length (ni_neighbors s) \<le> 16"])
      (simp_all add: neighborinfo_field_def mesh_neighborinfo0_def
        on_read_keeps [where P = "\<lambda>s. length (ni_neighbors s) \<le> 16"] on_skip_keeps [where P = "\<lambda>s. length (ni_neighbors s) \<le> 16"])
  then show ?thesis by (auto simp: mesh_decode_neighborinfo_def split: prod.splits pb_end.splits)
qed

definition traceroute_bounds :: "mesh_traceroute \<Rightarrow> bool" where
  "traceroute_bounds s \<longleftrightarrow> length (tr_route s) \<le> 16 \<and> length (tr_snr_towards s) \<le> 16
     \<and> length (tr_route_back s) \<le> 16 \<and> length (tr_snr_back s) \<le> 16"

lemma traceroute_field_bounds: "traceroute_bounds s \<Longrightarrow> traceroute_bounds (fst (traceroute_field s fld wt p))"
  using on_skip_keeps [of traceroute_bounds s wt p]
  by (simp add: traceroute_field_def into_def) (simp add: traceroute_bounds_def append_u32_bound append_i8_bound)

lemma traceroute_bound: "traceroute_bounds (snd (mesh_decode_traceroute buf))"
proof -
  have "traceroute_bounds (snd (pb_loop traceroute_field mesh_traceroute0 buf))"
    by (rule pb_loop_invariant [where P = traceroute_bounds])
      (simp_all add: traceroute_field_bounds, simp add: traceroute_bounds_def mesh_traceroute0_def)
  then show ?thesis by (auto simp: mesh_decode_traceroute_def split: prod.splits pb_end.splits)
qed

definition waypoint_bounds :: "mesh_waypoint \<Rightarrow> bool" where
  "waypoint_bounds s \<longleftrightarrow> length (wp_name s) < 32 \<and> length (wp_description s) < 80"

lemma waypoint_bound: "waypoint_bounds (snd (mesh_decode_waypoint buf))"
proof -
  have "waypoint_bounds (fst (waypoint_field s fld wt p))" if "waypoint_bounds s" for s fld wt p
    using that by (auto simp: waypoint_field_def waypoint_bounds_def
        intro!: on_read_keeps [where P = waypoint_bounds, unfolded waypoint_bounds_def]
          on_skip_keeps [where P = waypoint_bounds, unfolded waypoint_bounds_def])
  then have "waypoint_bounds (snd (pb_loop waypoint_field mesh_waypoint0 buf))"
    by (intro pb_loop_invariant [where P = waypoint_bounds]) (simp_all add: waypoint_bounds_def mesh_waypoint0_def)
  then show ?thesis by (auto simp: mesh_decode_waypoint_def split: prod.splits pb_end.splits)
qed

definition mapreport_bounds :: "mesh_mapreport \<Rightarrow> bool" where
  "mapreport_bounds s \<longleftrightarrow> length (mr_long_name s) < 64 \<and> length (mr_short_name s) < 8
     \<and> length (mr_firmware_version s) < 24"

lemma mapreport_bound: "mapreport_bounds (snd (mesh_decode_mapreport buf))"
proof -
  have "mapreport_bounds (fst (mapreport_field s fld wt p))" if "mapreport_bounds s" for s fld wt p
    using that by (auto simp: mapreport_field_def mapreport_bounds_def
        intro!: on_read_keeps [where P = mapreport_bounds, unfolded mapreport_bounds_def]
          on_skip_keeps [where P = mapreport_bounds, unfolded mapreport_bounds_def])
  then have "mapreport_bounds (snd (pb_loop mapreport_field mesh_mapreport0 buf))"
    by (intro pb_loop_invariant [where P = mapreport_bounds]) (simp_all add: mapreport_bounds_def mesh_mapreport0_def)
  then show ?thesis by (auto simp: mesh_decode_mapreport_def split: prod.splits pb_end.splits)
qed


subsection \<open>Packed and unpacked repeated fields\<close>

lemma parse_packed_varints:
  "length arr \<le> cap \<Longrightarrow> parse_packed conv cap (concat (map pb_varint vs)) arr = take cap (arr @ map conv vs)"
proof (induction vs arbitrary: arr)
  case Nil
  then show ?case by (subst parse_packed.simps) simp
next
  case (Cons v vs)
  show ?case
  proof (cases "length arr < cap")
    case True
    then show ?thesis
      using Cons by (subst parse_packed.simps) (simp add: read_varint take_Cons')
  next
    case False
    then show ?thesis using Cons.prems by (subst parse_packed.simps) simp
  qed
qed

lemma fold_push_capped:
  "length arr \<le> cap \<Longrightarrow> fold (\<lambda>v. push_capped cap (conv v)) vs arr = take cap (arr @ map conv vs)"
  by (induction vs arbitrary: arr) (simp_all add: push_capped_def take_Cons')

text \<open>The meaning of a traceroute field in its three wire forms.\<close>

definition repeated_upd :: "(u64 \<Rightarrow> 'e) \<Rightarrow> wire_value \<Rightarrow> 'e list \<Rightarrow> 'e list" where
  "repeated_upd conv w arr = (case w of
      Varint v \<Rightarrow> push_capped 16 (conv v) arr
    | Len b \<Rightarrow> parse_packed conv 16 b arr
    | _ \<Rightarrow> arr)"

definition traceroute_upd :: "u32 \<Rightarrow> wire_value \<Rightarrow> mesh_traceroute \<Rightarrow> mesh_traceroute" where
  "traceroute_upd fld w s =
     (if fld = 1 then s\<lparr> tr_route := repeated_upd ucast w (tr_route s) \<rparr>
      else if fld = 2 then s\<lparr> tr_snr_towards := repeated_upd to_i8 w (tr_snr_towards s) \<rparr>
      else if fld = 3 then s\<lparr> tr_route_back := repeated_upd ucast w (tr_route_back s) \<rparr>
      else if fld = 4 then s\<lparr> tr_snr_back := repeated_upd to_i8 w (tr_snr_back s) \<rparr>
      else s)"

lemmas wire_consts = PB_WIRE_VARINT_def PB_WIRE_FIXED64_def PB_WIRE_LENGTH_def PB_WIRE_FIXED32_def

lemma append_u32_wire:
  assumes "wire_ok v"
  shows "append_repeated_u32 (wire_type_of v) 16 arr (wire_bytes v @ rest) = (repeated_upd ucast v arr, Some rest)"
  using assms on_skip_wire [OF assms, of arr rest]
  by (cases v) (simp_all add: append_repeated_u32_def repeated_upd_def parse_packed_uint32_def on_read_def
      read_varint read_length wire_consts)

lemma append_i8_wire:
  assumes "wire_ok v"
  shows "append_repeated_i8 (wire_type_of v) 16 arr (wire_bytes v @ rest) = (repeated_upd to_i8 v arr, Some rest)"
  using assms on_skip_wire [OF assms, of arr rest]
  by (cases v) (simp_all add: append_repeated_i8_def repeated_upd_def on_read_def read_varint read_length wire_consts)

interpretation traceroute: message_decoder traceroute_field traceroute_upd "\<lambda>_ _. True"
proof
  fix s s' :: mesh_traceroute and fld wt p r
  assume "traceroute_field s fld wt p = (s', Some r)"
  then show "length r \<le> length p"
    by (auto simp: traceroute_field_def into_Some split: if_splits dest: read_le append_u32_le append_i8_le)
next
  fix fld :: u32 and v :: wire_value and s rest
  assume "wire_ok v"
  then show "traceroute_field s fld (wire_type_of v) (wire_bytes v @ rest) = (traceroute_upd fld v s, Some rest)"
    by (simp add: traceroute_field_def traceroute_upd_def into_def append_u32_wire append_i8_wire on_skip_wire)
qed

lemma traceroute_unpacked_fold:
  "fold (\<lambda>(fld, v). traceroute_upd fld v) (map (\<lambda>v. (1, Varint v)) vs) s
     = s\<lparr> tr_route := fold (\<lambda>v. push_capped 16 (ucast v)) vs (tr_route s) \<rparr>"
  by (induction vs arbitrary: s) (simp_all add: traceroute_upd_def repeated_upd_def)

text \<open>
  A route sent packed and the same route sent one tag per element decode alike, to
  the first sixteen of its node numbers in order.
\<close>

lemma traceroute_packed_unpacked:
  assumes "length (concat (map pb_varint vs)) < 2 ^ 64"
  shows "mesh_decode_traceroute (pb_message [(1, Len (concat (map pb_varint vs)))])
      = mesh_decode_traceroute (pb_message (map (\<lambda>v. (1, Varint v)) vs))
    \<and> tr_route (snd (mesh_decode_traceroute (pb_message [(1, Len (concat (map pb_varint vs)))]))) = take 16 (map ucast vs)"
proof -
  have packed: "pb_loop traceroute_field mesh_traceroute0 (pb_message [(1, Len (concat (map pb_varint vs)))])
      = (PB_DONE, mesh_traceroute0\<lparr> tr_route := take 16 (map ucast vs) \<rparr>)"
    using assms by (subst traceroute.decode_message)
      (auto simp: traceroute_upd_def repeated_upd_def mesh_traceroute0_def parse_packed_varints)
  have unpacked: "pb_loop traceroute_field mesh_traceroute0 (pb_message (map (\<lambda>v. (1, Varint v)) vs))
      = (PB_DONE, mesh_traceroute0\<lparr> tr_route := take 16 (map ucast vs) \<rparr>)"
    by (subst traceroute.decode_message)
      (auto simp: traceroute_unpacked_fold fold_push_capped mesh_traceroute0_def)
  show ?thesis by (simp add: mesh_decode_traceroute_def packed unpacked)
qed

text \<open>
  A node number sent as the four little-endian bytes of a packed fixed32, the
  encoding the header file documents for the route, is not recovered: the bytes are
  read as varints.
\<close>

lemma traceroute_fixed32_route_misread:
  "tr_route (snd (mesh_decode_traceroute (pb_message [(1, Len (le_bytes 4 (0x12345678 :: u32)))]))) = [0x78, 0x56, 0x34, 0x12]"
proof -
  have bytes: "le_bytes 4 (0x12345678 :: u32) = concat (map pb_varint [0x78, 0x56, 0x34, 0x12])"
    by (simp add: le_bytes_def upt_rec drop_bit_eq_div pb_varint.simps)
  have packed: "parse_packed ucast 16 (le_bytes 4 (0x12345678 :: u32)) [] = [0x78, 0x56, 0x34, 0x12 :: u32]"
    unfolding bytes by (subst parse_packed_varints) simp_all
  have "pb_loop traceroute_field mesh_traceroute0 (pb_message [(1, Len (le_bytes 4 (0x12345678 :: u32)))])
      = (PB_DONE, mesh_traceroute0\<lparr> tr_route := [0x78, 0x56, 0x34, 0x12] \<rparr>)"
    by (subst traceroute.decode_message)
      (auto simp: traceroute_upd_def repeated_upd_def mesh_traceroute0_def packed)
  then show ?thesis by (simp add: mesh_decode_traceroute_def)
qed

end
