(* ===== verification/Mesh_Atak.thy ===== *)
theory Mesh_Atak
  imports Mesh_Telemetry
begin

text \<open>
  The TAK packet decoder \<^verbatim>\<open>mesh_decode_atak\<close> of \<^verbatim>\<open>src/mesh_decoders.c\<close> with its five
  sub-message parsers and the two name tables.
\<close>

definition TEAM_NAMES :: "string list" where
  "TEAM_NAMES =
     [''Unspecified'', ''White'', ''Yellow'', ''Orange'', ''Magenta'', ''Red'', ''Maroon'', ''Purple'',
      ''DarkBlue'', ''Blue'', ''Cyan'', ''Teal'', ''Green'', ''DarkGreen'', ''Brown'']"

definition ROLE_NAMES :: "string list" where
  "ROLE_NAMES =
     [''Unspecified'', ''TeamMember'', ''TeamLead'', ''HQ'', ''Sniper'', ''Medic'', ''ForwardObserver'',
      ''RTO'', ''K9'']"

definition mesh_atak_team_name :: "int \<Rightarrow> string" where
  "mesh_atak_team_name team =
     (if team < 0 \<or> team \<ge> int (length TEAM_NAMES) then ''Unspecified'' else TEAM_NAMES ! nat team)"

definition mesh_atak_role_name :: "int \<Rightarrow> string" where
  "mesh_atak_role_name role =
     (if role < 0 \<or> role \<ge> int (length ROLE_NAMES) then ''Unknown'' else ROLE_NAMES ! nat role)"

datatype mesh_atak_kind = MESH_ATAK_NONE | MESH_ATAK_PLI | MESH_ATAK_CHAT | MESH_ATAK_DETAIL

record mesh_atak =
  at_is_compressed :: bool
  at_callsign :: bytes
  at_device_callsign :: bytes
  at_team :: int
  at_role :: int
  at_battery :: u32
  at_kind :: mesh_atak_kind
  at_have_lat :: bool
  at_have_lon :: bool
  at_lat_i :: int
  at_lon_i :: int
  at_altitude_hae_m :: int
  at_speed_mps :: u32
  at_course_deg :: u32
  at_chat_message :: bytes
  at_chat_to :: bytes
  at_chat_to_callsign :: bytes
  at_chat_receipt_for_uid :: bytes
  at_chat_receipt_type :: u32
  at_chat_lang :: bytes
  at_chat_room_id :: bytes
  at_chat_has_voice_profile :: bool
  at_detail_xml :: bytes

definition mesh_atak0 :: mesh_atak where
  "mesh_atak0 = \<lparr> at_is_compressed = False, at_callsign = [], at_device_callsign = [],
     at_team = 0, at_role = 0, at_battery = 0, at_kind = MESH_ATAK_NONE, at_have_lat = False,
     at_have_lon = False, at_lat_i = 0, at_lon_i = 0, at_altitude_hae_m = 0, at_speed_mps = 0,
     at_course_deg = 0, at_chat_message = [], at_chat_to = [], at_chat_to_callsign = [],
     at_chat_receipt_for_uid = [], at_chat_receipt_type = 0, at_chat_lang = [],
     at_chat_room_id = [], at_chat_has_voice_profile = False, at_detail_xml = [] \<rparr>"

definition contact_field :: "mesh_atak field_step" where
  "contact_field s fld wt p =
     (if fld = 1 then on_read pb_read_length (\<lambda>v. s\<lparr> at_callsign := copy_str 32 v \<rparr>) s p
      else if fld = 2 then
           on_read pb_read_length (\<lambda>v. s\<lparr> at_device_callsign := copy_str 32 v \<rparr>) s p
      else on_skip s wt p)"

definition parse_contact :: "bytes \<Rightarrow> mesh_atak \<Rightarrow> mesh_atak" where
  "parse_contact buf s = snd (pb_loop contact_field s buf)"

definition group_field :: "mesh_atak field_step" where
  "group_field s fld wt p =
     (if fld = 1 then
          on_read pb_read_varint (\<lambda>v. s\<lparr> at_role := sint (ucast v :: u32) \<rparr>) s p
      else if fld = 2 then
           on_read pb_read_varint (\<lambda>v. s\<lparr> at_team := sint (ucast v :: u32) \<rparr>) s p
      else on_skip s wt p)"

definition parse_group :: "bytes \<Rightarrow> mesh_atak \<Rightarrow> mesh_atak" where
  "parse_group buf s = snd (pb_loop group_field s buf)"

definition status_field :: "mesh_atak field_step" where
  "status_field s fld wt p =
     (if fld = 1 then on_read pb_read_varint (\<lambda>v. s\<lparr> at_battery := ucast v \<rparr>) s p
      else on_skip s wt p)"

definition parse_status :: "bytes \<Rightarrow> mesh_atak \<Rightarrow> mesh_atak" where
  "parse_status buf s = snd (pb_loop status_field s buf)"

definition pli_field :: "mesh_atak field_step" where
  "pli_field s fld wt p =
     (if fld = 1 then
          on_read pb_read_fixed32 (\<lambda>v. s\<lparr> at_lat_i := sint v, at_have_lat := True \<rparr>) s p
      else if fld = 2 then
           on_read pb_read_fixed32 (\<lambda>v. s\<lparr> at_lon_i := sint v, at_have_lon := True \<rparr>) s p
      else if fld = 3 then
           on_read pb_read_varint (\<lambda>v. s\<lparr> at_altitude_hae_m := sint (ucast v :: u32) \<rparr>) s p
      else if fld = 4 then on_read pb_read_varint (\<lambda>v. s\<lparr> at_speed_mps := ucast v \<rparr>) s p
      else if fld = 5 then
           on_read pb_read_varint (\<lambda>v. s\<lparr> at_course_deg := ucast v \<rparr>) s p
      else on_skip s wt p)"

definition parse_pli :: "bytes \<Rightarrow> mesh_atak \<Rightarrow> mesh_atak" where
  "parse_pli buf s = snd (pb_loop pli_field (s\<lparr> at_kind := MESH_ATAK_PLI \<rparr>) buf)"

definition chat_field :: "mesh_atak field_step" where
  "chat_field s fld wt p =
     (if fld = 1 then
          on_read pb_read_length (\<lambda>v. s\<lparr> at_chat_message := copy_str 200 v \<rparr>) s p
      else if fld = 2 then
           on_read pb_read_length (\<lambda>v. s\<lparr> at_chat_to := copy_str 64 v \<rparr>) s p
      else if fld = 3 then
           on_read pb_read_length (\<lambda>v. s\<lparr> at_chat_to_callsign := copy_str 32 v \<rparr>) s p
      else if fld = 4 then
           on_read pb_read_length (\<lambda>v. s\<lparr> at_chat_receipt_for_uid := copy_str 64 v \<rparr>) s p
      else if fld = 5 then
           on_read pb_read_varint (\<lambda>v. s\<lparr> at_chat_receipt_type := ucast v \<rparr>) s p
      else if fld = 6 then
           on_read pb_read_length (\<lambda>v. s\<lparr> at_chat_lang := copy_str 16 v \<rparr>) s p
      else if fld = 7 then
           on_read pb_read_length (\<lambda>v. s\<lparr> at_chat_room_id := copy_str 40 v \<rparr>) s p
      else if fld = 8 then
           on_read pb_read_length (\<lambda>v. s\<lparr> at_chat_has_voice_profile := True \<rparr>) s p
      else on_skip s wt p)"

definition parse_chat :: "bytes \<Rightarrow> mesh_atak \<Rightarrow> mesh_atak" where
  "parse_chat buf s = snd (pb_loop chat_field (s\<lparr> at_kind := MESH_ATAK_CHAT \<rparr>) buf)"

definition atak_field :: "mesh_atak field_step" where
  "atak_field s fld wt p =
     (if fld = 1 then on_read pb_read_varint (\<lambda>v. s\<lparr> at_is_compressed := v \<noteq> 0 \<rparr>) s p
      else if fld = 2 then on_read pb_read_length (\<lambda>b. parse_contact b s) s p
      else if fld = 3 then on_read pb_read_length (\<lambda>b. parse_group b s) s p
      else if fld = 4 then on_read pb_read_length (\<lambda>b. parse_status b s) s p
      else if fld = 5 then on_read pb_read_length (\<lambda>b. parse_pli b s) s p
      else if fld = 6 then on_read pb_read_length (\<lambda>b. parse_chat b s) s p
      else if fld = 7 then on_read pb_read_length (\<lambda>b. s\<lparr> at_kind := MESH_ATAK_DETAIL, at_detail_xml := b \<rparr>) s p
      else on_skip s wt p)"

text \<open>A bad tag keeps what was decoded, a bad field fails.\<close>

definition mesh_decode_atak :: "bytes \<Rightarrow> bool \<times> mesh_atak" where
  "mesh_decode_atak buf =
     (case pb_loop atak_field mesh_atak0 buf of
        (PB_DONE, out) \<Rightarrow> (at_kind out \<noteq> MESH_ATAK_NONE \<or> c_str (at_callsign out) \<noteq> [], out)
      | (PB_BAD_TAG, out) \<Rightarrow> (at_kind out \<noteq> MESH_ATAK_NONE, out)
      | (PB_BAD_FIELD, out) \<Rightarrow> (False, out))"

subsection \<open>The cursor never moves back\<close>

interpretation contact: field_decoder contact_field
  by unfold_locales (auto simp: contact_field_def split: if_splits dest: read_le)

interpretation grp: field_decoder group_field
  by unfold_locales (auto simp: group_field_def split: if_splits dest: read_le)

interpretation status: field_decoder status_field
  by unfold_locales (auto simp: status_field_def split: if_splits dest: read_le)

interpretation pli: field_decoder pli_field
  by unfold_locales (auto simp: pli_field_def split: if_splits dest: read_le)

interpretation chat: field_decoder chat_field
  by unfold_locales (auto simp: chat_field_def split: if_splits dest: read_le)

interpretation atak: field_decoder atak_field
  by unfold_locales (auto simp: atak_field_def split: if_splits dest: read_le)

subsection \<open>Bounds\<close>

definition atak_bounds :: "mesh_atak \<Rightarrow> bool" where
  "atak_bounds s \<longleftrightarrow> length (at_callsign s) < 32 \<and> length (at_device_callsign s) < 32
     \<and> length (at_chat_message s) < 200 \<and> length (at_chat_to s) < 64 \<and> length (at_chat_to_callsign s) < 32
     \<and> length (at_chat_receipt_for_uid s) < 64 \<and> length (at_chat_lang s) < 16 \<and> length (at_chat_room_id s) < 40"

lemma atak_bounds_kind [simp]: "atak_bounds (s\<lparr> at_kind := k \<rparr>) = atak_bounds s"
  by (simp add: atak_bounds_def)

lemmas atak_keeps =
  on_read_keeps [where P = atak_bounds, unfolded atak_bounds_def]
  on_skip_keeps [where P = atak_bounds, unfolded atak_bounds_def]

lemma contact_bounds: "atak_bounds s \<Longrightarrow> atak_bounds (parse_contact b s)"
  unfolding parse_contact_def
  by (rule pb_loop_invariant [where P = atak_bounds]) (simp_all add: contact_field_def atak_bounds_def atak_keeps)

lemma group_bounds: "atak_bounds s \<Longrightarrow> atak_bounds (parse_group b s)"
  unfolding parse_group_def
  by (rule pb_loop_invariant [where P = atak_bounds]) (simp_all add: group_field_def atak_bounds_def atak_keeps)

lemma status_bounds: "atak_bounds s \<Longrightarrow> atak_bounds (parse_status b s)"
  unfolding parse_status_def
  by (rule pb_loop_invariant [where P = atak_bounds]) (simp_all add: status_field_def atak_bounds_def atak_keeps)

lemma pli_bounds: "atak_bounds s \<Longrightarrow> atak_bounds (parse_pli b s)"
  unfolding parse_pli_def
  by (rule pb_loop_invariant [where P = atak_bounds]) (simp_all add: pli_field_def atak_bounds_def atak_keeps)

lemma chat_bounds: "atak_bounds s \<Longrightarrow> atak_bounds (parse_chat b s)"
  unfolding parse_chat_def
  by (rule pb_loop_invariant [where P = atak_bounds]) (simp_all add: chat_field_def atak_bounds_def atak_keeps)

lemma atak_field_bounds: "atak_bounds s \<Longrightarrow> atak_bounds (fst (atak_field s fld wt p))"
proof -
  assume s: "atak_bounds s"
  have "atak_bounds (s\<lparr> at_is_compressed := c \<rparr>)" "atak_bounds (s\<lparr> at_kind := k, at_detail_xml := x \<rparr>)" for c k x
    using s by (simp_all add: atak_bounds_def)
  then show ?thesis
    using s by (simp add: atak_field_def contact_bounds group_bounds status_bounds pli_bounds chat_bounds
        on_read_keeps [where P = atak_bounds] on_skip_keeps [where P = atak_bounds])
qed

text \<open>
  No TAK packet, however malformed, overruns a string buffer of the decoded struct,
  and the team and role names are taken from the tables for every number received.
\<close>

lemma atak_decode_safe:
  "atak_bounds (snd (mesh_decode_atak buf))
   \<and> mesh_atak_team_name (at_team (snd (mesh_decode_atak buf))) \<in> set TEAM_NAMES
   \<and> mesh_atak_role_name (at_role (snd (mesh_decode_atak buf))) \<in> insert ''Unknown'' (set ROLE_NAMES)"
proof -
  have "atak_bounds (snd (pb_loop atak_field mesh_atak0 buf))"
    by (rule pb_loop_invariant [where P = atak_bounds])
      (simp_all add: atak_field_bounds, simp add: atak_bounds_def mesh_atak0_def)
  then have "atak_bounds (snd (mesh_decode_atak buf))"
    by (auto simp: mesh_decode_atak_def split: prod.splits pb_end.splits)
  moreover have "''Unspecified'' \<in> set TEAM_NAMES" by (simp add: TEAM_NAMES_def)
  then have "mesh_atak_team_name t \<in> set TEAM_NAMES" for t
    unfolding mesh_atak_team_name_def using nth_mem [of "nat t" TEAM_NAMES]
    by (cases "t < 0 \<or> t \<ge> int (length TEAM_NAMES)") (simp_all add: nat_less_iff)
  moreover have "mesh_atak_role_name r \<in> insert ''Unknown'' (set ROLE_NAMES)" for r
    unfolding mesh_atak_role_name_def using nth_mem [of "nat r" ROLE_NAMES]
    by (cases "r < 0 \<or> r \<ge> int (length ROLE_NAMES)") (simp_all add: nat_less_iff)
  ultimately show ?thesis by blast
qed

end
