(* ===== verification/Meshtastic.thy ===== *)
theory Meshtastic
  imports Prelude
begin

text \<open>
  The protocol constants and table look-ups of \<^verbatim>\<open>src/meshtastic.h\<close> and \<^verbatim>\<open>src/meshtastic.c\<close>:
  modem presets, region bands with their channel slots, port names, the default key and
  the channel hash.  C strings are lists of characters.  Band edges are in Hz: the
  source holds them as doubles in MHz.
\<close>

subsection \<open>Strings\<close>

definition str_bytes :: "string \<Rightarrow> bytes" where
  "str_bytes s = map (\<lambda>ch. of_nat (of_char ch)) s"

definition to_lower :: "char \<Rightarrow> char" where
  "to_lower ch = (let n = of_char ch :: nat in if 65 \<le> n \<and> n \<le> 90 then char_of (n + 32) else ch)"

text \<open>\<^verbatim>\<open>strcasematch\<close>: equal up to letter case, with equal length.\<close>

fun strcasematch :: "string \<Rightarrow> string \<Rightarrow> bool" where
  "strcasematch [] b = (b = [])"
| "strcasematch (x # a) [] = False"
| "strcasematch (x # a) (y # b) = (to_lower x = to_lower y \<and> strcasematch a b)"

subsection \<open>Modem presets\<close>

record mesh_preset_def =
  pr_name :: string
  pr_channel_name :: string
  pr_spread_factor :: int
  pr_coding_rate :: int
  pr_bw_hz_narrow :: int
  pr_bw_hz_wide :: int
  pr_preamble_sub :: int
  pr_preamble_24 :: int

definition MESH_PRESETS :: "mesh_preset_def list" where
  "MESH_PRESETS = [
     \<lparr> pr_name = ''SHORT_TURBO'', pr_channel_name = ''ShortTurbo'', pr_spread_factor = 7, pr_coding_rate = 5,
       pr_bw_hz_narrow = 500000, pr_bw_hz_wide = 1625000, pr_preamble_sub = 16, pr_preamble_24 = 12 \<rparr>,
     \<lparr> pr_name = ''SHORT_FAST'', pr_channel_name = ''ShortFast'', pr_spread_factor = 7, pr_coding_rate = 5,
       pr_bw_hz_narrow = 250000, pr_bw_hz_wide = 812000, pr_preamble_sub = 16, pr_preamble_24 = 12 \<rparr>,
     \<lparr> pr_name = ''SHORT_SLOW'', pr_channel_name = ''ShortSlow'', pr_spread_factor = 8, pr_coding_rate = 5,
       pr_bw_hz_narrow = 250000, pr_bw_hz_wide = 812000, pr_preamble_sub = 16, pr_preamble_24 = 12 \<rparr>,
     \<lparr> pr_name = ''MEDIUM_FAST'', pr_channel_name = ''MediumFast'', pr_spread_factor = 9, pr_coding_rate = 5,
       pr_bw_hz_narrow = 250000, pr_bw_hz_wide = 812000, pr_preamble_sub = 16, pr_preamble_24 = 12 \<rparr>,
     \<lparr> pr_name = ''MEDIUM_SLOW'', pr_channel_name = ''MediumSlow'', pr_spread_factor = 10, pr_coding_rate = 5,
       pr_bw_hz_narrow = 250000, pr_bw_hz_wide = 812000, pr_preamble_sub = 16, pr_preamble_24 = 12 \<rparr>,
     \<lparr> pr_name = ''LONG_FAST'', pr_channel_name = ''LongFast'', pr_spread_factor = 11, pr_coding_rate = 5,
       pr_bw_hz_narrow = 250000, pr_bw_hz_wide = 812000, pr_preamble_sub = 16, pr_preamble_24 = 12 \<rparr>,
     \<lparr> pr_name = ''LONG_MODERATE'', pr_channel_name = ''LongMod'', pr_spread_factor = 11, pr_coding_rate = 8,
       pr_bw_hz_narrow = 125000, pr_bw_hz_wide = 406000, pr_preamble_sub = 16, pr_preamble_24 = 12 \<rparr>,
     \<lparr> pr_name = ''LONG_SLOW'', pr_channel_name = ''LongSlow'', pr_spread_factor = 12, pr_coding_rate = 8,
       pr_bw_hz_narrow = 125000, pr_bw_hz_wide = 406000, pr_preamble_sub = 16, pr_preamble_24 = 12 \<rparr>,
     \<lparr> pr_name = ''LONG_TURBO'', pr_channel_name = ''LongTurbo'', pr_spread_factor = 11, pr_coding_rate = 8,
       pr_bw_hz_narrow = 500000, pr_bw_hz_wide = 1625000, pr_preamble_sub = 16, pr_preamble_24 = 12 \<rparr>]"

definition skip_sep :: "char \<Rightarrow> bool" where
  "skip_sep ch = (ch = CHR ''_'' \<or> ch = CHR ''-'' \<or> ch = CHR '' '')"

text \<open>The two normalised names, each in a 32-byte buffer.\<close>

definition preset_key :: "string \<Rightarrow> string" where
  "preset_key name = take 31 (map to_lower (filter (\<lambda>ch. \<not> skip_sep ch) name))"

definition preset_canon :: "mesh_preset_def \<Rightarrow> string" where
  "preset_canon p = take 31 (map to_lower (filter (\<lambda>ch. ch \<noteq> CHR ''_'') (pr_name p)))"

definition mesh_lookup_preset :: "string \<Rightarrow> mesh_preset_def option" where
  "mesh_lookup_preset name =
     (let buf = preset_key name
      in find (\<lambda>p. buf = preset_canon p \<or> strcasematch buf (pr_channel_name p)) MESH_PRESETS)"

text \<open>The preset a received frame's parameters name: first match on either bandwidth column.\<close>

definition preset_of_radio :: "int \<Rightarrow> int \<Rightarrow> int \<Rightarrow> string" where
  "preset_of_radio s c bw =
     (if s > 0 then
        (case find (\<lambda>p. pr_spread_factor p = s \<and> pr_coding_rate p = c
                        \<and> (pr_bw_hz_narrow p = bw \<or> pr_bw_hz_wide p = bw)) MESH_PRESETS of
           None \<Rightarrow> [] | Some p \<Rightarrow> take 23 (pr_channel_name p))
      else [])"

subsection \<open>Regions\<close>

record mesh_region =
  rg_name :: string
  rg_f_lo :: int
  rg_f_hi :: int
  rg_wide_lora :: bool

definition MESH_REGIONS :: "mesh_region list" where
  "MESH_REGIONS = [
     \<lparr> rg_name = ''US'', rg_f_lo = 902000000, rg_f_hi = 928000000, rg_wide_lora = False \<rparr>,
     \<lparr> rg_name = ''EU_433'', rg_f_lo = 433000000, rg_f_hi = 434000000, rg_wide_lora = False \<rparr>,
     \<lparr> rg_name = ''EU_868'', rg_f_lo = 869400000, rg_f_hi = 869650000, rg_wide_lora = False \<rparr>,
     \<lparr> rg_name = ''CN'', rg_f_lo = 470000000, rg_f_hi = 510000000, rg_wide_lora = False \<rparr>,
     \<lparr> rg_name = ''JP'', rg_f_lo = 920500000, rg_f_hi = 923500000, rg_wide_lora = False \<rparr>,
     \<lparr> rg_name = ''ANZ'', rg_f_lo = 915000000, rg_f_hi = 928000000, rg_wide_lora = False \<rparr>,
     \<lparr> rg_name = ''ANZ_433'', rg_f_lo = 433050000, rg_f_hi = 434790000, rg_wide_lora = False \<rparr>,
     \<lparr> rg_name = ''RU'', rg_f_lo = 868700000, rg_f_hi = 869200000, rg_wide_lora = False \<rparr>,
     \<lparr> rg_name = ''KR'', rg_f_lo = 920000000, rg_f_hi = 923000000, rg_wide_lora = False \<rparr>,
     \<lparr> rg_name = ''TW'', rg_f_lo = 920000000, rg_f_hi = 925000000, rg_wide_lora = False \<rparr>,
     \<lparr> rg_name = ''IN'', rg_f_lo = 865000000, rg_f_hi = 867000000, rg_wide_lora = False \<rparr>,
     \<lparr> rg_name = ''NZ_865'', rg_f_lo = 864000000, rg_f_hi = 868000000, rg_wide_lora = False \<rparr>,
     \<lparr> rg_name = ''TH'', rg_f_lo = 920000000, rg_f_hi = 925000000, rg_wide_lora = False \<rparr>,
     \<lparr> rg_name = ''UA_433'', rg_f_lo = 433000000, rg_f_hi = 434700000, rg_wide_lora = False \<rparr>,
     \<lparr> rg_name = ''UA_868'', rg_f_lo = 868000000, rg_f_hi = 868600000, rg_wide_lora = False \<rparr>,
     \<lparr> rg_name = ''MY_433'', rg_f_lo = 433000000, rg_f_hi = 435000000, rg_wide_lora = False \<rparr>,
     \<lparr> rg_name = ''MY_919'', rg_f_lo = 919000000, rg_f_hi = 924000000, rg_wide_lora = False \<rparr>,
     \<lparr> rg_name = ''SG_923'', rg_f_lo = 917000000, rg_f_hi = 925000000, rg_wide_lora = False \<rparr>,
     \<lparr> rg_name = ''PH_433'', rg_f_lo = 433000000, rg_f_hi = 434700000, rg_wide_lora = False \<rparr>,
     \<lparr> rg_name = ''PH_868'', rg_f_lo = 868000000, rg_f_hi = 869400000, rg_wide_lora = False \<rparr>,
     \<lparr> rg_name = ''PH_915'', rg_f_lo = 915000000, rg_f_hi = 918000000, rg_wide_lora = False \<rparr>,
     \<lparr> rg_name = ''KZ_433'', rg_f_lo = 433075000, rg_f_hi = 434775000, rg_wide_lora = False \<rparr>,
     \<lparr> rg_name = ''KZ_863'', rg_f_lo = 863000000, rg_f_hi = 868000000, rg_wide_lora = False \<rparr>,
     \<lparr> rg_name = ''NP_865'', rg_f_lo = 865000000, rg_f_hi = 868000000, rg_wide_lora = False \<rparr>,
     \<lparr> rg_name = ''BR_902'', rg_f_lo = 902000000, rg_f_hi = 907500000, rg_wide_lora = False \<rparr>,
     \<lparr> rg_name = ''LORA_24'', rg_f_lo = 2400000000, rg_f_hi = 2483500000, rg_wide_lora = True \<rparr>]"

definition mesh_channel_count :: "mesh_region \<Rightarrow> int \<Rightarrow> int" where
  "mesh_channel_count r bw_hz =
     (if bw_hz \<le> 0 then 0 else let n = (rg_f_hi r - rg_f_lo r) div bw_hz in if n > 0 then n else 0)"

text \<open>\<^verbatim>\<open>f_lo + bw/2 + n*bw\<close> rounded to the nearest Hz; 0 for a slot out of range.\<close>

definition mesh_channel_freq_hz :: "mesh_region \<Rightarrow> int \<Rightarrow> int \<Rightarrow> int" where
  "mesh_channel_freq_hz r bw_hz channel_index =
     (if bw_hz \<le> 0 \<or> channel_index < 0 then 0
      else if channel_index \<ge> mesh_channel_count r bw_hz then 0
      else (2 * rg_f_lo r + bw_hz + 2 * bw_hz * channel_index + 1) div 2)"

definition region_alias :: "string \<Rightarrow> string" where
  "region_alias name =
     (if strcasematch name ''EU868'' then ''EU_868''
      else if strcasematch name ''EU433'' then ''EU_433''
      else if strcasematch name ''LORA24'' \<or> strcasematch name ''LORA_2G4'' then ''LORA_24''
      else name)"

definition mesh_lookup_region :: "string \<Rightarrow> mesh_region option" where
  "mesh_lookup_region name =
     (let aliased = region_alias name in find (\<lambda>r. strcasematch aliased (rg_name r)) MESH_REGIONS)"

subsection \<open>Ports, default key, channel hash\<close>

definition PORT_NAMES :: "(u32 \<times> string) list" where
  "PORT_NAMES = [
     (0, ''UNKNOWN_APP''), (1, ''TEXT_MESSAGE_APP''), (2, ''REMOTE_HARDWARE_APP''),
     (3, ''POSITION_APP''), (4, ''NODEINFO_APP''), (5, ''ROUTING_APP''), (6, ''ADMIN_APP''),
     (7, ''TEXT_MESSAGE_COMPRESSED_APP''), (8, ''WAYPOINT_APP''), (9, ''AUDIO_APP''),
     (10, ''DETECTION_SENSOR_APP''), (11, ''ALERT_APP''), (12, ''KEY_VERIFICATION_APP''),
     (32, ''REPLY_APP''), (33, ''IP_TUNNEL_APP''), (34, ''PAXCOUNTER_APP''),
     (35, ''STORE_FORWARD_PLUSPLUS_APP''), (36, ''NODE_STATUS_APP''), (64, ''SERIAL_APP''),
     (65, ''STORE_FORWARD_APP''), (66, ''RANGE_TEST_APP''), (67, ''TELEMETRY_APP''),
     (68, ''ZPS_APP''), (69, ''SIMULATOR_APP''), (70, ''TRACEROUTE_APP''),
     (71, ''NEIGHBORINFO_APP''), (72, ''ATAK_PLUGIN''), (73, ''MAP_REPORT_APP''),
     (74, ''POWERSTRESS_APP''), (76, ''RETICULUM_TUNNEL_APP''), (256, ''PRIVATE_APP''),
     (257, ''ATAK_FORWARDER'')]"

definition mesh_port_name :: "u32 \<Rightarrow> string" where
  "mesh_port_name port = (case find (\<lambda>e. fst e = port) PORT_NAMES of Some e \<Rightarrow> snd e | None \<Rightarrow> ''UNKNOWN'')"

definition MESH_DEFAULT_PSK :: bytes where
  "MESH_DEFAULT_PSK = [0xd4, 0xf1, 0xbb, 0x3a, 0x20, 0x29, 0x07, 0x59, 0xf0, 0xbc, 0xff, 0xab, 0xcf, 0x4e, 0x69, 0x01]"

definition xor_hash_bytes :: "bytes \<Rightarrow> byte" where
  "xor_hash_bytes p = foldl (XOR) 0 p"

definition mesh_channel_hash :: "string \<Rightarrow> bytes \<Rightarrow> byte" where
  "mesh_channel_hash channel_name psk = xor_hash_bytes (str_bytes channel_name) XOR xor_hash_bytes psk"

subsection \<open>Look-ups\<close>

lemma strcasematch_refl [simp]: "strcasematch s s"
  by (induction s) simp_all

lemma strcasematch_iff: "strcasematch a b \<longleftrightarrow> map to_lower a = map to_lower b"
  by (induction a b rule: strcasematch.induct) auto

text \<open>Letter case on the characters of the tables.\<close>

lemma to_lower_upper:
  "to_lower CHR ''A'' = CHR ''a''"
  "to_lower CHR ''B'' = CHR ''b''"
  "to_lower CHR ''C'' = CHR ''c''"
  "to_lower CHR ''D'' = CHR ''d''"
  "to_lower CHR ''E'' = CHR ''e''"
  "to_lower CHR ''F'' = CHR ''f''"
  "to_lower CHR ''G'' = CHR ''g''"
  "to_lower CHR ''H'' = CHR ''h''"
  "to_lower CHR ''I'' = CHR ''i''"
  "to_lower CHR ''J'' = CHR ''j''"
  "to_lower CHR ''K'' = CHR ''k''"
  "to_lower CHR ''L'' = CHR ''l''"
  "to_lower CHR ''M'' = CHR ''m''"
  "to_lower CHR ''N'' = CHR ''n''"
  "to_lower CHR ''O'' = CHR ''o''"
  "to_lower CHR ''P'' = CHR ''p''"
  "to_lower CHR ''Q'' = CHR ''q''"
  "to_lower CHR ''R'' = CHR ''r''"
  "to_lower CHR ''S'' = CHR ''s''"
  "to_lower CHR ''T'' = CHR ''t''"
  "to_lower CHR ''U'' = CHR ''u''"
  "to_lower CHR ''V'' = CHR ''v''"
  "to_lower CHR ''W'' = CHR ''w''"
  "to_lower CHR ''X'' = CHR ''x''"
  "to_lower CHR ''Y'' = CHR ''y''"
  "to_lower CHR ''Z'' = CHR ''z''"
  by (simp_all add: to_lower_def char_of_def bit_Suc_0_iff)

lemma to_lower_other:
  "to_lower CHR ''a'' = CHR ''a''"
  "to_lower CHR ''b'' = CHR ''b''"
  "to_lower CHR ''c'' = CHR ''c''"
  "to_lower CHR ''d'' = CHR ''d''"
  "to_lower CHR ''e'' = CHR ''e''"
  "to_lower CHR ''f'' = CHR ''f''"
  "to_lower CHR ''g'' = CHR ''g''"
  "to_lower CHR ''h'' = CHR ''h''"
  "to_lower CHR ''i'' = CHR ''i''"
  "to_lower CHR ''j'' = CHR ''j''"
  "to_lower CHR ''k'' = CHR ''k''"
  "to_lower CHR ''l'' = CHR ''l''"
  "to_lower CHR ''m'' = CHR ''m''"
  "to_lower CHR ''n'' = CHR ''n''"
  "to_lower CHR ''o'' = CHR ''o''"
  "to_lower CHR ''p'' = CHR ''p''"
  "to_lower CHR ''q'' = CHR ''q''"
  "to_lower CHR ''r'' = CHR ''r''"
  "to_lower CHR ''s'' = CHR ''s''"
  "to_lower CHR ''t'' = CHR ''t''"
  "to_lower CHR ''u'' = CHR ''u''"
  "to_lower CHR ''v'' = CHR ''v''"
  "to_lower CHR ''w'' = CHR ''w''"
  "to_lower CHR ''x'' = CHR ''x''"
  "to_lower CHR ''y'' = CHR ''y''"
  "to_lower CHR ''z'' = CHR ''z''"
  "to_lower CHR ''0'' = CHR ''0''"
  "to_lower CHR ''1'' = CHR ''1''"
  "to_lower CHR ''2'' = CHR ''2''"
  "to_lower CHR ''3'' = CHR ''3''"
  "to_lower CHR ''4'' = CHR ''4''"
  "to_lower CHR ''5'' = CHR ''5''"
  "to_lower CHR ''6'' = CHR ''6''"
  "to_lower CHR ''7'' = CHR ''7''"
  "to_lower CHR ''8'' = CHR ''8''"
  "to_lower CHR ''9'' = CHR ''9''"
  "to_lower CHR ''_'' = CHR ''_''"
  by (simp_all add: to_lower_def)

lemmas lower_simps = to_lower_upper to_lower_other

lemma preset_lookups:
  "list_all (\<lambda>p. mesh_lookup_preset (pr_name p) = Some p \<and> mesh_lookup_preset (pr_channel_name p) = Some p) MESH_PRESETS"
  by (simp add: mesh_lookup_preset_def MESH_PRESETS_def preset_key_def preset_canon_def skip_sep_def lower_simps)

lemma region_lookups: "list_all (\<lambda>r. mesh_lookup_region (rg_name r) = Some r) MESH_REGIONS"
  by (simp add: mesh_lookup_region_def MESH_REGIONS_def region_alias_def lower_simps)

text \<open>
  Every modem preset is found under its firmware name and under its channel name, and
  every region under its own name; no entry is shadowed by an earlier one, and the
  documented aliases reach their region.
\<close>

lemma table_lookups_complete:
  "list_all (\<lambda>p. mesh_lookup_preset (pr_name p) = Some p \<and> mesh_lookup_preset (pr_channel_name p) = Some p) MESH_PRESETS
   \<and> list_all (\<lambda>r. mesh_lookup_region (rg_name r) = Some r) MESH_REGIONS
   \<and> mesh_lookup_region ''eu868'' = mesh_lookup_region ''EU_868''
   \<and> mesh_lookup_region ''lora_2g4'' = mesh_lookup_region ''LORA_24''
   \<and> mesh_lookup_preset ''long-fast'' = mesh_lookup_preset ''LongFast''"
proof -
  have "preset_key ''long-fast'' = preset_key ''LongFast''" by (simp add: preset_key_def skip_sep_def lower_simps)
  then have "mesh_lookup_preset ''long-fast'' = mesh_lookup_preset ''LongFast''"
    by (simp only: mesh_lookup_preset_def)
  moreover have "region_alias ''eu868'' = ''EU_868''" "region_alias ''EU_868'' = ''EU_868''"
    "region_alias ''lora_2g4'' = ''LORA_24''" "region_alias ''LORA_24'' = ''LORA_24''"
    by (simp_all add: region_alias_def lower_simps)
  ultimately show ?thesis
    using preset_lookups region_lookups by (simp only: mesh_lookup_region_def)
qed

text \<open>
  The channel slots of a band lie inside it and do not overlap: the slot of every valid
  index is centred at least half a bandwidth from both edges, neighbouring slots are
  one bandwidth apart, and an index out of range has no frequency.
\<close>

lemma channel_slots_in_band:
  assumes "even bw" "0 < bw" "0 \<le> n" "n < mesh_channel_count r bw"
  shows "rg_f_lo r + bw div 2 \<le> mesh_channel_freq_hz r bw n
    \<and> mesh_channel_freq_hz r bw n + bw div 2 \<le> rg_f_hi r
    \<and> (n + 1 < mesh_channel_count r bw \<longrightarrow> mesh_channel_freq_hz r bw (n + 1) = mesh_channel_freq_hz r bw n + bw)
    \<and> mesh_channel_freq_hz r bw (mesh_channel_count r bw) = 0"
proof -
  obtain h where bw: "bw = 2 * h" using assms(1) by (auto elim: evenE)
  have f: "mesh_channel_freq_hz r bw k = rg_f_lo r + h + bw * k" if "0 \<le> k" "k < mesh_channel_count r bw" for k
    using that assms(2) by (simp add: mesh_channel_freq_hz_def bw algebra_simps)
  have cnt: "mesh_channel_count r bw = (rg_f_hi r - rg_f_lo r) div bw"
    using assms(2-4) by (auto simp: mesh_channel_count_def Let_def split: if_splits)
  have "bw * (n + 1) \<le> bw * ((rg_f_hi r - rg_f_lo r) div bw)"
    using assms(2,4) by (intro mult_left_mono) (simp_all add: cnt)
  also have "\<dots> \<le> rg_f_hi r - rg_f_lo r" 
    using pos_mod_sign [OF assms(2), of "rg_f_hi r - rg_f_lo r"] mult_div_mod_eq [of bw "rg_f_hi r - rg_f_lo r"] by linarith
  finally have "bw * n + bw \<le> rg_f_hi r - rg_f_lo r" by (simp add: algebra_simps)
  moreover have "0 \<le> bw * n" using assms(2,3) by simp
  moreover have "mesh_channel_freq_hz r bw (mesh_channel_count r bw) = 0"
    by (simp add: mesh_channel_freq_hz_def)
  ultimately show ?thesis
    using f [of n] f [of "n + 1"] assms(3,4) by (simp add: bw algebra_simps)
qed

text \<open>The hash is a group homomorphism: it ignores the order of the bytes.\<close>

lemma xor_foldl: "foldl (XOR) (a XOR b) p = a XOR foldl (XOR) b (p :: bytes)"
  by (induction p arbitrary: b) (simp_all add: xor.assoc)

lemma xor_hash_append [simp]: "xor_hash_bytes (p @ q) = xor_hash_bytes p XOR xor_hash_bytes q"
  using xor_foldl [of "foldl (XOR) 0 p" 0 q] by (simp add: xor_hash_bytes_def)

lemma xor_hash_Nil [simp]: "xor_hash_bytes [] = 0"
  by (simp add: xor_hash_bytes_def)

end
