(* ===== verification/Keyset.thy ===== *)
theory Keyset
  imports Meshtastic
begin

text \<open>
  The key store of \<^verbatim>\<open>src/keyset.c\<close>: entries with their channel hash, the 256 dispatch
  buckets, the key-specification parser with its hex and base64 decoders.  Entries are
  a list (\<^verbatim>\<open>n_entries\<close> is its length), a key is the list of its \<^verbatim>\<open>psk_len\<close> bytes, a bucket is
  the array of eight indices with its -1 terminator.  The read-write lock serialises
  the operations, which are atomic here.  Return code 0 or -1 comes with the new state.
\<close>

subsection \<open>Text decoders\<close>

definition hex_nibble :: "char \<Rightarrow> int" where
  "hex_nibble ch =
     (let c = int (of_char ch)
      in if 48 \<le> c \<and> c \<le> 57 then c - 48
         else if 97 \<le> c \<and> c \<le> 102 then c - 97 + 10
         else if 65 \<le> c \<and> c \<le> 70 then c - 65 + 10
         else -1)"

fun hex_pairs :: "string \<Rightarrow> bytes option" where
  "hex_pairs (a # b # rest) =
     (let hi = hex_nibble a; lo = hex_nibble b
      in if hi < 0 \<or> lo < 0 then None
         else map_option (\<lambda>bs. (push_bit 4 (word_of_int hi) OR word_of_int lo) # bs) (hex_pairs rest))"
| "hex_pairs _ = Some []"

definition hex_decode :: "string \<Rightarrow> nat \<Rightarrow> bytes option" where
  "hex_decode hex max_out =
     (if length hex mod 2 \<noteq> 0 then None
      else if length hex div 2 > max_out then None
      else hex_pairs hex)"

definition b64_value :: "char \<Rightarrow> int" where
  "b64_value ch =
     (let c = int (of_char ch)
      in if 65 \<le> c \<and> c \<le> 90 then c - 65
         else if 97 \<le> c \<and> c \<le> 122 then c - 97 + 26
         else if 48 \<le> c \<and> c \<le> 57 then c - 48 + 52
         else if ch = CHR ''+'' \<or> ch = CHR ''-'' then 62
         else if ch = CHR ''/'' \<or> ch = CHR ''_'' then 63
         else -1)"

definition b64_pad :: "char \<Rightarrow> bool" where
  "b64_pad ch = (ch = CHR ''='' \<or> ch = CHR ''\<newline>'' \<or> ch = CHR 0x0D \<or> ch = CHR '' '')"

text \<open>\<^verbatim>\<open>while (len > 0 && trim(b64[len-1])) --len\<close>.\<close>

definition trim_end :: "(char \<Rightarrow> bool) \<Rightarrow> string \<Rightarrow> string" where
  "trim_end P s = rev (dropWhile P (rev s))"

text \<open>The loop with its bit accumulator; \<^verbatim>\<open>out\<close> holds the bytes written so far.\<close>

fun b64_loop :: "nat \<Rightarrow> string \<Rightarrow> u32 \<Rightarrow> nat \<Rightarrow> bytes \<Rightarrow> bytes option" where
  "b64_loop max_out [] accum bits out = Some out"
| "b64_loop max_out (ch # rest) accum bits out =
     (let v = b64_value ch
      in if v < 0 then None
         else let accum = push_bit 6 accum OR word_of_int v; bits = bits + 6
              in if bits \<ge> 8 then
                   (let bits = bits - 8
                    in if length out \<ge> max_out then None
                       else b64_loop max_out rest accum bits (out @ [ucast (drop_bit bits accum AND 0xff)]))
                 else b64_loop max_out rest accum bits out)"

definition b64_decode :: "string \<Rightarrow> nat \<Rightarrow> bytes option" where
  "b64_decode b64 max_out = b64_loop max_out (trim_end b64_pad b64) 0 0 []"

definition xor_bytes :: "bytes \<Rightarrow> byte" where
  "xor_bytes p = foldl (XOR) 0 p"

subsection \<open>The store\<close>

definition KEYSET_MAX_ENTRIES :: nat where "KEYSET_MAX_ENTRIES = 64"
definition KEYSET_MAX_NAME :: nat where "KEYSET_MAX_NAME = 32"

record keyset_entry =
  ke_channel_name :: string
  ke_psk :: bytes
  ke_channel_hash :: byte

record keyset =
  ks_entries :: "keyset_entry list"
  ks_buckets :: "int list list"

definition keyset_create :: keyset where
  "keyset_create = \<lparr> ks_entries = [], ks_buckets = replicate 256 (replicate 8 (-1)) \<rparr>"

definition bucket_push :: "keyset \<Rightarrow> byte \<Rightarrow> int \<Rightarrow> keyset option" where
  "bucket_push k hash idx =
     (let bucket = ks_buckets k ! unat hash
      in case find (\<lambda>i. bucket ! i = -1) [0..<7] of
           None \<Rightarrow> None
         | Some i \<Rightarrow> Some (k\<lparr> ks_buckets := (ks_buckets k)[unat hash := bucket[i := idx, i + 1 := -1]] \<rparr>))"

text \<open>The part \<^verbatim>\<open>keyset_add\<close> and \<^verbatim>\<open>keyset_add_raw\<close> share: room check, new entry, bucket, roll-back.\<close>

definition keyset_insert :: "keyset \<Rightarrow> keyset_entry \<Rightarrow> int \<times> keyset" where
  "keyset_insert k e =
     (if length (ks_entries k) \<ge> KEYSET_MAX_ENTRIES then (-1, k)
      else case bucket_push k (ke_channel_hash e) (int (length (ks_entries k))) of
             None \<Rightarrow> (-1, k)
           | Some k' \<Rightarrow> (0, k'\<lparr> ks_entries := ks_entries k @ [e] \<rparr>))"

definition psk_len_ok :: "bytes \<Rightarrow> bool" where
  "psk_len_ok psk = (length psk = 0 \<or> length psk = 16 \<or> length psk = 32)"

text \<open>A missing name is None; \<^verbatim>\<open>strncpy\<close> keeps at most 31 characters.\<close>

definition entry_name :: "string \<Rightarrow> string option \<Rightarrow> string" where
  "entry_name dflt name =
     take (KEYSET_MAX_NAME - 1) (case name of Some n \<Rightarrow> if n \<noteq> [] then n else dflt | None \<Rightarrow> dflt)"

definition keyset_add :: "keyset \<Rightarrow> string option \<Rightarrow> bytes \<Rightarrow> int \<times> keyset" where
  "keyset_add k channel_name psk =
     (if \<not> psk_len_ok psk then (-1, k)
      else let name = entry_name ''LongFast'' channel_name
           in keyset_insert k \<lparr> ke_channel_name = name, ke_psk = psk,
                ke_channel_hash = xor_bytes (str_bytes name) XOR xor_bytes psk \<rparr>)"

definition keyset_add_raw :: "keyset \<Rightarrow> byte \<Rightarrow> bytes \<Rightarrow> string option \<Rightarrow> int \<times> keyset" where
  "keyset_add_raw k channel_hash psk display_name =
     (if \<not> psk_len_ok psk then (-1, k)
      else keyset_insert k \<lparr> ke_channel_name = entry_name ''(discovered)'' display_name, ke_psk = psk,
             ke_channel_hash = channel_hash \<rparr>)"

definition make_simple_psk :: "int \<Rightarrow> bytes" where
  "make_simple_psk n = MESH_DEFAULT_PSK[15 := word_of_int n]"

definition keyset_add_psk :: "keyset \<Rightarrow> string option \<Rightarrow> bytes \<Rightarrow> int \<times> keyset" where
  "keyset_add_psk k channel_name psk =
     (if length psk = 1 then keyset_add k channel_name (MESH_DEFAULT_PSK[15 := psk ! 0])
      else if psk_len_ok psk then keyset_add k channel_name psk
      else (-1, k))"

definition keyset_lookup :: "keyset \<Rightarrow> byte \<Rightarrow> int list" where
  "keyset_lookup k channel_hash = ks_buckets k ! unat channel_hash"

definition keyset_get :: "keyset \<Rightarrow> int \<Rightarrow> keyset_entry option" where
  "keyset_get k index =
     (if index < 0 \<or> index \<ge> int (length (ks_entries k)) then None else Some (ks_entries k ! nat index))"

subsection \<open>Key specifications\<close>

definition is_blank :: "char \<Rightarrow> bool" where
  "is_blank ch = (ch = CHR '' '' \<or> ch = CHR 0x09)"

definition is_digit :: "char \<Rightarrow> bool" where
  "is_digit ch = (48 \<le> (of_char ch :: nat) \<and> (of_char ch :: nat) \<le> 57)"

text \<open>\<^verbatim>\<open>atoi\<close> on a string that starts with a digit.\<close>

definition atoi :: "string \<Rightarrow> int" where
  "atoi s = foldl (\<lambda>n ch. 10 * n + (int (of_char ch) - 48)) 0 (takeWhile is_digit s)"

text \<open>The optional \<^verbatim>\<open>ChannelName=\<close> prefix: (name, value).\<close>

definition split_spec :: "string \<Rightarrow> string option \<times> string" where
  "split_spec spec =
     (if CHR ''='' \<in> set spec then
        (let nm = takeWhile (\<lambda>ch. ch \<noteq> CHR ''='') spec
         in (Some (trim_end is_blank (take (KEYSET_MAX_NAME - 1) nm)),
             dropWhile is_blank (drop (length nm + 1) spec)))
      else (None, spec))"

text \<open>
  The key bytes named by a specification: None where the function returns -1.
\<close>

definition spec_psk :: "string \<Rightarrow> bytes option" where
  "spec_psk v =
     (let nonempty = (\<lambda>r. case r of Some (b # bs) \<Rightarrow> Some (b # bs) | _ \<Rightarrow> None)
      in if strcasematch v ''default'' then Some (make_simple_psk 1)
         else if strcasematch v ''none'' \<or> strcasematch v ''unencrypted'' then Some []
         else if strcasematch (take 6 v) ''simple'' \<and> length v > 6 \<and> is_digit (v ! 6) then
           (let n = atoi (drop 6 v)
            in if n < 0 \<or> n > 255 then None
               else if n = 0 then Some [] else Some (make_simple_psk n))
         else if strcasematch (take 4 v) ''hex:'' then nonempty (hex_decode (drop 4 v) 32)
         else if strcasematch (take 7 v) ''base64:'' then nonempty (b64_decode (drop 7 v) 32)
         else case nonempty (b64_decode v 32) of
                Some bs \<Rightarrow> Some bs
              | None \<Rightarrow> nonempty (hex_decode v 32))"

text \<open>A bare \<^verbatim>\<open>default\<close> registers the key under every preset's channel name.\<close>

definition add_default_all :: "keyset \<Rightarrow> int \<times> keyset" where
  "add_default_all k =
     foldl (\<lambda>(rc, k) p. let (r, k') = keyset_add k (Some (pr_channel_name p)) (make_simple_psk 1)
                        in (if r < 0 then -1 else rc, k')) (0, k) MESH_PRESETS"

definition keyset_parse_spec :: "keyset \<Rightarrow> string \<Rightarrow> int \<times> keyset" where
  "keyset_parse_spec k spec =
     (let spec = dropWhile is_blank spec
      in if spec = [] then (0, k)
         else let (name, value) = split_spec spec
              in if name = None \<and> strcasematch value ''default'' then add_default_all k
                 else case spec_psk value of
                        None \<Rightarrow> (-1, k)
                      | Some psk \<Rightarrow> keyset_add_psk k name psk)"

text \<open>\<^verbatim>\<open>strtok_r\<close>: the maximal runs of characters that are not separators.\<close>

definition csv_sep :: "char \<Rightarrow> bool" where
  "csv_sep ch = (ch = CHR '','' \<or> ch = CHR '';'' \<or> ch = CHR ''\<newline>'')"

function tokens :: "string \<Rightarrow> string list" where
  "tokens s =
     (let s = dropWhile csv_sep s
      in if s = [] then []
         else takeWhile (\<lambda>ch. \<not> csv_sep ch) s # tokens (dropWhile (\<lambda>ch. \<not> csv_sep ch) s))"
  by pat_completeness auto
termination
proof (relation "measure length")
  fix s x :: string assume x: "x = dropWhile csv_sep s" "x \<noteq> []"
  then have "\<not> csv_sep (hd x)" by (simp add: hd_dropWhile)
  then obtain c y where "x = c # y" "\<not> csv_sep c" using x(2) by (cases x) auto
  then have "length (dropWhile (\<lambda>ch. \<not> csv_sep ch) x) < length x"
    using length_dropWhile_le [of "\<lambda>ch. \<not> csv_sep ch" y] by simp
  also have "length x \<le> length s" unfolding x(1) by (rule length_dropWhile_le)
  finally show "(dropWhile (\<lambda>ch. \<not> csv_sep ch) x, s) \<in> measure length" by simp
qed simp

declare tokens.simps [simp del]

definition keyset_parse_csv :: "keyset \<Rightarrow> string \<Rightarrow> int \<times> keyset" where
  "keyset_parse_csv k csv =
     foldl (\<lambda>(ok, k) tok. let tok = dropWhile is_blank tok
                          in if tok = [] then (ok, k)
                             else let (r, k') = keyset_parse_spec k tok
                                  in (if r = 0 then ok + 1 else ok, k')) (0, k) (tokens csv)"

subsection \<open>Buckets\<close>

text \<open>The indices of a bucket up to its terminator, and what a well-formed bucket is.\<close>

definition bucket_list :: "int list \<Rightarrow> int list" where
  "bucket_list b = takeWhile (\<lambda>i. i \<noteq> -1) b"

definition bucket_ok :: "int list \<Rightarrow> bool" where
  "bucket_ok b \<longleftrightarrow> length b = 8 \<and> b ! 7 = -1"

lemma bucket_split:
  assumes "bucket_ok b"
  obtains zs where "b = bucket_list b @ (-1) # zs" "-1 \<notin> set (bucket_list b)" "length (bucket_list b) + length zs = 7"
proof -
  have "-1 \<in> set b" using assms nth_mem [of 7 b] by (simp add: bucket_ok_def)
  then obtain ys zs where b: "b = ys @ (-1) # zs" "-1 \<notin> set ys" by (meson split_list_first)
  have "bucket_list b = ys"
    unfolding bucket_list_def b(1) using b(2) by (subst takeWhile_append2) auto
  moreover have "length ys + length zs = 7" using assms b(1) by (simp add: bucket_ok_def)
  ultimately show ?thesis using that [of zs] b by simp
qed

lemma bucket_list_length: "bucket_ok b \<Longrightarrow> length (bucket_list b) \<le> 7"
  by (erule bucket_split) linarith

lemma bucket_find:
  assumes "bucket_ok b"
  shows "find (\<lambda>i. b ! i = -1) [0..<7] =
    (if length (bucket_list b) < 7 then Some (length (bucket_list b)) else None)"
proof -
  let ?m = "length (bucket_list b)"
  obtain zs where b: "b = bucket_list b @ (-1) # zs" "-1 \<notin> set (bucket_list b)" "?m + length zs = 7"
    using bucket_split [OF assms] .
  have at: "b ! ?m = -1" by (subst b(1)) (simp only: nth_append_length)
  have before: "b ! i \<noteq> -1" if "i < ?m" for i
    using that b(2) by (subst b(1)) (metis nth_append nth_mem)
  show ?thesis
  proof (cases "?m < 7")
    case True
    then have "find (\<lambda>i. b ! i = -1) [0..<7] = Some ?m"
      unfolding find_Some_iff using before at by (intro exI [of _ ?m]) simp
    then show ?thesis using True by simp
  next
    case False
    then have "?m = 7" using b(3) by linarith
    then have "find (\<lambda>i. b ! i = -1) [0..<7] = None" unfolding find_None_iff using before by auto
    then show ?thesis using False by simp
  qed
qed

lemma bucket_update:
  assumes "bucket_ok b" "m = length (bucket_list b)" "m < 7" "idx \<noteq> -1"
  shows "bucket_ok (b[m := idx, m + 1 := -1]) \<and> bucket_list (b[m := idx, m + 1 := -1]) = bucket_list b @ [idx]"
proof -
  obtain zs where b: "b = bucket_list b @ (-1) # zs" "-1 \<notin> set (bucket_list b)" "m + length zs = 7"
    using bucket_split [OF assms(1)] assms(2) by metis
  then obtain z zs' where zs: "zs = z # zs'" using assms(3) by (cases zs) auto
  define ys where "ys = bucket_list b"
  have upd: "b[m := idx, m + 1 := -1] = ys @ idx # (-1) # zs'"
    by (subst b(1)) (simp add: assms(2) zs list_update_append flip: ys_def)
  have "bucket_list (ys @ idx # (-1) # zs') = ys @ [idx]"
    unfolding bucket_list_def using b(2) assms(4) by (subst takeWhile_append2) (auto simp: ys_def)
  moreover have "(ys @ idx # (-1) # zs') ! 7 = -1"
  proof -
    have "7 < length b" "b ! 7 = -1" using assms(1) by (auto simp: bucket_ok_def)
    then have "(b[m := idx, m + 1 := -1]) ! 7 = -1" using assms(3) by (simp add: nth_list_update)
    then show ?thesis unfolding upd .
  qed
  moreover have "length (ys @ idx # (-1) # zs') = 8" using b(3) zs by (simp add: ys_def assms(2))
  ultimately show ?thesis unfolding upd bucket_ok_def ys_def by blast
qed

subsection \<open>The dispatch invariant\<close>

text \<open>
  Every bucket lists, in order, exactly the entries whose channel hash selects it.
\<close>

definition keyset_inv :: "keyset \<Rightarrow> bool" where
  "keyset_inv k \<longleftrightarrow> length (ks_entries k) \<le> KEYSET_MAX_ENTRIES \<and> length (ks_buckets k) = 256
     \<and> (\<forall>h. bucket_ok (ks_buckets k ! unat h)
            \<and> bucket_list (ks_buckets k ! unat h)
              = map int (filter (\<lambda>i. ke_channel_hash (ks_entries k ! i) = h) [0..<length (ks_entries k)]))"

text \<open>The entries a packet with channel byte h is tried against.\<close>

definition keyset_candidates :: "keyset \<Rightarrow> byte \<Rightarrow> keyset_entry list" where
  "keyset_candidates k h = map (\<lambda>i. the (keyset_get k i)) (bucket_list (keyset_lookup k h))"

definition keyset_room :: "keyset \<Rightarrow> keyset_entry \<Rightarrow> bool" where
  "keyset_room k e \<longleftrightarrow> length (ks_entries k) < KEYSET_MAX_ENTRIES \<and> length (keyset_candidates k (ke_channel_hash e)) < 7"

lemma unat_byte_less: "unat (h :: byte) < 256"
  using unsigned_less [of h, where ?'a = nat] by simp

lemma keyset_inv_create: "keyset_inv keyset_create"
  using unat_byte_less
  by (simp add: keyset_inv_def keyset_create_def KEYSET_MAX_ENTRIES_def bucket_ok_def bucket_list_def)

lemma map_filter_nth: "map (\<lambda>i. xs ! i) (filter (\<lambda>i. P (xs ! i)) [0..<length xs]) = filter P xs"
  using filter_map [of P "(!) xs" "[0..<length xs]"] by (simp add: map_nth comp_def)

lemma keyset_candidates_filter:
  assumes "keyset_inv k"
  shows "keyset_candidates k h = filter (\<lambda>e. ke_channel_hash e = h) (ks_entries k)"
proof -
  have "keyset_candidates k h
      = map (\<lambda>i. the (keyset_get k (int i))) (filter (\<lambda>i. ke_channel_hash (ks_entries k ! i) = h) [0..<length (ks_entries k)])"
    using assms by (simp add: keyset_candidates_def keyset_lookup_def keyset_inv_def comp_def)
  also have "\<dots> = map (\<lambda>i. ks_entries k ! i) (filter (\<lambda>i. ke_channel_hash (ks_entries k ! i) = h) [0..<length (ks_entries k)])"
    by (rule map_cong) (auto simp: keyset_get_def)
  also have "\<dots> = filter (\<lambda>e. ke_channel_hash e = h) (ks_entries k)"
    by (rule map_filter_nth)
  finally show ?thesis .
qed

lemma keyset_bucket_count:
  "keyset_inv k \<Longrightarrow> length (bucket_list (ks_buckets k ! unat h)) = length (keyset_candidates k h)"
  by (simp add: keyset_candidates_def keyset_lookup_def)

lemma keyset_insert_room:
  assumes inv: "keyset_inv k" and room: "keyset_room k e"
  shows "fst (keyset_insert k e) = 0 \<and> keyset_inv (snd (keyset_insert k e))
    \<and> ks_entries (snd (keyset_insert k e)) = ks_entries k @ [e]"
proof -
  let ?h = "ke_channel_hash e" and ?n = "length (ks_entries k)"
  let ?b = "ks_buckets k ! unat ?h"
  have b: "bucket_ok ?b" and len: "length (ks_buckets k) = 256" using inv by (auto simp: keyset_inv_def)
  have m: "length (bucket_list ?b) < 7" using room inv by (simp add: keyset_room_def keyset_bucket_count)
  define b' where "b' = ?b[length (bucket_list ?b) := int ?n, length (bucket_list ?b) + 1 := -1]"
  define k' where "k' = k\<lparr> ks_buckets := (ks_buckets k)[unat ?h := b'], ks_entries := ks_entries k @ [e] \<rparr>"
  have ins: "keyset_insert k e = (0, k')"
    using room m by (simp add: keyset_insert_def keyset_room_def bucket_push_def bucket_find [OF b] Let_def b'_def k'_def)
  have b': "bucket_ok b'" "bucket_list b' = bucket_list ?b @ [int ?n]"
    using bucket_update [OF b refl m, of "int ?n"] by (auto simp: b'_def)
  have nth: "ks_buckets k' ! unat h = (if h = ?h then b' else ks_buckets k ! unat h)" for h
    using len unat_byte_less [of ?h] by (auto simp: nth_list_update k'_def word_unat_eq_iff)
  have old: "filter (\<lambda>i. ke_channel_hash (ks_entries k' ! i) = h) [0..<length (ks_entries k')]
      = filter (\<lambda>i. ke_channel_hash (ks_entries k ! i) = h) [0..<?n] @ (if h = ?h then [?n] else [])" for h
  proof -
    have "filter (\<lambda>i. ke_channel_hash ((ks_entries k @ [e]) ! i) = h) [0..<?n]
        = filter (\<lambda>i. ke_channel_hash (ks_entries k ! i) = h) [0..<?n]"
      by (rule filter_cong) (auto simp: nth_append)
    then show ?thesis by (simp add: k'_def)
  qed
  have "bucket_ok (ks_buckets k' ! unat h) \<and> bucket_list (ks_buckets k' ! unat h)
      = map int (filter (\<lambda>i. ke_channel_hash (ks_entries k' ! i) = h) [0..<length (ks_entries k')])" for h
    unfolding nth old using b' inv by (simp add: keyset_inv_def)
  moreover have "length (ks_entries k') \<le> KEYSET_MAX_ENTRIES" "length (ks_buckets k') = 256"
    using room len by (simp_all add: k'_def keyset_room_def)
  ultimately have "keyset_inv k'" unfolding keyset_inv_def by blast
  then show ?thesis by (simp add: ins) (simp add: k'_def)
qed

lemma keyset_insert_full:
  assumes inv: "keyset_inv k" and room: "\<not> keyset_room k e"
  shows "keyset_insert k e = (-1, k)"
proof (cases "length (ks_entries k) < KEYSET_MAX_ENTRIES")
  case True
  let ?b = "ks_buckets k ! unat (ke_channel_hash e)"
  have b: "bucket_ok ?b" using inv by (auto simp: keyset_inv_def)
  have "\<not> length (bucket_list ?b) < 7"
    using True room inv by (simp add: keyset_room_def keyset_bucket_count)
  then show ?thesis using True by (simp add: keyset_insert_def bucket_push_def bucket_find [OF b] Let_def)
qed (simp add: keyset_insert_def)

subsection \<open>The dispatch contract\<close>

text \<open>
  What the packet decoder and the key discovery rely on: an insertion into a store with
  room appends the entry to the candidates of its own hash and touches no other hash;
  an insertion without room changes nothing.
\<close>

locale key_dispatch =
  fixes inv :: "'k \<Rightarrow> bool" and cand :: "'k \<Rightarrow> byte \<Rightarrow> 'e list"
    and ins :: "'k \<Rightarrow> 'e \<Rightarrow> int \<times> 'k" and hash :: "'e \<Rightarrow> byte" and room :: "'k \<Rightarrow> 'e \<Rightarrow> bool"
  assumes ins_room: "inv k \<Longrightarrow> room k e \<Longrightarrow> fst (ins k e) = 0 \<and> inv (snd (ins k e))
      \<and> cand (snd (ins k e)) h = cand k h @ (if hash e = h then [e] else [])"
    and ins_full: "inv k \<Longrightarrow> \<not> room k e \<Longrightarrow> ins k e = (-1, k)"
begin

lemma ins_inv: "inv k \<Longrightarrow> inv (snd (ins k e))"
  using ins_room ins_full by (cases "room k e") auto

lemma ins_result: "inv k \<Longrightarrow> fst (ins k e) = (if room k e then 0 else -1)"
  using ins_room ins_full by (cases "room k e") auto

lemma ins_cand: "inv k \<Longrightarrow> cand (snd (ins k e)) h = cand k h @ (if room k e \<and> hash e = h then [e] else [])"
  using ins_room ins_full by (cases "room k e") auto

text \<open>Candidates only ever grow at the end: a key that is found stays found, in the same order.\<close>

lemma cand_prefix: "inv k \<Longrightarrow> \<exists>new. cand (snd (ins k e)) h = cand k h @ new"
  by (simp add: ins_cand)

end

interpretation keys: key_dispatch keyset_inv keyset_candidates keyset_insert ke_channel_hash keyset_room
proof
  fix k e h
  assume k: "keyset_inv k" "keyset_room k e"
  note ins = keyset_insert_room [OF k]
  then show "fst (keyset_insert k e) = 0 \<and> keyset_inv (snd (keyset_insert k e))
      \<and> keyset_candidates (snd (keyset_insert k e)) h
        = keyset_candidates k h @ (if ke_channel_hash e = h then [e] else [])"
    using keyset_candidates_filter [of "snd (keyset_insert k e)" h] keyset_candidates_filter [OF k(1), of h] by simp
qed (rule keyset_insert_full)


lemma keyset_add_insert:
  "psk_len_ok psk \<Longrightarrow> keyset_add k name psk =
     keyset_insert k \<lparr> ke_channel_name = entry_name ''LongFast'' name, ke_psk = psk,
       ke_channel_hash = mesh_channel_hash (entry_name ''LongFast'' name) psk \<rparr>"
  by (simp add: keyset_add_def Let_def mesh_channel_hash_def xor_bytes_def xor_hash_bytes_def)

lemma keyset_add_inv [inv_intros]: "keyset_inv k \<Longrightarrow> keyset_inv (snd (keyset_add k name psk))"
  by (cases "psk_len_ok psk") (simp_all add: keyset_add_insert keys.ins_inv, simp add: keyset_add_def)

lemma keyset_add_raw_inv [inv_intros]: "keyset_inv k \<Longrightarrow> keyset_inv (snd (keyset_add_raw k h psk name))"
  by (simp add: keyset_add_raw_def keys.ins_inv)

lemma keyset_add_psk_inv [inv_intros]: "keyset_inv k \<Longrightarrow> keyset_inv (snd (keyset_add_psk k name psk))"
  by (simp add: keyset_add_psk_def keyset_add_inv)

lemma add_default_all_inv [inv_intros]: "keyset_inv k \<Longrightarrow> keyset_inv (snd (add_default_all k))"
proof -
  have "keyset_inv k \<Longrightarrow> keyset_inv (snd (foldl (\<lambda>(rc, k) p.
      let (r, k') = keyset_add k (Some (pr_channel_name p)) (make_simple_psk 1) in (if r < 0 then -1 else rc, k')) (rc, k) ps))"
    for rc ps
    by (induction ps arbitrary: rc k) (auto simp: split_beta Let_def keyset_add_inv)
  then show "keyset_inv k \<Longrightarrow> keyset_inv (snd (add_default_all k))" by (simp add: add_default_all_def)
qed

lemma keyset_parse_spec_inv [inv_intros]: "keyset_inv k \<Longrightarrow> keyset_inv (snd (keyset_parse_spec k spec))"
  by (simp add: keyset_parse_spec_def Let_def split_beta add_default_all_inv keyset_add_psk_inv split: option.split)

text \<open>
  C20: whatever key list the operator gives, the store keeps its dispatch invariant: every
  bucket is terminated, holds at most seven indices, and lists exactly the entries
  whose channel hash selects it; there are never more than 64 entries.
\<close>

theorem keyset_parse_csv_invariant: "keyset_inv (snd (keyset_parse_csv keyset_create csv))"
proof -
  have "keyset_inv k \<Longrightarrow> keyset_inv (snd (foldl (\<lambda>(ok, k) tok.
      let tok = dropWhile is_blank tok in if tok = [] then (ok, k)
      else let (r, k') = keyset_parse_spec k tok in (if r = 0 then ok + 1 else ok, k')) (ok, k) ts))"
    for ts k and ok :: int
    by (induction ts arbitrary: ok k) (auto simp: split_beta Let_def keyset_parse_spec_inv)
  then show ?thesis using keyset_inv_create by (simp add: keyset_parse_csv_def)
qed

text \<open>
  C19: adding a key makes exactly that key reachable.  The call fails, and changes nothing,
  if and only if the key length is not 0, 16 or 32, the store is full, or seven keys
  already share the channel hash; otherwise the new entry is tried last for its own
  channel hash and the candidates of every other hash stay as they were.
\<close>

theorem keyset_add_dispatch:
  assumes "keyset_inv k"
  shows "let e = \<lparr> ke_channel_name = entry_name ''LongFast'' name, ke_psk = psk,
               ke_channel_hash = mesh_channel_hash (entry_name ''LongFast'' name) psk \<rparr>;
             fails = (\<not> psk_len_ok psk \<or> length (ks_entries k) \<ge> 64
                      \<or> length (keyset_candidates k (ke_channel_hash e)) \<ge> 7);
             (r, k') = keyset_add k name psk
         in r = (if fails then -1 else 0) \<and> (fails \<longrightarrow> k' = k)
            \<and> keyset_candidates k' h = keyset_candidates k h @ (if \<not> fails \<and> ke_channel_hash e = h then [e] else [])"
proof (cases "psk_len_ok psk")
  case True
  define e where "e = \<lparr> ke_channel_name = entry_name ''LongFast'' name, ke_psk = psk,
    ke_channel_hash = mesh_channel_hash (entry_name ''LongFast'' name) psk \<rparr>"
  have room: "keyset_room k e \<longleftrightarrow> \<not> (64 \<le> length (ks_entries k) \<or> 7 \<le> length (keyset_candidates k (ke_channel_hash e)))"
    by (auto simp: keyset_room_def KEYSET_MAX_ENTRIES_def)
  show ?thesis
    unfolding e_def [symmetric] keyset_add_insert [OF True]
    using True keys.ins_result [OF assms, of e] keys.ins_full [OF assms, of e] keys.ins_cand [OF assms, of e h]
    by (auto simp: Let_def split_beta room)
qed (simp add: keyset_add_def)

theorem keyset_add_dispatch_witness:
  "let (r, k') = keyset_add keyset_create (Some ''LongFast'') MESH_DEFAULT_PSK
   in r = 0 \<and> keyset_candidates k' 8 = [\<lparr> ke_channel_name = ''LongFast'', ke_psk = MESH_DEFAULT_PSK, ke_channel_hash = 8 \<rparr>]"
proof -
  have "psk_len_ok MESH_DEFAULT_PSK" "entry_name ''LongFast'' (Some ''LongFast'') = ''LongFast''"
    "mesh_channel_hash ''LongFast'' MESH_DEFAULT_PSK = 8"
    by (simp_all add: psk_len_ok_def MESH_DEFAULT_PSK_def entry_name_def KEYSET_MAX_NAME_def mesh_channel_hash_def
        str_bytes_def xor_hash_bytes_def)
  moreover have es: "ks_entries keyset_create = []" by (simp add: keyset_create_def)
  moreover have "keyset_candidates keyset_create 8 = []"
    by (simp add: keyset_candidates_filter [OF keyset_inv_create] es)
  ultimately show ?thesis
    using keyset_add_dispatch [OF keyset_inv_create, of "Some ''LongFast''" MESH_DEFAULT_PSK 8]
    by (simp add: Let_def split_beta)
qed

subsection \<open>Base64\<close>

text \<open>The reference encoder (RFC 4648, without padding).\<close>

definition b64_alphabet :: string where
  "b64_alphabet = ''ABCDEFGHIJKLMNOPQRSTUVWXYZabcdefghijklmnopqrstuvwxyz0123456789+/''"

definition b64_char :: "byte \<Rightarrow> char" where
  "b64_char v = b64_alphabet ! unat v"

fun b64_encode :: "bytes \<Rightarrow> string" where
  "b64_encode (a # b # c # rest) =
     b64_char (drop_bit 2 a) # b64_char (push_bit 4 (a AND 3) OR drop_bit 4 b)
     # b64_char (push_bit 2 (b AND 15) OR drop_bit 6 c) # b64_char (c AND 63) # b64_encode rest"
| "b64_encode [a, b] =
     [b64_char (drop_bit 2 a), b64_char (push_bit 4 (a AND 3) OR drop_bit 4 b), b64_char (push_bit 2 (b AND 15))]"
| "b64_encode [a] = [b64_char (drop_bit 2 a), b64_char (push_bit 4 (a AND 3))]"
| "b64_encode [] = []"

lemma b64_values: "map b64_value b64_alphabet = map int [0..<64]"
  by (simp add: b64_alphabet_def b64_value_def upt_rec)

lemma length_b64_alphabet [simp]: "length b64_alphabet = 64"
  by (simp add: b64_alphabet_def)

lemma b64_value_char: "unat v < 64 \<Longrightarrow> b64_value (b64_char v) = uint v"
proof -
  assume v: "unat v < 64"
  then have "map b64_value b64_alphabet ! unat v = map int [0..<64] ! unat v" by (simp only: b64_values)
  then show ?thesis using v by (simp add: b64_char_def)
qed

text \<open>The six-bit groups of the encoder stay below 64.\<close>

lemma bit_mask_bytes:
  "bit (3 :: byte) n \<longleftrightarrow> n < 2" "bit (15 :: byte) n \<longleftrightarrow> n < 4" "bit (63 :: byte) n \<longleftrightarrow> n < 6"
proof -
  have "(3 :: byte) = mask 2" "(15 :: byte) = mask 4" "(63 :: byte) = mask 6" by (simp_all add: mask_eq_exp_minus_1)
  then show "bit (3 :: byte) n \<longleftrightarrow> n < 2" "bit (15 :: byte) n \<longleftrightarrow> n < 4" "bit (63 :: byte) n \<longleftrightarrow> n < 6"
    by (simp_all only: bit_mask_iff) auto
qed

lemma byte_bit_less: "bit (b :: byte) n \<Longrightarrow> n < 8"
  by (drule bit_imp_le_length) simp

lemma byte_bit_high: "8 \<le> n \<Longrightarrow> \<not> bit (b :: byte) n"
  by (auto dest: byte_bit_less)

lemmas b64_bits = bit_or_iff bit_and_iff bit_push_bit_iff bit_drop_bit_eq bit_mask_bytes comp_def

lemma b64_group_less:
  "unat (drop_bit 2 a :: byte) < 64" "unat (push_bit 4 (a AND 3) OR drop_bit 4 b :: byte) < 64"
  "unat (push_bit 2 (b AND 15) OR drop_bit 6 c :: byte) < 64" "unat (c AND 63 :: byte) < 64"
  "unat (push_bit 4 (a AND 3) :: byte) < 64" "unat (push_bit 2 (b AND 15) :: byte) < 64"
proof -
  have six: "unat w < 64" if "\<And>n. bit w n \<Longrightarrow> n < 6" for w :: byte
    using unat_less_if_not_bit [of 6 w] that by (force simp: not_less)
  show "unat (drop_bit 2 a :: byte) < 64"
    by (rule six, unfold b64_bits) (auto dest: byte_bit_less)
  show "unat (push_bit 4 (a AND 3) OR drop_bit 4 b :: byte) < 64"
    by (rule six, unfold b64_bits) (auto dest: byte_bit_less)
  show "unat (push_bit 2 (b AND 15) OR drop_bit 6 c :: byte) < 64"
    by (rule six, unfold b64_bits) (auto dest: byte_bit_less)
  show "unat (c AND 63 :: byte) < 64" by (rule six, unfold b64_bits) auto
  show "unat (push_bit 4 (a AND 3) :: byte) < 64" by (rule six, unfold b64_bits) auto
  show "unat (push_bit 2 (b AND 15) :: byte) < 64" by (rule six, unfold b64_bits) auto
qed

lemma byte_eqI:
  assumes "bit a 0 = bit b 0" "bit a 1 = bit b 1" "bit a 2 = bit b 2" "bit a 3 = bit b 3"
    "bit a 4 = bit b 4" "bit a 5 = bit b 5" "bit a 6 = bit b 6" "bit a 7 = bit b 7"
  shows "a = (b :: byte)"
proof (rule bit_word_eqI)
  fix n assume "n < LENGTH(8)"
  then have "n \<in> {0, 1, 2, 3, 4, 5, 6, 7}" by auto
  then show "bit a n = bit b n" using assms by auto
qed

lemma b64_out_bit:
  assumes "k < 8"
  shows "bit (ucast (drop_bit m (acc :: u32) AND 0xff) :: byte) k = bit acc (m + k)"
proof -
  have "bit (0xff :: u32) n \<longleftrightarrow> n < 8" for n
  proof -
    have "(0xff :: u32) = mask 8" by (simp add: mask_eq_exp_minus_1)
    then show ?thesis by (simp only: bit_mask_iff) auto
  qed
  note ff = this
  show ?thesis using assms by (unfold bit_ucast_iff bit_and_iff bit_drop_bit_eq ff comp_def) auto
qed

definition b64_step :: "u32 \<Rightarrow> byte \<Rightarrow> u32" where
  "b64_step acc v = push_bit 6 acc OR word_of_int (uint v)"

definition b64_out :: "nat \<Rightarrow> u32 \<Rightarrow> byte" where
  "b64_out m acc = ucast (drop_bit m acc AND 0xff)"

lemma b64_step_bit:
  "k < 32 \<Longrightarrow> bit (b64_step acc v) k = (6 \<le> k \<and> bit acc (k - 6) \<or> bit v k)"
  by (auto simp: b64_step_def bit_or_iff bit_push_bit_iff bit_ucast_iff)

lemma b64_out_step:
  assumes "m \<le> 4"
    "\<forall>n \<in> {0, 1, 2, 3, 4, 5, 6, 7}. bit x n = ((6 \<le> m + n \<and> bit v1 (m + n - 6)) \<or> bit v2 (m + n))"
  shows "b64_out m (b64_step (b64_step acc v1) v2) = x"
proof (rule bit_word_eqI)
  fix n assume "n < LENGTH(8)"
  then have n: "n < 8" by simp
  then have "n \<in> {0, 1, 2, 3, 4, 5, 6, 7}" by auto
  with assms(2) have x: "bit x n = ((6 \<le> m + n \<and> bit v1 (m + n - 6)) \<or> bit v2 (m + n))" by blast
  have "\<not> 6 \<le> m + n - 6" using assms(1) n by simp
  then show "bit (b64_out m (b64_step (b64_step acc v1) v2)) n = bit x n"
    using n x assms(1) by (simp add: b64_out_def b64_out_bit b64_step_bit)
qed

lemma b64_out_group:
  "b64_out 4 (b64_step (b64_step acc (drop_bit 2 a)) (push_bit 4 (a AND 3) OR drop_bit 4 b)) = a"
  "b64_out 4 (b64_step (b64_step acc (drop_bit 2 a)) (push_bit 4 (a AND 3))) = a"
  "b64_out 2 (b64_step (b64_step acc (push_bit 4 (a AND 3) OR drop_bit 4 b)) (push_bit 2 (b AND 15) OR drop_bit 6 c)) = b"
  "b64_out 2 (b64_step (b64_step acc (push_bit 4 (a AND 3) OR drop_bit 4 b)) (push_bit 2 (b AND 15))) = b"
  "b64_out 0 (b64_step (b64_step acc (push_bit 2 (b AND 15) OR drop_bit 6 c)) (c AND 63)) = c"
proof -
  show "b64_out 4 (b64_step (b64_step acc (drop_bit 2 a)) (push_bit 4 (a AND 3) OR drop_bit 4 b)) = a"
    by (rule b64_out_step, simp, unfold b64_bits, simp add: byte_bit_high; simp add: eval_nat_numeral)
  show "b64_out 4 (b64_step (b64_step acc (drop_bit 2 a)) (push_bit 4 (a AND 3))) = a"
    by (rule b64_out_step, simp, unfold b64_bits, simp add: byte_bit_high; simp add: eval_nat_numeral)
  show "b64_out 2 (b64_step (b64_step acc (push_bit 4 (a AND 3) OR drop_bit 4 b)) (push_bit 2 (b AND 15) OR drop_bit 6 c)) = b"
    by (rule b64_out_step, simp, unfold b64_bits, simp add: byte_bit_high; simp add: eval_nat_numeral)
  show "b64_out 2 (b64_step (b64_step acc (push_bit 4 (a AND 3) OR drop_bit 4 b)) (push_bit 2 (b AND 15))) = b"
    by (rule b64_out_step, simp, unfold b64_bits, simp add: byte_bit_high; simp add: eval_nat_numeral)
  show "b64_out 0 (b64_step (b64_step acc (push_bit 2 (b AND 15) OR drop_bit 6 c)) (c AND 63)) = c"
    by (rule b64_out_step, simp, unfold b64_bits, simp add: byte_bit_high; simp add: eval_nat_numeral)
qed

lemma b64_loop_char:
  assumes "unat v < 64"
  shows "b64_loop m (b64_char v # rest) acc bits out =
    (if bits + 6 \<ge> 8
     then (if length out \<ge> m then None
           else b64_loop m rest (b64_step acc v) (bits - 2) (out @ [b64_out (bits - 2) (b64_step acc v)]))
     else b64_loop m rest (b64_step acc v) (bits + 6) out)"
  using b64_value_char [OF assms] by (simp add: Let_def b64_step_def b64_out_def)

lemma b64_loop_encode:
  "length out + length bs \<le> m \<Longrightarrow> b64_loop m (b64_encode bs) acc 0 out = Some (out @ bs)"
proof (induction bs arbitrary: acc out rule: b64_encode.induct)
  case (1 a b c rest)
  then show ?case by (simp add: b64_loop_char b64_group_less b64_out_group del: b64_loop.simps(2) push_bit_and)
next
  case (2 a b)
  then show ?case by (simp add: b64_loop_char b64_group_less b64_out_group del: b64_loop.simps(2) push_bit_and)
next
  case (3 a)
  then show ?case by (simp add: b64_loop_char b64_group_less b64_out_group del: b64_loop.simps(2) push_bit_and)
next
  case 4
  then show ?case by simp
qed

lemma b64_char_not_pad: "unat v < 64 \<Longrightarrow> \<not> b64_pad (b64_char v)"
proof
  assume v: "unat v < 64" and pad: "b64_pad (b64_char v)"
  have "b64_value c < 0" if "b64_pad c" for c
    using that unfolding b64_pad_def by (elim disjE) (simp_all add: b64_value_def)
  then show False using b64_value_char [OF v] pad by fastforce
qed

lemma b64_encode_last: "bs \<noteq> [] \<Longrightarrow> b64_encode bs \<noteq> [] \<and> \<not> b64_pad (last (b64_encode bs))"
proof (induction bs rule: b64_encode.induct)
  case (1 a b c rest)
  then show ?case by (cases rest) (auto simp: b64_char_not_pad b64_group_less simp del: push_bit_and)
qed (auto simp: b64_char_not_pad b64_group_less simp del: push_bit_and)

lemma trim_end_append:
  assumes "\<forall>c \<in> set pad. P c" "s = [] \<or> \<not> P (last s)"
  shows "trim_end P (s @ pad) = s"
proof -
  have "dropWhile P (rev s) = rev s"
    using assms(2) by (cases s rule: rev_cases) (auto simp del: dropWhile_eq_self_iff)
  moreover have "dropWhile P (rev pad @ rev s) = dropWhile P (rev s)"
    using assms(1) by (intro dropWhile_append2) auto
  ultimately show ?thesis by (simp add: trim_end_def)
qed

text \<open>
  C21: The base64 decoder of the keyset inverts standard base64: the encoding of any byte string that fits
  the output buffer, followed by any amount of padding (the equals sign, spaces or line ends), decodes to
  exactly that byte string.\<close>

theorem base64_roundtrip:
  assumes "length bs \<le> max_out" "list_all b64_pad pad"
  shows "b64_decode (b64_encode bs @ pad) max_out = Some bs"
proof -
  have "trim_end b64_pad (b64_encode bs @ pad) = b64_encode bs"
    using assms(2) b64_encode_last [of bs] by (intro trim_end_append; cases bs) (auto simp: list_all_iff)
  then show ?thesis using assms(1) by (simp add: b64_decode_def b64_loop_encode)
qed

theorem base64_roundtrip_witness:
  "b64_decode (b64_encode [0xD4, 0xF1, 0xBB, 0x3A] @ ''=='') 32 = Some [0xD4, 0xF1, 0xBB, 0x3A]"
  by (rule base64_roundtrip) (simp_all add: b64_pad_def)

lemma dropWhile_append_stop: "us \<noteq> [] \<Longrightarrow> \<not> P (hd us) \<Longrightarrow> dropWhile P (t @ us) = dropWhile P t @ us"
  by (induction t) (cases us, auto)

lemma spec_psk_padding: "v \<in> {[], ''=''} \<Longrightarrow> spec_psk v = None"
proof -
  assume "v \<in> {[], ''=''}"
  then consider "v = []" | "v = ''=''" by blast
  then show ?thesis
  proof cases
    case 1
    then show ?thesis by (simp add: spec_psk_def b64_decode_def trim_end_def hex_decode_def)
  next
    case 2
    have "b64_decode ''='' 32 = Some []" by (simp add: b64_decode_def trim_end_def b64_pad_def)
    moreover have "hex_decode ''='' 32 = None" by (simp add: hex_decode_def)
    ultimately show ?thesis using 2 by (simp add: spec_psk_def)
  qed
qed

lemma keyset_parse_spec_padding:
  assumes "CHR ''='' \<notin> set t" "v \<in> {[], ''=''}"
  shows "keyset_parse_spec ks (t @ CHR ''='' # v) = (-1, ks)"
proof -
  define u where "u = dropWhile is_blank t"
  have u: "CHR ''='' \<notin> set u" using assms(1) set_dropWhileD unfolding u_def by fast
  have "dropWhile is_blank (t @ CHR ''='' # v) = u @ CHR ''='' # v"
    unfolding u_def by (rule dropWhile_append_stop) (simp_all add: is_blank_def)
  moreover have "takeWhile (\<lambda>ch. ch \<noteq> CHR ''='') (u @ CHR ''='' # v) = u"
    using u by (subst takeWhile_append2) auto
  then have "split_spec (u @ CHR ''='' # v) = (Some (trim_end is_blank (take (KEYSET_MAX_NAME - 1) u)), v)"
    using assms(2) by (auto simp: split_spec_def is_blank_def)
  ultimately show ?thesis using spec_psk_padding [OF assms(2)] by (simp add: keyset_parse_spec_def)
qed

text \<open>
  A key specification without a channel name whose text ends in base64 padding (one or two equals signs)
  is refused and leaves the keyset unchanged, whatever the key: the parser takes the first equals sign as the
  separator after a channel name, so the padding turns the key into a channel name with an empty key. This
  includes the documented form that starts with the base64 prefix.\<close>

lemma padded_bare_key_refused:
  assumes "CHR ''='' \<notin> set t"
  shows "keyset_parse_spec ks (t @ ''='') = (-1, ks) \<and> keyset_parse_spec ks (t @ ''=='') = (-1, ks)"
  using keyset_parse_spec_padding [OF assms, of "[]"] keyset_parse_spec_padding [OF assms, of "''=''"] by simp

lemma b64_loop_length:
  assumes "\<forall>c \<in> set s. 0 \<le> b64_value c" "bits < 8" "length out + (bits + 6 * length s) div 8 \<le> m"
  shows "\<exists>bs. b64_loop m s acc bits out = Some bs \<and> length bs = length out + (bits + 6 * length s) div 8"
  using assms
proof (induction s arbitrary: acc bits out)
  case (Cons c s)
  define acc' where "acc' = push_bit 6 acc OR word_of_int (b64_value c)"
  define out' where "out' = out @ [ucast (drop_bit (bits - 2) acc' AND 0xff)]"
  have c: "\<not> b64_value c < 0" and s: "\<forall>c \<in> set s. 0 \<le> b64_value c" using Cons.prems(1) by auto
  show ?case
  proof (cases "2 \<le> bits")
    case True
    then have "bits + 6 * length (c # s) = 8 + (bits - 2 + 6 * length s)" by simp
    then have len: "(bits + 6 * length (c # s)) div 8 = Suc ((bits - 2 + 6 * length s) div 8)" by simp
    have "b64_loop m (c # s) acc bits out = b64_loop m s acc' (bits - 2) out'"
      using c True Cons.prems(3) unfolding len by (simp add: Let_def acc'_def out'_def)
    then show ?thesis
      using Cons.IH [OF s, of "bits - 2" out' acc'] Cons.prems(2,3) unfolding len by (simp add: out'_def)
  next
    case False
    then have "b64_loop m (c # s) acc bits out = b64_loop m s acc' (bits + 6) out"
      using c by (simp add: Let_def acc'_def)
    moreover have "bits + 6 * length (c # s) = bits + 6 + 6 * length s" by simp
    ultimately show ?thesis
      using Cons.IH [OF s, of "bits + 6" out acc'] Cons.prems(3) False by (simp add: add.assoc)
  qed
qed simp

lemma hex_digit_cases:
  assumes "0 \<le> hex_nibble c"
  shows "(of_char c :: nat) \<in> {48..57} \<union> {97..102} \<union> {65..70}"
proof (rule ccontr)
  assume "\<not> ?thesis"
  then have "hex_nibble c = -1" by (auto simp: hex_nibble_def Let_def)
  with assms show False by simp
qed

lemma hex_digit_lower:
  assumes "0 \<le> hex_nibble c"
  shows "(of_char (to_lower c) :: nat) \<in> {48..57} \<union> {97..102}"
proof (cases "(of_char c :: nat) \<in> {65..70}")
  case True
  then have "to_lower c = char_of (of_char c + 32 :: nat)" by (simp add: to_lower_def Let_def)
  then have "(of_char (to_lower c) :: nat) = (of_char c + 32) mod 256" by (simp only: of_char_of)
  also have "\<dots> = of_char c + 32" using True by (intro mod_less) simp
  finally show ?thesis using True by simp
next
  case False
  then have "to_lower c = c" using hex_digit_cases [OF assms] by (auto simp: to_lower_def Let_def)
  then show ?thesis using False hex_digit_cases [OF assms] by auto
qed

lemma hex_digit_char:
  assumes "0 \<le> hex_nibble c"
  shows "0 \<le> b64_value c" "\<not> b64_pad c" "\<not> is_blank c" "c \<noteq> CHR ''=''" "c \<noteq> CHR '':''" "to_lower c \<noteq> CHR ''s''"
    "to_lower c \<noteq> CHR '':''"
proof -
  note n = hex_digit_cases [OF assms]
  show "0 \<le> b64_value c" using n by (auto simp: b64_value_def Let_def)
  show "\<not> b64_pad c" using n by (auto simp: b64_pad_def)
  show "\<not> is_blank c" using n by (auto simp: is_blank_def)
  show "c \<noteq> CHR ''=''" using n by auto
  show "c \<noteq> CHR '':''" using n by auto
  show "to_lower c \<noteq> CHR ''s''" "to_lower c \<noteq> CHR '':''" using hex_digit_lower [OF assms] by auto
qed

lemma hex_digits_no_prefix:
  assumes "\<forall>c \<in> set s. 0 \<le> hex_nibble c"
  shows "\<not> strcasematch (take 6 s) ''simple''" "\<not> strcasematch (take 4 s) ''hex:''"
    "\<not> strcasematch (take 7 s) ''base64:''"
proof -
  have no_match: "\<not> strcasematch (take k s) (w @ [CHR '':''])" for k w
  proof
    assume "strcasematch (take k s) (w @ [CHR '':''])"
    then have "map to_lower (take k s) = map to_lower w @ [to_lower CHR '':'']" by (simp add: strcasematch_iff)
    then have "CHR '':'' \<in> set (map to_lower (take k s))" by (simp add: to_lower_def)
    then obtain c where "c \<in> set s" "to_lower c = CHR '':''" using set_take_subset [of k s] by auto
    then show False using hex_digit_char(7) [of c] assms by simp
  qed
  show "\<not> strcasematch (take 4 s) ''hex:''" using no_match [of 4 "''hex''"] by simp
  show "\<not> strcasematch (take 7 s) ''base64:''" using no_match [of 7 "''base64''"] by simp
  show "\<not> strcasematch (take 6 s) ''simple''"
    using assms hex_digit_char(6) [of "hd s"] by (cases s) (auto simp: to_lower_def [of "CHR ''s''"])
qed

text \<open>
  A bare AES-128 key in hexadecimal is refused although the parser announces a hexadecimal fallback: its
  32 digits are also base64 characters, so the base64 attempt succeeds with 24 bytes, a length that is not a
  key length, and the hexadecimal reading is never tried.\<close>

lemma bare_hex_key_refused:
  assumes hex: "\<forall>c \<in> set s. 0 \<le> hex_nibble c" and len: "length s = 32"
  shows "keyset_parse_spec ks s = (-1, ks)"
proof -
  note chars = hex_digit_char [OF bspec [OF hex]]
  have s: "s \<noteq> []" using len by auto
  have blank: "dropWhile is_blank s = s" using chars(3) [of "hd s"] s by (cases s) auto
  have spec: "split_spec s = (None, s)" using chars(4) [of "CHR ''=''"] by (auto simp: split_spec_def)
  have "trim_end b64_pad s = s"
    using trim_end_append [of "[]" b64_pad s] chars(2) [of "last s"] s by simp
  moreover obtain bs where "b64_loop 32 s 0 0 [] = Some bs" "length bs = 24"
    using b64_loop_length [of s 0 "[]" 32 0] chars(1) len by auto
  ultimately have bs: "b64_decode s 32 = Some bs" "length bs = 24" by (simp_all add: b64_decode_def)
  have words: "\<not> strcasematch s ''default''" "\<not> strcasematch s ''none''" "\<not> strcasematch s ''unencrypted''"
    using len by (auto simp: strcasematch_iff dest: map_eq_imp_length_eq)
  have "spec_psk s = Some bs"
    using words hex_digits_no_prefix [OF hex] bs by (auto simp: spec_psk_def Let_def split: list.split)
  then show ?thesis using blank spec s words bs(2)
    by (simp add: keyset_parse_spec_def keyset_add_psk_def psk_len_ok_def)
qed

end
