(* ===== verification/Mesh_Event.thy ===== *)
theory Mesh_Event
  imports Keyset
begin

text \<open>
  The event that both packet decoders emit (\<^verbatim>\<open>mesh_event_t\<close> of \<^verbatim>\<open>src/mesh_packet.h\<close>) with the
  Meshtastic radio header inside it, and the hexadecimal dump both decoders put into it.
  The fields of the MeshCore path form a record of their own.  A float that is only copied
  is its 32-bit pattern; degrees are the transmitted integers; character arrays are the
  strings before the terminating zero.
\<close>

record mesh_header =
  hd_to :: u32
  hd_from :: u32
  hd_packet_id :: u32
  hd_flags :: byte
  hd_channel :: byte
  hd_next_hop :: byte
  hd_relay_node :: byte

record mc_event =
  is_meshcore :: bool
  mc_route_type :: int
  mc_payload_type :: int
  mc_payload_ver :: int
  mc_type_name :: string
  mc_dest_hash :: byte
  mc_src_hash :: byte
  mc_channel_hash :: byte
  mc_timestamp :: u32
  mc_node_name :: string
  mc_text :: string
  mc_pubkey :: bytes
  mc_path_hop_count :: nat
  mc_path_snrs :: bytes
  mc_path_hashes :: bytes
  mc_hdr_path_hash_count :: nat
  mc_hdr_path_hash_size :: nat
  mc_hdr_path :: bytes
  mc_sig_valid :: bool
  mc_data_type :: u16
  mc_data_len :: u16
  mc_txt_type :: byte
  mc_telemetry_json :: string
  mc_adv_type :: byte
  mc_has_latlon :: bool
  mc_lat_e6 :: int
  mc_lon_e6 :: int
  mc_has_name :: bool
  mc_extra1 :: u16
  mc_extra2 :: u16
  mc_has_region_scope :: bool
  mc_region_code1 :: u16
  mc_region_code2 :: u16
  mc_region_name :: string
  mc_multipart_remaining :: byte
  mc_multipart_inner_type :: int
  mc_ctl_subtype :: string
  mc_ctl_tag :: u32
  mc_ctl_filter :: byte
  mc_ctl_since :: u32
  mc_ctl_snr_q4 :: int

record mesh_event =
  ev_header :: mesh_header
  ev_hop_limit :: int
  ev_hop_start :: int
  ev_want_ack :: bool
  ev_via_mqtt :: bool
  ev_decrypted :: bool
  ev_channel_name :: string
  ev_rssi_db :: u32
  ev_snr_db :: u32
  ev_sf :: int
  ev_cr :: int
  ev_bw_hz :: int
  ev_freq_hz :: u64
  ev_preset_name :: string
  ev_slot_id :: int
  ev_has_crc :: bool
  ev_payload_crc_ok :: bool
  ev_crc_corrected :: bool
  ev_crc_corrected_bits :: int
  ev_cfo_hz :: u32
  ev_station_t_ns :: u64
  ev_station_t_acc_ns :: u32
  ev_preamble_lock_sample_idx :: u64
  ev_sample_rate_sps :: u64
  ev_preamble_lock_sample_frac :: u32
  ev_preamble_lock_t_ns :: u64
  ev_portnum :: u32
  ev_payload :: "bytes option"
  ev_raw_hex :: string
  ev_request_id :: u32
  ev_reply_id :: u32
  ev_want_response :: bool
  ev_mc :: mc_event

text \<open>\<^verbatim>\<open>memset(&ev, 0, sizeof(ev))\<close>.\<close>

definition mesh_header0 :: mesh_header where
  "mesh_header0 = \<lparr> hd_to = 0, hd_from = 0, hd_packet_id = 0, hd_flags = 0, hd_channel = 0,
     hd_next_hop = 0, hd_relay_node = 0 \<rparr>"

definition mc_event0 :: mc_event where
  "mc_event0 = \<lparr> is_meshcore = False, mc_route_type = 0, mc_payload_type = 0, mc_payload_ver = 0,
     mc_type_name = [], mc_dest_hash = 0, mc_src_hash = 0, mc_channel_hash = 0, mc_timestamp = 0,
     mc_node_name = [], mc_text = [], mc_pubkey = replicate 32 0, mc_path_hop_count = 0,
     mc_path_snrs = replicate 64 0, mc_path_hashes = replicate 64 0, mc_hdr_path_hash_count = 0,
     mc_hdr_path_hash_size = 0, mc_hdr_path = [], mc_sig_valid = False,
     mc_data_type = 0, mc_data_len = 0, mc_txt_type = 0, mc_telemetry_json = [], mc_adv_type = 0,
     mc_has_latlon = False, mc_lat_e6 = 0, mc_lon_e6 = 0, mc_has_name = False, mc_extra1 = 0,
     mc_extra2 = 0, mc_has_region_scope = False, mc_region_code1 = 0, mc_region_code2 = 0,
     mc_region_name = [], mc_multipart_remaining = 0, mc_multipart_inner_type = 0,
     mc_ctl_subtype = [], mc_ctl_tag = 0, mc_ctl_filter = 0, mc_ctl_since = 0, mc_ctl_snr_q4 = 0 \<rparr>"

definition mesh_event0 :: mesh_event where
  "mesh_event0 = \<lparr> ev_header = mesh_header0, ev_hop_limit = 0, ev_hop_start = 0, ev_want_ack = False,
     ev_via_mqtt = False, ev_decrypted = False, ev_channel_name = [], ev_rssi_db = 0, ev_snr_db = 0,
     ev_sf = 0, ev_cr = 0, ev_bw_hz = 0, ev_freq_hz = 0, ev_preset_name = [], ev_slot_id = 0,
     ev_has_crc = False, ev_payload_crc_ok = False, ev_crc_corrected = False,
     ev_crc_corrected_bits = 0, ev_cfo_hz = 0, ev_station_t_ns = 0, ev_station_t_acc_ns = 0,
     ev_preamble_lock_sample_idx = 0, ev_sample_rate_sps = 0, ev_preamble_lock_sample_frac = 0,
     ev_preamble_lock_t_ns = 0, ev_portnum = 0, ev_payload = None, ev_raw_hex = [],
     ev_request_id = 0, ev_reply_id = 0, ev_want_response = False, ev_mc = mc_event0 \<rparr>"

subsection \<open>Hexadecimal dump\<close>

definition HEX_DIGITS :: string where "HEX_DIGITS = ''0123456789abcdef''"

definition hex_digit :: "byte \<Rightarrow> char" where
  "hex_digit n = HEX_DIGITS ! unat n"

fun hex_dump :: "bytes \<Rightarrow> nat \<Rightarrow> nat \<Rightarrow> string" where
  "hex_dump [] n cap = []"
| "hex_dump (b # p) n cap =
     (if n + 2 < cap
      then hex_digit (drop_bit 4 b AND 0xF) # hex_digit (b AND 0xF) # hex_dump p (n + 2) cap
      else [])"

lemma hex_digit_value:
  assumes "unat n < 16"
  shows "hex_nibble (hex_digit n) = uint n"
proof -
  have len: "length HEX_DIGITS = 16" and val: "map hex_nibble HEX_DIGITS = map int [0..<16]"
    by (simp_all add: HEX_DIGITS_def hex_nibble_def upt_rec)
  have "hex_nibble (hex_digit n) = map hex_nibble HEX_DIGITS ! unat n" using assms by (simp add: hex_digit_def len)
  also have "\<dots> = uint n" unfolding val using assms by simp
  finally show ?thesis .
qed

lemma nibble_less: "unat (b AND 0xF :: byte) < 16" "unat (drop_bit 4 b AND 0xF :: byte) < 16"
proof -
  have "unat w < 16" if "\<And>n. bit w n \<Longrightarrow> n < 4" for w :: byte
    using unat_less_if_not_bit [of 4 w] that by (force simp: not_less)
  note four = this
  show "unat (b AND 0xF :: byte) < 16" by (rule four, unfold b64_bits) auto
  show "unat (drop_bit 4 b AND 0xF :: byte) < 16" by (rule four, unfold b64_bits) auto
qed

lemma nibbles_join: "push_bit 4 (drop_bit 4 b AND 0xF) OR (b AND 0xF) = (b :: byte)"
  by (rule bit_word_eqI, unfold b64_bits) (auto simp: byte_bit_high not_less)

lemma hex_dump_length: "n + 2 * length p < cap \<Longrightarrow> length (hex_dump p n cap) = 2 * length p"
  by (induction p n cap rule: hex_dump.induct) auto

lemma hex_pairs_dump: "n + 2 * length p < cap \<Longrightarrow> hex_pairs (hex_dump p n cap) = Some p"
proof (induction p n cap rule: hex_dump.induct)
  case (2 b p n cap)
  then show ?case
    by (simp add: hex_digit_value nibble_less nibbles_join del: push_bit_and)
qed simp

lemma hex_dump_digits: "ch \<in> set (hex_dump p n cap) \<Longrightarrow> \<not> hex_nibble ch < 0"
proof (induction p n cap rule: hex_dump.induct)
  case (2 b p n cap)
  then show ?case by (auto simp: hex_digit_value nibble_less split: if_splits)
qed simp

end
