(* ===== verification/Mesh_Packet.thy ===== *)
theory Mesh_Packet
  imports Mesh_Event Protobuf
begin

text \<open>
  The Meshtastic packet decoder of \<^verbatim>\<open>src/mesh_packet.c\<close>: the radio header, the nonce, the
  \<^verbatim>\<open>Data\<close> envelope and the loop over the candidate keys.  The counter-mode cipher of the
  crypto library is a parameter \<^verbatim>\<open>ctr\<close>: key, initial counter block and input give the
  output, or None where the library reports a failure.  The callback is the list of the
  events passed to it, and the frames handed to the key search are a second list.
\<close>

subsection \<open>Header\<close>

definition rd_le32 :: "bytes \<Rightarrow> u32" where
  "rd_le32 p = ucast (p ! 0) OR push_bit 8 (ucast (p ! 1)) OR push_bit 16 (ucast (p ! 2)) OR push_bit 24 (ucast (p ! 3))"

definition MESH_HEADER_BYTES :: nat where "MESH_HEADER_BYTES = 16"

definition parse_header :: "bytes \<Rightarrow> mesh_event \<Rightarrow> mesh_event" where
  "parse_header frame ev =
     (let flags = frame ! 12
      in ev\<lparr> ev_header := \<lparr> hd_to = rd_le32 frame, hd_from = rd_le32 (drop 4 frame),
               hd_packet_id = rd_le32 (drop 8 frame), hd_flags = flags, hd_channel = frame ! 13,
               hd_next_hop = frame ! 14, hd_relay_node = frame ! 15 \<rparr>,
             ev_hop_limit := uint (flags AND 0x07),
             ev_hop_start := uint (drop_bit 5 (flags AND 0xE0)),
             ev_want_ack := (flags AND 0x08 \<noteq> 0),
             ev_via_mqtt := (flags AND 0x10 \<noteq> 0) \<rparr>)"

definition build_nonce :: "u32 \<Rightarrow> u32 \<Rightarrow> bytes" where
  "build_nonce packet_id from_node =
     [ucast packet_id, ucast (drop_bit 8 packet_id), ucast (drop_bit 16 packet_id), ucast (drop_bit 24 packet_id),
      0, 0, 0, 0,
      ucast from_node, ucast (drop_bit 8 from_node), ucast (drop_bit 16 from_node), ucast (drop_bit 24 from_node),
      0, 0, 0, 0]"

type_synonym cipher = "bytes \<Rightarrow> bytes \<Rightarrow> bytes \<Rightarrow> bytes option"

definition aes_ctr_decrypt :: "cipher \<Rightarrow> bytes \<Rightarrow> bytes \<Rightarrow> bytes \<Rightarrow> bytes option" where
  "aes_ctr_decrypt ctr key iv inp =
     (if length key = 16 \<or> length key = 32 then ctr key iv inp else None)"

subsection \<open>Envelope\<close>

definition envelope_field :: "mesh_event field_step" where
  "envelope_field ev fld wt p =
     (if fld = 1 then on_read pb_read_varint (\<lambda>v. ev\<lparr> ev_portnum := ucast v \<rparr>) ev p
      else if fld = 2 then on_read pb_read_length (\<lambda>bs. ev\<lparr> ev_payload := Some bs \<rparr>) ev p
      else if fld = 3 then on_read pb_read_varint (\<lambda>v. ev\<lparr> ev_want_response := (v \<noteq> 0) \<rparr>) ev p
      else if fld = 4 then on_skip ev wt p
      else if fld = 5 then on_skip ev wt p
      else if fld = 6 then on_read pb_read_fixed32 (\<lambda>v. ev\<lparr> ev_request_id := v \<rparr>) ev p
      else if fld = 7 then on_read pb_read_fixed32 (\<lambda>v. ev\<lparr> ev_reply_id := v \<rparr>) ev p
      else on_skip ev wt p)"

definition parse_data_envelope :: "bytes \<Rightarrow> mesh_event \<Rightarrow> bool \<times> mesh_event" where
  "parse_data_envelope buf ev =
     (let ev = ev\<lparr> ev_portnum := 0, ev_payload := None, ev_request_id := 0, ev_reply_id := 0,
                   ev_want_response := False \<rparr>
      in case pb_loop envelope_field ev buf of
           (PB_DONE, ev) \<Rightarrow> (\<not> ev_portnum ev > 1024, ev)
         | (_, ev) \<Rightarrow> (False, ev))"

subsection \<open>Decode\<close>

definition PLAINTEXT_BYTES :: nat where "PLAINTEXT_BYTES = 512"

text \<open>One round of the key loop: None where the source continues with the next key.\<close>

definition try_key :: "cipher \<Rightarrow> mesh_event \<Rightarrow> bytes \<Rightarrow> keyset_entry \<Rightarrow> mesh_event option" where
  "try_key ctr ev inp e =
     (let nonce = build_nonce (hd_packet_id (ev_header ev)) (hd_from (ev_header ev))
      in case (if ke_psk e = [] then Some inp else aes_ctr_decrypt ctr (ke_psk e) nonce inp) of
           None \<Rightarrow> None
         | Some plaintext \<Rightarrow>
             (case parse_data_envelope plaintext ev of
                (True, cand) \<Rightarrow> Some (cand\<lparr> ev_decrypted := True, ev_channel_name := take 31 (ke_channel_name e) \<rparr>)
              | (False, _) \<Rightarrow> None))"

text \<open>\<^verbatim>\<open>for (i = 0; bucket[i] >= 0 && i < 8; ++i)\<close>: None when no key gives a plausible envelope.\<close>

fun try_keys :: "cipher \<Rightarrow> keyset \<Rightarrow> mesh_event \<Rightarrow> bytes \<Rightarrow> nat \<Rightarrow> int list \<Rightarrow> mesh_event option" where
  "try_keys ctr ks ev inp i [] = None"
| "try_keys ctr ks ev inp i (b # bucket) =
     (if b \<ge> 0 \<and> i < 8
      then (case keyset_get ks b of
              None \<Rightarrow> try_keys ctr ks ev inp (i + 1) bucket
            | Some e \<Rightarrow> (case try_key ctr ev inp e of
                            Some cand \<Rightarrow> Some cand
                          | None \<Rightarrow> try_keys ctr ks ev inp (i + 1) bucket))
      else None)"

record radio =
  rd_rssi_db :: u32
  rd_snr_db :: u32
  rd_sf :: int
  rd_cr :: int
  rd_bw_hz :: int

text \<open>The event before any key is tried.\<close>

definition radio_event :: "bytes \<Rightarrow> radio \<Rightarrow> mesh_event" where
  "radio_event frame r =
     (parse_header frame mesh_event0)\<lparr> ev_rssi_db := rd_rssi_db r, ev_snr_db := rd_snr_db r, ev_sf := rd_sf r,
        ev_cr := rd_cr r, ev_bw_hz := rd_bw_hz r, ev_slot_id := -1,
        ev_raw_hex := hex_dump (take 256 frame) 0 513,
        ev_preset_name := preset_of_radio (rd_sf r) (rd_cr r) (rd_bw_hz r) \<rparr>"

text \<open>The return code, the callback's events and the frames sent to the key search.\<close>

type_synonym decode_result = "int \<times> mesh_event list \<times> (bytes \<times> radio) list"

definition mesh_packet_decode_with_radio ::
  "cipher \<Rightarrow> bytes \<Rightarrow> radio \<Rightarrow> keyset option \<Rightarrow> bool \<Rightarrow> decode_result" where
  "mesh_packet_decode_with_radio ctr frame r keys cb =
     (if length frame < MESH_HEADER_BYTES then (-1, [], [])
      else let ev = radio_event frame r; inp = drop MESH_HEADER_BYTES frame
           in if inp = [] then (0, if cb then [ev\<lparr> ev_decrypted := True \<rparr>] else [], [])
              else case (case keys of
                           None \<Rightarrow> None
                         | Some ks \<Rightarrow> try_keys ctr ks ev (take PLAINTEXT_BYTES inp) 0
                                        (keyset_lookup ks (hd_channel (ev_header ev)))) of
                     Some cand \<Rightarrow> (0, if cb then [cand] else [], [])
                   | None \<Rightarrow> if cb then (0, [ev\<lparr> ev_decrypted := False \<rparr>], [(frame, r)]) else (0, [], []))"

definition radio0 :: radio where
  "radio0 = \<lparr> rd_rssi_db = 0, rd_snr_db = 0, rd_sf = 0, rd_cr = 0, rd_bw_hz = 0 \<rparr>"

definition mesh_packet_decode :: "cipher \<Rightarrow> bytes \<Rightarrow> keyset option \<Rightarrow> bool \<Rightarrow> decode_result" where
  "mesh_packet_decode ctr frame keys cb = mesh_packet_decode_with_radio ctr frame radio0 keys cb"

definition mesh_packet_decode_with_meta ::
  "cipher \<Rightarrow> bytes \<Rightarrow> u32 \<Rightarrow> u32 \<Rightarrow> keyset option \<Rightarrow> bool \<Rightarrow> decode_result" where
  "mesh_packet_decode_with_meta ctr frame rssi snr keys cb =
     mesh_packet_decode_with_radio ctr frame (radio0\<lparr> rd_rssi_db := rssi, rd_snr_db := snr \<rparr>) keys cb"

subsection \<open>Reference sender\<close>

definition header_bytes :: "mesh_header \<Rightarrow> bytes" where
  "header_bytes h = le_bytes 4 (hd_to h) @ le_bytes 4 (hd_from h) @ le_bytes 4 (hd_packet_id h)
     @ [hd_flags h, hd_channel h, hd_next_hop h, hd_relay_node h]"

definition data_envelope :: "u32 \<Rightarrow> bytes \<Rightarrow> bytes" where
  "data_envelope port payload = pb_message [(1, Varint (ucast port)), (2, Len payload)]"

text \<open>The documented behaviour of counter mode: it never fails on a valid key, keeps the length and undoes itself.\<close>

definition ctr_ok :: "cipher \<Rightarrow> bool" where
  "ctr_ok ctr \<longleftrightarrow> (\<forall>key iv inp. (length key = 16 \<or> length key = 32) \<and> length iv = 16 \<longrightarrow>
     (\<exists>out. ctr key iv inp = Some out \<and> length out = length inp \<and> ctr key iv out = Some inp))"

definition encrypt :: "cipher \<Rightarrow> bytes \<Rightarrow> mesh_header \<Rightarrow> bytes \<Rightarrow> bytes" where
  "encrypt ctr psk h msg = (if psk = [] then msg else the (ctr psk (build_nonce (hd_packet_id h) (hd_from h)) msg))"

text \<open>The first success over a list.\<close>

fun first_some :: "('a \<Rightarrow> 'b option) \<Rightarrow> 'a list \<Rightarrow> 'b option" where
  "first_some f [] = None"
| "first_some f (x # xs) = (case f x of Some y \<Rightarrow> Some y | None \<Rightarrow> first_some f xs)"

subsection \<open>Header and nonce\<close>

lemma rd_le32_le_word: "rd_le32 (a # b # c # d # rest) = le_word [a, b, c, d]"
  by (simp add: rd_le32_def le_word_def push_bit_or push_bit_push_bit or.assoc)

lemma rd_le32_le_bytes: "rd_le32 (le_bytes 4 v @ rest) = v"
proof -
  obtain a b c d where v: "le_bytes 4 v = [a, b, c, d]" by (simp add: le_bytes_def upt_rec)
  then have "rd_le32 (le_bytes 4 v @ rest) = le_word (le_bytes 4 v)" by (simp add: rd_le32_le_word)
  then show ?thesis by (simp add: le_word_le_bytes)
qed

lemma length_header_bytes [simp]: "length (header_bytes h) = 16"
  by (simp add: header_bytes_def)

lemma drop_le_bytes [simp]: "drop n (le_bytes n v @ rest) = rest"
  by simp

lemma nth_le_bytes [simp]: "n \<le> i \<Longrightarrow> (le_bytes n v @ rest) ! i = rest ! (i - n)"
  by (simp add: nth_append)

lemma parse_header_bytes: "ev_header (parse_header (header_bytes h @ rest) ev) = h"
proof -
  have "drop 8 (header_bytes h @ rest) = drop 4 (drop 4 (header_bytes h @ rest))" by simp
  then show ?thesis
    by (simp add: parse_header_def Let_def header_bytes_def rd_le32_le_bytes)
qed

lemma bit_flag_masks:
  "bit (0x08 :: byte) n \<longleftrightarrow> n = 3" "bit (0x10 :: byte) n \<longleftrightarrow> n = 4"
  "bit (0x07 :: byte) n \<longleftrightarrow> n < 3" "bit (0xE0 :: byte) n \<longleftrightarrow> 5 \<le> n \<and> n < 8"
proof -
  have m: "(0x08 :: byte) = 2 ^ 3" "(0x10 :: byte) = 2 ^ 4" "(0x07 :: byte) = mask 3" "(0xE0 :: byte) = push_bit 5 (mask 3)"
    by (simp_all add: mask_eq_exp_minus_1 push_bit_eq_mult)
  show "bit (0x08 :: byte) n \<longleftrightarrow> n = 3" "bit (0x10 :: byte) n \<longleftrightarrow> n = 4" "bit (0x07 :: byte) n \<longleftrightarrow> n < 3"
    unfolding m by (simp_all only: bit_exp_iff bit_mask_iff) auto
  show "bit (0xE0 :: byte) n \<longleftrightarrow> 5 \<le> n \<and> n < 8"
    unfolding m by (auto simp: bit_push_bit_iff bit_mask_iff)
qed

lemma flag_fields:
  fixes f :: byte
  shows "f AND 0x07 = take_bit 3 f" "drop_bit 5 (f AND 0xE0) = drop_bit 5 f"
    "f AND 0x08 \<noteq> 0 \<longleftrightarrow> bit f 3" "f AND 0x10 \<noteq> 0 \<longleftrightarrow> bit f 4"
proof -
  show "f AND 0x07 = take_bit 3 f"
    by (rule bit_word_eqI, unfold bit_and_iff bit_flag_masks bit_take_bit_iff) auto
  show "drop_bit 5 (f AND 0xE0) = drop_bit 5 f"
    by (rule bit_word_eqI, unfold bit_and_iff bit_flag_masks bit_drop_bit_eq comp_def) (auto dest: bit_imp_le_length)
  have "f AND 0x08 = 0" if "\<not> bit f 3"
    by (rule bit_word_eqI, unfold bit_and_iff bit_flag_masks) (use that in auto)
  moreover have "bit (f AND 0x08) 3 = bit f 3" by (unfold bit_and_iff bit_flag_masks) simp
  ultimately show "f AND 0x08 \<noteq> 0 \<longleftrightarrow> bit f 3" by (metis bit_0_eq bot_bool_def bot_fun_def)
  have "f AND 0x10 = 0" if "\<not> bit f 4"
    by (rule bit_word_eqI, unfold bit_and_iff bit_flag_masks) (use that in auto)
  moreover have "bit (f AND 0x10) 4 = bit f 4" by (unfold bit_and_iff bit_flag_masks) simp
  ultimately show "f AND 0x10 \<noteq> 0 \<longleftrightarrow> bit f 4" by (metis bit_0_eq bot_bool_def bot_fun_def)
qed

lemma byte_flag_sum:
  "uint (f :: byte) = uint (take_bit 3 f) + 8 * of_bool (bit f 3) + 16 * of_bool (bit f 4) + 32 * uint (drop_bit 5 f)"
proof -
  let ?n = "uint f"
  have bits: "bit f k \<longleftrightarrow> bit ?n k" if "k < 8" for k using that by (simp add: bit_uint_iff)
  have "?n div 16 = ?n div 8 div 2" "?n div 32 = ?n div 8 div 2 div 2" by (simp_all add: div_mult2_eq [symmetric])
  then have parts: "uint (take_bit 3 f) = ?n mod 8" "uint (drop_bit 5 f) = ?n div 8 div 2 div 2"
    "of_bool (bit f 3) = ?n div 8 mod 2" "of_bool (bit f 4) = ?n div 8 div 2 mod 2"
    by (simp_all add: take_bit_eq_mod uint_mod_distrib drop_bit_eq_div uint_div_distrib
        bits bit_iff_odd [of ?n] mod_2_eq_odd)
  have split: "?n = ?n mod 8 + 8 * (?n div 8)" "?n div 8 = ?n div 8 mod 2 + 2 * (?n div 8 div 2)"
    "?n div 8 div 2 = ?n div 8 div 2 mod 2 + 2 * (?n div 8 div 2 div 2)" by simp_all
  show ?thesis unfolding parts using split by linarith
qed

text \<open>
  Parsing the radio header inverts its layout: the sixteen bytes a sender writes for a
  header give back that header, whatever follows, and the four values derived from the
  flag byte determine it completely.
\<close>

lemma mesh_header_roundtrip:
  "let ev' = parse_header (header_bytes h @ rest) ev
   in ev_header ev' = h
      \<and> uint (hd_flags h) = ev_hop_limit ev' + 8 * of_bool (ev_want_ack ev') + 16 * of_bool (ev_via_mqtt ev')
                            + 32 * ev_hop_start ev'"
proof -
  have f: "(header_bytes h @ rest) ! 12 = hd_flags h" by (simp add: header_bytes_def)
  show ?thesis
    unfolding Let_def parse_header_bytes
    unfolding parse_header_def Let_def f flag_fields by (simp add: byte_flag_sum [of "hd_flags h"])
qed

lemma take_le_bytes: "take 4 (build_nonce p f) = le_bytes 4 p" "take 4 (drop 8 (build_nonce p f)) = le_bytes 4 f"
  by (simp_all add: build_nonce_def le_bytes_def upt_rec)

text \<open>
  The cipher nonce is unique per packet: two packets have the same sixteen-byte counter
  block exactly when they have the same packet number and the same sender.
\<close>

lemma nonce_unique:
  "build_nonce p f = build_nonce p' f' \<longleftrightarrow> p = p' \<and> f = f'"
proof
  assume eq: "build_nonce p f = build_nonce p' f'"
  then have "(le_word (le_bytes 4 p) :: u32) = le_word (le_bytes 4 p')" "(le_word (le_bytes 4 f) :: u32) = le_word (le_bytes 4 f')"
    using take_le_bytes [of p f] take_le_bytes [of p' f'] by auto
  then show "p = p' \<and> f = f'" by (simp add: le_word_le_bytes)
qed simp

subsection \<open>Envelope\<close>

definition envelope_upd :: "u32 \<Rightarrow> wire_value \<Rightarrow> mesh_event \<Rightarrow> mesh_event" where
  "envelope_upd fld v ev =
    (case v of
      Varint n \<Rightarrow> (if fld = 1 then ev\<lparr> ev_portnum := ucast n \<rparr>
                   else if fld = 3 then ev\<lparr> ev_want_response := (n \<noteq> 0) \<rparr> else ev)
    | Len bs \<Rightarrow> (if fld = 2 then ev\<lparr> ev_payload := Some bs \<rparr> else ev)
    | Fixed32 n \<Rightarrow> (if fld = 6 then ev\<lparr> ev_request_id := n \<rparr>
                    else if fld = 7 then ev\<lparr> ev_reply_id := n \<rparr> else ev)
    | _ \<Rightarrow> ev)"

text \<open>The wire types of the message definition: the source reads these five fields without a check.\<close>

definition envelope_accepts :: "u32 \<Rightarrow> wire_value \<Rightarrow> bool" where
  "envelope_accepts fld v =
    (if fld \<in> {1, 3} then wire_type_of v = PB_WIRE_VARINT
     else if fld = 2 then wire_type_of v = PB_WIRE_LENGTH
     else if fld \<in> {6, 7} then wire_type_of v = PB_WIRE_FIXED32
     else True)"

interpretation envelope: message_decoder envelope_field envelope_upd envelope_accepts
proof
  fix s s' :: mesh_event and fld wt p r
  assume "envelope_field s fld wt p = (s', Some r)"
  then show "length r \<le> length p"
    unfolding envelope_field_def
    by (auto split: if_splits dest: on_skip_le varint.on_read_le len.on_read_le fixed32.on_read_le)
next
  fix fld :: u32 and v :: wire_value and s rest
  assume acc: "envelope_accepts fld v" and ok: "wire_ok v"
  show "envelope_field s fld (wire_type_of v) (wire_bytes v @ rest) = (envelope_upd fld v s, Some rest)"
    using acc unfolding envelope_field_def envelope_upd_def envelope_accepts_def on_skip_wire [OF ok]
    using ok by (cases v) (auto simp: reader_simps PB_WIRE_VARINT_def PB_WIRE_FIXED64_def PB_WIRE_LENGTH_def
        PB_WIRE_FIXED32_def simp del: wire_bytes.simps split: if_splits)
qed

lemma parse_data_envelope_sent:
  assumes "port \<le> 1024" "length payload < 2 ^ 64"
  shows "parse_data_envelope (data_envelope port payload) ev =
    (True, ev\<lparr> ev_portnum := port, ev_payload := Some payload, ev_request_id := 0, ev_reply_id := 0,
               ev_want_response := False \<rparr>)"
proof -
  let ?fs = "[(1, Varint (ucast port)), (2, Len payload)] :: (u32 \<times> wire_value) list"
  have fs: "\<forall>(fld, v)\<in>set ?fs. envelope_accepts fld v \<and> wire_ok v"
    using assms(2) by (simp add: envelope_accepts_def)
  have "ucast (ucast port :: u64) = port" by (rule bit_word_eqI) (auto simp: bit_ucast_iff)
  then show ?thesis
    unfolding parse_data_envelope_def data_envelope_def Let_def envelope.decode_message [OF fs]
    using assms(1) by (simp add: envelope_upd_def not_less)
qed

subsection \<open>The key loop\<close>

lemma try_keys_valid:
  assumes "\<forall>b \<in> set bs. \<exists>e. keyset_get ks b = Some e" "i + length bs \<le> 7"
  shows "try_keys ctr ks ev inp i (bs @ (-1) # zs) = first_some (try_key ctr ev inp) (map (\<lambda>b. the (keyset_get ks b)) bs)"
  using assms
proof (induction bs arbitrary: i)
  case (Cons b bs)
  then obtain e where e: "keyset_get ks b = Some e" by auto
  then have "b \<ge> 0" by (auto simp: keyset_get_def split: if_splits)
  then show ?case using Cons e by (simp split: option.split)
qed simp

lemma try_keys_candidates:
  assumes "keyset_inv ks"
  shows "try_keys ctr ks ev inp 0 (keyset_lookup ks h) = first_some (try_key ctr ev inp) (keyset_candidates ks h)"
proof -
  let ?b = "keyset_lookup ks h"
  have ok: "bucket_ok ?b" using assms by (simp add: keyset_inv_def keyset_lookup_def)
  obtain zs where b: "?b = bucket_list ?b @ (-1) # zs" "length (bucket_list ?b) + length zs = 7"
    using bucket_split [OF ok] by metis
  have "\<forall>i \<in> set (bucket_list ?b). \<exists>e. keyset_get ks i = Some e"
    using assms by (auto simp: keyset_inv_def keyset_lookup_def keyset_get_def)
  then have "try_keys ctr ks ev inp 0 (bucket_list ?b @ (-1) # zs)
      = first_some (try_key ctr ev inp) (map (\<lambda>b. the (keyset_get ks b)) (bucket_list ?b))"
    using b(2) by (intro try_keys_valid) auto
  then show ?thesis using b(1) by (simp add: keyset_candidates_def)
qed

lemma decode_with_keys:
  assumes "keyset_inv ks"
  shows "mesh_packet_decode_with_radio ctr frame r (Some ks) True =
    (if length frame < 16 then (-1, [], [])
     else let ev = radio_event frame r
          in if length frame = 16 then (0, [ev\<lparr> ev_decrypted := True \<rparr>], [])
             else case first_some (try_key ctr ev (take 512 (drop 16 frame)))
                         (filter (\<lambda>e. ke_channel_hash e = hd_channel (ev_header ev)) (ks_entries ks)) of
                    Some cand \<Rightarrow> (0, [cand], [])
                  | None \<Rightarrow> (0, [ev\<lparr> ev_decrypted := False \<rparr>], [(frame, r)]))"
  by (simp add: mesh_packet_decode_with_radio_def MESH_HEADER_BYTES_def PLAINTEXT_BYTES_def Let_def
      try_keys_candidates [OF assms] keyset_candidates_filter [OF assms] split: option.split)

text \<open>
  The decoder's outcome against a consistent keyset equals that of a plain search through
  all stored keys in the order they were added: the first key whose stored hash equals the
  packet's channel byte and whose plaintext parses as an envelope decides.  A frame shorter
  than the header is refused without an event; every other frame gives exactly one event; a
  frame goes to the key search exactly when it has a payload that no key opened.
\<close>

lemma mesh_decode_decision:
  assumes "keyset_inv ks"
  shows "mesh_packet_decode_with_radio ctr frame r (Some ks) True =
    (if length frame < 16 then (-1, [], [])
     else let ev = radio_event frame r
          in if length frame = 16 then (0, [ev\<lparr> ev_decrypted := True \<rparr>], [])
             else case first_some (try_key ctr ev (take 512 (drop 16 frame)))
                         (filter (\<lambda>e. ke_channel_hash e = hd_channel (ev_header ev)) (ks_entries ks)) of
                    Some cand \<Rightarrow> (0, [cand], [])
                  | None \<Rightarrow> (0, [ev\<lparr> ev_decrypted := False \<rparr>], [(frame, r)]))"
  by (rule decode_with_keys [OF assms])

lemma length_build_nonce [simp]: "length (build_nonce p f) = 16"
  by (simp add: build_nonce_def)

lemma encrypt_decrypt:
  assumes "ctr_ok ctr" "psk_len_ok psk"
  shows "length (encrypt ctr psk h msg) = length msg
    \<and> (psk \<noteq> [] \<longrightarrow> aes_ctr_decrypt ctr psk (build_nonce (hd_packet_id h) (hd_from h)) (encrypt ctr psk h msg) = Some msg)"
proof (cases "psk = []")
  case False
  then have len: "length psk = 16 \<or> length psk = 32" using assms(2) by (simp add: psk_len_ok_def)
  moreover obtain out where "ctr psk (build_nonce (hd_packet_id h) (hd_from h)) msg = Some out" "length out = length msg"
      "ctr psk (build_nonce (hd_packet_id h) (hd_from h)) out = Some msg"
    using assms(1) len unfolding ctr_ok_def by (metis length_build_nonce)
  ultimately show ?thesis using False by (simp add: encrypt_def aes_ctr_decrypt_def)
qed (simp add: encrypt_def)

lemma first_some_append: "\<forall>x \<in> set xs. f x = None \<Longrightarrow> first_some f (xs @ ys) = first_some f ys"
  by (induction xs) auto

lemma radio_event_header: "ev_header (radio_event (header_bytes h @ rest) r) = h"
  by (simp add: radio_event_def parse_header_bytes)


lemma xor_cipher_ok: "ctr_ok (\<lambda>key iv inp. Some (map (\<lambda>b. b XOR key ! 0) inp))"
  by (simp add: ctr_ok_def comp_def)


subsection \<open>The raw dump\<close>

text \<open>
  The raw dump of an event is lossless: for every frame of up to 256 bytes the text in the
  event decodes, by the hexadecimal reader of the keyset, to exactly the received frame.
\<close>

lemma raw_hex_roundtrip:
  assumes "length frame \<le> 256"
  shows "hex_decode (ev_raw_hex (radio_event frame r)) 256 = Some frame"
  using assms by (simp add: radio_event_def hex_decode_def hex_dump_length hex_pairs_dump)

end
