(* ===== verification/Ring_Queue.thy ===== *)
theory Ring_Queue
  imports Prelude
begin

text \<open>
  The bounded queue that feeds the background key searches.  The same code stands in
  \<^verbatim>\<open>src/psk_dict.c\<close> (128 slots), \<^verbatim>\<open>src/meshcore_hashtag_dict.c\<close> (128) and
  \<^verbatim>\<open>src/meshcore_region_dict.c\<close> (64): an array with a write index and a read index, one slot
  left free, where writing to a full queue drops the oldest entry.  The number of slots is
  a parameter; the mutex and the condition variable are left out.
\<close>

record 'a ring =
  rg_slots :: "'a list"
  rg_head :: nat
  rg_tail :: nat

definition ring_put :: "nat \<Rightarrow> 'a \<Rightarrow> 'a ring \<Rightarrow> 'a ring" where
  "ring_put sz x q =
     (let nxt = (rg_head q + 1) mod sz;
          tl' = (if nxt = rg_tail q then (rg_tail q + 1) mod sz else rg_tail q)
      in q\<lparr> rg_slots := (rg_slots q)[rg_head q := x], rg_head := nxt, rg_tail := tl' \<rparr>)"

text \<open>One turn of a worker: None while it would wait.\<close>

definition ring_get :: "nat \<Rightarrow> 'a ring \<Rightarrow> ('a \<times> 'a ring) option" where
  "ring_get sz q =
     (if rg_head q = rg_tail q then None
      else Some (rg_slots q ! rg_tail q, q\<lparr> rg_tail := (rg_tail q + 1) mod sz \<rparr>))"

subsection \<open>The queue as a list\<close>

definition ring_len :: "nat \<Rightarrow> 'a ring \<Rightarrow> nat" where
  "ring_len sz q = (rg_head q + sz - rg_tail q) mod sz"

definition ring_abs :: "nat \<Rightarrow> 'a ring \<Rightarrow> 'a list" where
  "ring_abs sz q = map (\<lambda>i. rg_slots q ! ((rg_tail q + i) mod sz)) [0..<ring_len sz q]"

definition ring_ok :: "nat \<Rightarrow> 'a ring \<Rightarrow> bool" where
  "ring_ok sz q \<longleftrightarrow> 1 < sz \<and> length (rg_slots q) = sz \<and> rg_head q < sz \<and> rg_tail q < sz"

text \<open>The contract of a bounded queue that drops its oldest entry when full.\<close>

locale drop_queue =
  fixes put :: "'a \<Rightarrow> 'q \<Rightarrow> 'q" and get :: "'q \<Rightarrow> ('a \<times> 'q) option"
    and abst :: "'q \<Rightarrow> 'a list" and ok :: "'q \<Rightarrow> bool" and cap :: nat
  assumes put_ok: "ok q \<Longrightarrow> ok (put x q)"
    and put_abs: "ok q \<Longrightarrow> abst (put x q) = (if length (abst q) = cap then tl (abst q) else abst q) @ [x]"
    and get_none: "ok q \<Longrightarrow> get q = None \<longleftrightarrow> abst q = []"
    and get_some: "ok q \<Longrightarrow> get q = Some (x, q') \<Longrightarrow> ok q' \<and> abst q = x # abst q'"
    and len: "ok q \<Longrightarrow> length (abst q) \<le> cap"
    and cap: "0 < cap"
begin

lemma puts:
  assumes "ok q"
  shows "ok (fold put xs q) \<and> abst (fold put xs q) = drop (length (abst q @ xs) - cap) (abst q @ xs)"
  using assms
proof (induction xs arbitrary: q)
  case Nil
  then show ?case using len by simp
next
  case (Cons x xs)
  define l where "l = abst q"
  have lc: "length l \<le> cap" using len Cons.prems by (simp add: l_def)
  have step: "abst (put x q) = drop (length l + 1 - cap) (l @ [x])"
  proof (cases "length l = cap")
    case True
    then show ?thesis using put_abs [OF Cons.prems] cap by (cases l) (auto simp: l_def [symmetric])
  next
    case False
    then show ?thesis using put_abs [OF Cons.prems] lc by (simp add: l_def [symmetric])
  qed
  have "abst (fold put xs (put x q)) = drop (length (abst (put x q) @ xs) - cap) (abst (put x q) @ xs)"
    using Cons.IH [OF put_ok [OF Cons.prems]] by blast
  also have "abst (put x q) @ xs = drop (length l + 1 - cap) (l @ x # xs)"
    unfolding step using lc cap by simp
  also have "drop (length (drop (length l + 1 - cap) (l @ x # xs)) - cap) (drop (length l + 1 - cap) (l @ x # xs))
      = drop (length (l @ x # xs) - cap) (l @ x # xs)"
    unfolding drop_drop using lc cap by (intro arg_cong2 [of _ _ _ _ drop]) auto
  finally show ?case using Cons.IH [OF put_ok [OF Cons.prems]] by (simp add: l_def)
qed

lemma last_put: "ok q \<Longrightarrow> last (abst (put x q)) = x"
  by (simp add: put_abs)

end

subsection \<open>The array implements the contract\<close>

lemma ring_head:
  assumes "ring_ok sz q"
  shows "rg_head q = (rg_tail q + ring_len sz q) mod sz" "ring_len sz q < sz"
proof -
  have "(rg_tail q + (rg_head q + sz - rg_tail q) mod sz) mod sz = (rg_tail q + (rg_head q + sz - rg_tail q)) mod sz"
    by (rule mod_add_right_eq)
  then show "rg_head q = (rg_tail q + ring_len sz q) mod sz" using assms by (simp add: ring_len_def ring_ok_def)
  show "ring_len sz q < sz" using assms by (simp add: ring_len_def ring_ok_def)
qed

lemma ring_len_unique:
  assumes "ring_ok sz q" "rg_head q = (rg_tail q + n) mod sz" "n < sz"
  shows "ring_len sz q = n"
  using ring_head [OF assms(1)] assms(2,3) by (metis mod_add_inj)

lemma ring_put_ok: "ring_ok sz q \<Longrightarrow> ring_ok sz (ring_put sz x q)"
  by (auto simp: ring_ok_def ring_put_def Let_def)

lemma ring_put_abs:
  assumes ok: "ring_ok sz q"
  shows "ring_abs sz (ring_put sz x q)
    = (if length (ring_abs sz q) = sz - 1 then tl (ring_abs sz q) else ring_abs sz q) @ [x]"
proof -
  let ?n = "ring_len sz q" and ?t = "rg_tail q" and ?h = "rg_head q" and ?q = "ring_put sz x q"
  note hd = ring_head [OF ok]
  have szs: "1 < sz" "length (rg_slots q) = sz" "?h < sz" "?t < sz" using ok by (simp_all add: ring_ok_def)
  have nxt: "(?h + 1) mod sz = (?t + (?n + 1)) mod sz" unfolding hd(1) by (simp add: mod_Suc_eq)
  have slot: "(rg_slots q)[?h := x] ! ((?t + i) mod sz) = (if i = ?n then x else rg_slots q ! ((?t + i) mod sz))"
    if "i < sz" for i
  proof -
    have "(?t + i) mod sz = ?h \<longleftrightarrow> i = ?n" using mod_add_inj [OF that hd(2)] hd(1) by metis
    moreover have "?h < length (rg_slots q)" using szs by simp
    ultimately show ?thesis by (auto simp: nth_list_update)
  qed
  show ?thesis
  proof (cases "?n = sz - 1")
    case True
    then have full: "(?h + 1) mod sz = ?t" unfolding nxt using szs by simp
    define t' where "t' = (?t + 1) mod sz"
    have q': "rg_tail ?q = t'" "rg_head ?q = ?t" "rg_slots ?q = (rg_slots q)[?h := x]"
      using full by (simp_all add: ring_put_def Let_def t'_def)
    have "(t' + (sz - 1)) mod sz = (?t + 1 + (sz - 1)) mod sz" unfolding t'_def by (rule mod_add_left_eq)
    then have "ring_len sz ?q = sz - 1"
      using szs by (intro ring_len_unique ring_put_ok ok) (simp_all add: q')
    moreover have "(t' + i) mod sz = (?t + (i + 1)) mod sz" for i
      unfolding t'_def using mod_add_left_eq [of "?t + 1" sz i] by (simp add: add.assoc add.commute [of 1])
    ultimately have abs: "ring_abs sz ?q = map (\<lambda>i. (rg_slots q)[?h := x] ! ((?t + (i + 1)) mod sz)) [0..<sz - 1]"
      by (simp add: ring_abs_def q')
    have "sz - 1 = Suc (sz - 2)" using szs by simp
    then have split: "[0..<sz - 1] = [0..<sz - 2] @ [sz - 2]" by simp
    have "map (\<lambda>i. (rg_slots q)[?h := x] ! ((?t + (i + 1)) mod sz)) [0..<sz - 2]
        = map (\<lambda>i. rg_slots q ! ((?t + (i + 1)) mod sz)) [0..<sz - 2]"
    proof (rule map_cong [OF refl])
      fix i assume "i \<in> set [0..<sz - 2]"
      then have "i + 1 < sz" "i + 1 \<noteq> ?n" using True by auto
      then show "(rg_slots q)[?h := x] ! ((?t + (i + 1)) mod sz) = rg_slots q ! ((?t + (i + 1)) mod sz)"
        using slot [of "i + 1"] by simp
    qed
    moreover have "sz - 2 + 1 = ?n" using True szs(1) by simp
    then have "(rg_slots q)[?h := x] ! ((?t + (sz - 2 + 1)) mod sz) = x" using slot [of ?n] hd(2) by simp
    ultimately have "ring_abs sz ?q = map (\<lambda>i. rg_slots q ! ((?t + (i + 1)) mod sz)) [0..<sz - 2] @ [x]"
      unfolding abs split map_append by simp
    moreover have "tl (ring_abs sz q) = map (\<lambda>i. rg_slots q ! ((?t + (i + 1)) mod sz)) [0..<sz - 2]"
    proof -
      have "[0..<?n] = 0 # map Suc [0..<sz - 2]" using True szs by (simp add: map_Suc_upt upt_conv_Cons Suc_diff_Suc numeral_2_eq_2)
      then show ?thesis by (simp add: ring_abs_def comp_def)
    qed
    ultimately show ?thesis using True by (simp add: ring_abs_def)
  next
    case False
    then have n: "?n + 1 < sz" using hd(2) by linarith
    then have "(?t + (?n + 1)) mod sz \<noteq> ?t" using mod_add_inj [of "?n + 1" sz 0 ?t] szs by auto
    then have q': "rg_tail ?q = ?t" "rg_head ?q = (?t + (?n + 1)) mod sz" "rg_slots ?q = (rg_slots q)[?h := x]"
      using nxt by (simp_all add: ring_put_def Let_def)
    have "ring_len sz ?q = ?n + 1" using n by (intro ring_len_unique ring_put_ok ok) (simp_all add: q')
    then have "ring_abs sz ?q = map (\<lambda>i. (rg_slots q)[?h := x] ! ((?t + i) mod sz)) ([0..<?n] @ [?n])"
      by (simp add: ring_abs_def q')
    also have "\<dots> = ring_abs sz q @ [x]" using slot n by (auto simp: ring_abs_def intro!: map_cong)
    finally show ?thesis using False by (simp add: ring_abs_def)
  qed
qed

lemma ring_get_some:
  assumes ok: "ring_ok sz q" and get: "ring_get sz q = Some (x, q')"
  shows "ring_ok sz q' \<and> ring_abs sz q = x # ring_abs sz q'"
proof -
  let ?n = "ring_len sz q" and ?t = "rg_tail q"
  note hd = ring_head [OF ok]
  have szs: "1 < sz" using ok by (simp add: ring_ok_def)
  have x: "x = rg_slots q ! ?t" "q' = q\<lparr> rg_tail := (?t + 1) mod sz \<rparr>" "rg_head q \<noteq> ?t"
    using get by (auto simp: ring_get_def split: if_splits)
  have ok': "ring_ok sz q'" using ok by (simp add: ring_ok_def x(2))
  have "?t < sz" using ok by (simp add: ring_ok_def)
  then have "?n \<noteq> 0" using hd(1) x(3) by (metis add_0_right mod_less)
  then obtain m where m: "?n = Suc m" by (cases ?n) auto
  have shift: "((?t + 1) mod sz + i) mod sz = (?t + Suc i) mod sz" for i
    using mod_add_left_eq [of "?t + 1" sz i] by simp
  have "ring_len sz q' = m"
    using hd m shift [of m] by (intro ring_len_unique [OF ok']) (simp_all add: x(2))
  then have "ring_abs sz q' = map (\<lambda>i. rg_slots q ! ((?t + Suc i) mod sz)) [0..<m]"
    using shift by (simp add: ring_abs_def x(2))
  moreover have "[0..<Suc m] = 0 # map Suc [0..<m]" by (simp add: map_Suc_upt upt_conv_Cons)
  ultimately show ?thesis using ok' ok by (simp add: ring_abs_def m x(1) ring_ok_def comp_def)
qed

lemma ring_empty:
  assumes ok: "ring_ok sz q"
  shows "ring_get sz q = None \<longleftrightarrow> ring_abs sz q = []"
proof -
  have t: "rg_tail q < sz" "0 < sz" using ok by (simp_all add: ring_ok_def)
  have "ring_len sz q = 0 \<longleftrightarrow> rg_head q = rg_tail q"
  proof
    assume "ring_len sz q = 0"
    then show "rg_head q = rg_tail q" using ring_head(1) [OF ok] t by simp
  next
    assume "rg_head q = rg_tail q"
    then show "ring_len sz q = 0" using t by (intro ring_len_unique [OF ok]) simp_all
  qed
  then show ?thesis by (simp add: ring_get_def ring_abs_def)
qed

lemma ring_drop_queue:
  assumes "1 < sz"
  shows "drop_queue (ring_put sz) (ring_get sz) (ring_abs sz) (ring_ok sz) (sz - 1)"
proof
  fix q q' :: "'a ring" and x
  assume ok: "ring_ok sz q"
  show "ring_ok sz (ring_put sz x q)" by (rule ring_put_ok [OF ok])
  show "ring_abs sz (ring_put sz x q)
      = (if length (ring_abs sz q) = sz - 1 then tl (ring_abs sz q) else ring_abs sz q) @ [x]"
    by (rule ring_put_abs [OF ok])
  show "ring_get sz q = None \<longleftrightarrow> ring_abs sz q = []" by (rule ring_empty [OF ok])
  show "ring_ok sz q' \<and> ring_abs sz q = x # ring_abs sz q'" if "ring_get sz q = Some (x, q')"
    using that by (rule ring_get_some [OF ok])
  show "length (ring_abs sz q) \<le> sz - 1" using ring_head(2) [OF ok] by (simp add: ring_abs_def)
next
  show "0 < sz - 1" using assms by simp
qed

text \<open>The three queues of the program.\<close>

interpretation queue128: drop_queue "ring_put 128" "ring_get 128" "ring_abs 128" "ring_ok 128" 127
  using ring_drop_queue [of 128] by simp

interpretation queue64: drop_queue "ring_put 64" "ring_get 64" "ring_abs 64" "ring_ok 64" 63
  using ring_drop_queue [of 64] by simp

text \<open>
  C24: the search queues keep the newest frames in order.  After any sequence of insertions the
  128-slot array holds exactly the last 127 frames of the old contents followed by the new
  ones, oldest first, and the worker takes the oldest of them; likewise 63 frames for the
  64-slot queue.
\<close>

theorem search_queue_keeps_newest:
  assumes "ring_ok 128 q" "ring_ok 64 r"
  shows "ring_abs 128 (fold (ring_put 128) xs q) = (let l = ring_abs 128 q @ xs in drop (length l - 127) l)
    \<and> ring_abs 64 (fold (ring_put 64) ys r) = (let l = ring_abs 64 r @ ys in drop (length l - 63) l)
    \<and> ring_get 128 q = (case ring_abs 128 q of [] \<Rightarrow> None | x # _ \<Rightarrow> Some (x, q\<lparr> rg_tail := (rg_tail q + 1) mod 128 \<rparr>))"
proof -
  have "ring_get 128 q = (case ring_abs 128 q of [] \<Rightarrow> None | x # _ \<Rightarrow> Some (x, q\<lparr> rg_tail := (rg_tail q + 1) mod 128 \<rparr>))"
    using queue128.get_none [OF assms(1)] queue128.get_some [OF assms(1)]
    by (auto simp: ring_get_def split: if_splits list.split)
  then show ?thesis using queue128.puts [OF assms(1), of xs] queue64.puts [OF assms(2), of ys] by (simp add: Let_def)
qed

theorem search_queue_keeps_newest_witness:
  "ring_abs 128 (fold (ring_put 128) [1, 2, 3 :: nat] \<lparr> rg_slots = replicate 128 0, rg_head = 127, rg_tail = 127 \<rparr>) = [1, 2, 3]"
  using search_queue_keeps_newest [of "\<lparr> rg_slots = replicate 128 0, rg_head = 127, rg_tail = 127 \<rparr>"
      "\<lparr> rg_slots = replicate 64 (0 :: nat), rg_head = 0, rg_tail = 0 \<rparr>" "[1, 2, 3 :: nat]" "[]"]
  by (simp add: ring_ok_def ring_abs_def [of 128 "\<lparr> rg_slots = _, rg_head = 127, rg_tail = 127 \<rparr>"] ring_len_def)

end
