(* ===== verification/Psk_Dict.thy ===== *)
theory Psk_Dict
  imports Mesh_Packet Ring_Queue
begin

text \<open>
  The background search for Meshtastic keys of \<^verbatim>\<open>src/psk_dict.c\<close>: the wordlist, the frame
  queue and one turn of the worker.  A word list is the sequence of lines that \<^verbatim>\<open>fgets\<close>
  returns.  A discovery is reported as a value instead of being printed; the worker is
  taken while it is running, so its shutdown checks never fire.
\<close>

subsection \<open>Word list\<close>

definition PSK_QUEUE_SIZE :: nat where "PSK_QUEUE_SIZE = 128"
definition PSK_FRAME_MAX_BYTES :: nat where "PSK_FRAME_MAX_BYTES = 256"
definition PSK_MAX_CANDIDATES :: nat where "PSK_MAX_CANDIDATES = 32768"

record psk_frame =
  pf_bytes :: bytes
  pf_radio :: radio

record candidate =
  cd_spec :: string
  cd_psk :: bytes

definition spec_end :: "char \<Rightarrow> bool" where
  "spec_end ch = (ch = CHR ''\<newline>'' \<or> ch = CHR 0x0D \<or> ch = CHR ''#'')"

definition parse_psk_spec :: "string \<Rightarrow> bytes option" where
  "parse_psk_spec line =
     (let line = dropWhile is_blank line;
          line = (if CHR ''='' \<in> set line then tl (dropWhile (\<lambda>ch. ch \<noteq> CHR ''='') line) else line);
          buf = trim_end is_blank (take 255 (takeWhile (\<lambda>ch. \<not> spec_end ch) line))
      in if buf = [] then None
         else case keyset_parse_spec keyset_create buf of
                (rc, tmp) \<Rightarrow>
                  if rc < 0 \<or> length (ks_entries tmp) < 1 then None
                  else case keyset_get tmp 0 of
                         None \<Rightarrow> None
                       | Some e \<Rightarrow> if ke_psk e = [] \<or> length (ke_psk e) > 32 then None else Some (ke_psk e))"

definition line_space :: "char \<Rightarrow> bool" where
  "line_space ch = (ch = CHR ''\<newline>'' \<or> ch = CHR 0x0D \<or> ch = CHR '' '' \<or> ch = CHR 0x09)"

definition wordlist_line :: "candidate list \<Rightarrow> string \<Rightarrow> candidate list" where
  "wordlist_line cs line =
     (if \<not> length cs < PSK_MAX_CANDIDATES then cs
      else if line = [] \<or> hd line = CHR ''#'' \<or> hd line = CHR ''\<newline>'' then cs
      else case parse_psk_spec line of
             None \<Rightarrow> cs
           | Some psk \<Rightarrow> cs @ [\<lparr> cd_spec = trim_end line_space line, cd_psk = psk \<rparr>])"

text \<open>None where the file is refused because it holds no usable line.\<close>

definition load_wordlist :: "string list \<Rightarrow> candidate list option" where
  "load_wordlist file = (let cs = foldl wordlist_line [] file in if cs = [] then None else Some cs)"

subsection \<open>Queue and search\<close>

record psk_dict =
  pd_started :: bool
  pd_candidates :: "candidate list"
  pd_queue :: "psk_frame ring"

definition psk_dict_enqueue :: "psk_dict \<Rightarrow> bytes \<Rightarrow> radio \<Rightarrow> psk_dict" where
  "psk_dict_enqueue d frame r =
     (if \<not> pd_started d \<or> frame = [] then d
      else d\<lparr> pd_queue := ring_put PSK_QUEUE_SIZE
                 \<lparr> pf_bytes = take PSK_FRAME_MAX_BYTES frame, pf_radio = r \<rparr> (pd_queue d) \<rparr>)"

text \<open>The attempt callback: whether a decrypted event arrived, and the last nonempty channel name.\<close>

record attempt_ctx =
  at_decrypted :: bool
  at_channel_name :: string

definition attempt_cb :: "attempt_ctx \<Rightarrow> mesh_event \<Rightarrow> attempt_ctx" where
  "attempt_cb a ev =
     (if ev_decrypted ev
      then (if ev_channel_name ev \<noteq> [] then a\<lparr> at_decrypted := True, at_channel_name := take 31 (ev_channel_name ev) \<rparr>
            else a\<lparr> at_decrypted := True \<rparr>)
      else a)"

record discovery =
  ds_channel_hash :: byte
  ds_spec :: string
  ds_psk_len :: nat
  ds_channel_name :: string

text \<open>
  The search over the candidates.  A decoding attempt calls back into the queue wherever the
  packet decoder hands its frame to the key search.
\<close>

fun try_candidates ::
  "cipher \<Rightarrow> psk_frame \<Rightarrow> candidate list \<Rightarrow> psk_dict \<Rightarrow> keyset option \<Rightarrow> discovery option \<times> psk_dict \<times> keyset option" where
  "try_candidates ctr f [] d live = (None, d, live)"
| "try_candidates ctr f (c # cs) d live =
     (if length (pf_bytes f) < 16 then (None, d, live)
      else let channel_hash = pf_bytes f ! 13
           in case keyset_add_raw keyset_create channel_hash (cd_psk c) (Some ''(trial)'') of
                (rc, tmp) \<Rightarrow>
                  if rc < 0 then try_candidates ctr f cs d live
                  else case mesh_packet_decode_with_radio ctr (pf_bytes f) (pf_radio f) (Some tmp) True of
                         (_, events, again) \<Rightarrow>
                           let ctx = foldl attempt_cb \<lparr> at_decrypted = False, at_channel_name = [] \<rparr> events;
                               d = foldl (\<lambda>d (frame, r). psk_dict_enqueue d frame r) d again
                           in if at_decrypted ctx
                              then (Some \<lparr> ds_channel_hash = channel_hash, ds_spec = cd_spec c,
                                      ds_psk_len = length (cd_psk c), ds_channel_name = at_channel_name ctx \<rparr>, d,
                                    map_option (\<lambda>k. snd (keyset_add_raw k channel_hash (cd_psk c)
                                      (Some (if at_channel_name ctx \<noteq> [] then at_channel_name ctx else ''(discovered)'')))) live)
                              else try_candidates ctr f cs d live)"

text \<open>One turn of the worker; None while it waits.\<close>

definition psk_thread_turn ::
  "cipher \<Rightarrow> psk_dict \<Rightarrow> keyset option \<Rightarrow> (discovery option \<times> psk_dict \<times> keyset option) option" where
  "psk_thread_turn ctr d live =
     (case ring_get PSK_QUEUE_SIZE (pd_queue d) of
        None \<Rightarrow> None
      | Some (f, q) \<Rightarrow> Some (try_candidates ctr f (pd_candidates d) (d\<lparr> pd_queue := q \<rparr>) live))"

subsection \<open>One attempt\<close>

definition trial_entry :: "byte \<Rightarrow> candidate \<Rightarrow> keyset_entry" where
  "trial_entry h c = \<lparr> ke_channel_name = ''(trial)'', ke_psk = cd_psk c, ke_channel_hash = h \<rparr>"

lemma trial_keyset:
  assumes "psk_len_ok (cd_psk c)"
  obtains tmp where "keyset_add_raw keyset_create h (cd_psk c) (Some ''(trial)'') = (0, tmp)" "keyset_inv tmp"
    "ks_entries tmp = [trial_entry h c]"
proof -
  have "keyset_room keyset_create (trial_entry h c)"
    unfolding keyset_room_def keyset_candidates_filter [OF keyset_inv_create]
    by (simp add: keyset_create_def KEYSET_MAX_ENTRIES_def)
  note ins = keyset_insert_room [OF keyset_inv_create this]
  have "keyset_add_raw keyset_create h (cd_psk c) (Some ''(trial)'') = keyset_insert keyset_create (trial_entry h c)"
    using assms by (simp add: keyset_add_raw_def trial_entry_def entry_name_def KEYSET_MAX_NAME_def)
  then show thesis using ins that [of "snd (keyset_insert keyset_create (trial_entry h c))"]
    by (simp add: prod_eq_iff keyset_create_def)
qed

definition opens :: "cipher \<Rightarrow> psk_frame \<Rightarrow> candidate \<Rightarrow> mesh_event option" where
  "opens ctr f c = try_key ctr (radio_event (pf_bytes f) (pf_radio f)) (take 512 (drop 16 (pf_bytes f)))
     (trial_entry (pf_bytes f ! 13) c)"

lemma decode_trial:
  assumes "keyset_inv tmp" "ks_entries tmp = [trial_entry (pf_bytes f ! 13) c]" "16 < length (pf_bytes f)"
  shows "mesh_packet_decode_with_radio ctr (pf_bytes f) (pf_radio f) (Some tmp) True =
    (case opens ctr f c of Some cand \<Rightarrow> (0, [cand], [])
     | None \<Rightarrow> (0, [(radio_event (pf_bytes f) (pf_radio f))\<lparr> ev_decrypted := False \<rparr>], [(pf_bytes f, pf_radio f)]))"
proof -
  have "hd_channel (ev_header (radio_event (pf_bytes f) (pf_radio f))) = pf_bytes f ! 13"
    by (simp add: radio_event_def parse_header_def Let_def)
  then show ?thesis using assms(3) unfolding decode_with_keys [OF assms(1)] assms(2) opens_def
    by (simp add: trial_entry_def Let_def split: option.split)
qed

lemma try_candidates_step:
  assumes "psk_len_ok (cd_psk c)" "16 < length (pf_bytes f)" "opens ctr f c = None"
  shows "try_candidates ctr f (c # cs) d live = try_candidates ctr f cs (psk_dict_enqueue d (pf_bytes f) (pf_radio f)) live"
proof -
  obtain tmp where tmp: "keyset_add_raw keyset_create (pf_bytes f ! 13) (cd_psk c) (Some ''(trial)'') = (0, tmp)" "keyset_inv tmp"
      "ks_entries tmp = [trial_entry (pf_bytes f ! 13) c]"
    using trial_keyset [OF assms(1)] .
  show ?thesis using assms(2,3) tmp(1) decode_trial [OF tmp(2,3) assms(2), of ctr]
    by (simp add: Let_def attempt_cb_def)
qed

lemma try_candidates_none:
  assumes "\<forall>c \<in> set cs. psk_len_ok (cd_psk c) \<and> opens ctr f c = None" "16 < length (pf_bytes f)" "length (pf_bytes f) \<le> 256"
    "pd_started d"
  shows "try_candidates ctr f cs d live = (None, d\<lparr> pd_queue := fold (ring_put 128) (replicate (length cs) f) (pd_queue d) \<rparr>, live)"
  using assms
proof (induction cs arbitrary: d)
  case (Cons c cs)
  have "psk_dict_enqueue d (pf_bytes f) (pf_radio f) = d\<lparr> pd_queue := ring_put 128 f (pd_queue d) \<rparr>"
    using Cons.prems by (cases f) (auto simp: psk_dict_enqueue_def PSK_QUEUE_SIZE_def PSK_FRAME_MAX_BYTES_def)
  then show ?case
    using Cons.prems Cons.IH [of "d\<lparr> pd_queue := ring_put 128 f (pd_queue d) \<rparr>"]
    by (simp add: try_candidates_step del: try_candidates.simps(2))
qed simp

text \<open>
  C25: the key search feeds its own queue.  When a frame that no candidate opens is taken from
  the queue, every single attempt puts the same frame back, because the packet decoder hands
  each undecrypted frame to the key search, including the trial decodings of that search: one
  turn appends one copy per candidate.  So with a nonempty word list the queue never becomes
  empty again, and with 127 or more candidates it then holds nothing but copies of this frame,
  all other waiting frames being dropped.
\<close>

theorem psk_search_refeeds:
  assumes started: "pd_started d" and ok: "ring_ok 128 (pd_queue d)"
    and queue: "ring_abs 128 (pd_queue d) = f # rest"
    and frame: "16 < length (pf_bytes f)" "length (pf_bytes f) \<le> 256"
    and fail: "\<forall>c \<in> set (pd_candidates d). psk_len_ok (cd_psk c) \<and> opens ctr f c = None"
  shows "\<exists>d'. psk_thread_turn ctr d live = Some (None, d', live)
    \<and> ring_abs 128 (pd_queue d') = (let l = rest @ replicate (length (pd_candidates d)) f in drop (length l - 127) l)"
proof -
  obtain q where q: "ring_get 128 (pd_queue d) = Some (f, q)"
    using queue128.get_none [OF ok] queue128.get_some [OF ok] queue by (cases "ring_get 128 (pd_queue d)") auto
  note rest = queue128.get_some [OF ok q]
  have "psk_thread_turn ctr d live = Some (try_candidates ctr f (pd_candidates d) (d\<lparr> pd_queue := q \<rparr>) live)"
    by (simp add: psk_thread_turn_def PSK_QUEUE_SIZE_def q)
  then show ?thesis
    using try_candidates_none [OF fail frame, of "d\<lparr> pd_queue := q \<rparr>" live] started rest queue
      queue128.puts [of q "replicate (length (pd_candidates d)) f"] by (simp add: Let_def)
qed

theorem psk_search_refeeds_witness:
  "\<exists>d'. psk_thread_turn (\<lambda>key iv inp. None)
      \<lparr> pd_started = True, pd_candidates = [\<lparr> cd_spec = ''default'', cd_psk = replicate 16 1 \<rparr>],
        pd_queue = \<lparr> rg_slots = replicate 128 \<lparr> pf_bytes = replicate 20 5, pf_radio = radio0 \<rparr>, rg_head = 1, rg_tail = 0 \<rparr> \<rparr> None
    = Some (None, d', None)
    \<and> ring_abs 128 (pd_queue d') = [\<lparr> pf_bytes = replicate 20 5, pf_radio = radio0 \<rparr>]"
proof -
  define f where "f = \<lparr> pf_bytes = replicate 20 (5 :: byte), pf_radio = radio0 \<rparr>"
  define d where "d = \<lparr> pd_started = True, pd_candidates = [\<lparr> cd_spec = ''default'', cd_psk = replicate 16 1 \<rparr>],
      pd_queue = \<lparr> rg_slots = replicate 128 f, rg_head = 1, rg_tail = 0 \<rparr> \<rparr>"
  have "ring_abs 128 (pd_queue d) = f # []" by (simp add: d_def ring_abs_def ring_len_def)
  moreover have "\<forall>c \<in> set (pd_candidates d). psk_len_ok (cd_psk c) \<and> opens (\<lambda>key iv inp. None) f c = None"
    by (simp add: d_def psk_len_ok_def opens_def try_key_def trial_entry_def aes_ctr_decrypt_def Let_def)
  ultimately have "\<exists>d'. psk_thread_turn (\<lambda>key iv inp. None) d None = Some (None, d', None)
    \<and> ring_abs 128 (pd_queue d') = (let l = [] @ replicate (length (pd_candidates d)) f in drop (length l - 127) l)"
    by (intro psk_search_refeeds) (simp_all add: d_def f_def ring_ok_def)
  then show ?thesis by (simp add: d_def f_def)
qed

text \<open>
  A key found by the search enters the live keyset under the name of the trial entry, never under
  the name announced for discovered keys.
\<close>

lemma try_key_channel: "try_key ctr ev inp e = Some cand \<Longrightarrow> ev_decrypted cand \<and> ev_channel_name cand = take 31 (ke_channel_name e)"
  by (auto simp: try_key_def Let_def split: option.splits prod.splits bool.splits)

theorem psk_discovery_named_trial:
  assumes "psk_len_ok (cd_psk c)" "16 < length (pf_bytes f)" "opens ctr f c = Some cand"
  shows "\<exists>d'. try_candidates ctr f (c # cs) d (Some k) =
    (Some \<lparr> ds_channel_hash = pf_bytes f ! 13, ds_spec = cd_spec c, ds_psk_len = length (cd_psk c), ds_channel_name = ''(trial)'' \<rparr>,
     d', Some (snd (keyset_add_raw k (pf_bytes f ! 13) (cd_psk c) (Some ''(trial)''))))"
proof -
  obtain tmp where tmp: "keyset_add_raw keyset_create (pf_bytes f ! 13) (cd_psk c) (Some ''(trial)'') = (0, tmp)" "keyset_inv tmp"
      "ks_entries tmp = [trial_entry (pf_bytes f ! 13) c]"
    using trial_keyset [OF assms(1)] .
  have "ev_decrypted cand \<and> ev_channel_name cand = ''(trial)''"
    using try_key_channel assms(3) by (fastforce simp: opens_def trial_entry_def)
  then show ?thesis using assms(2,3) tmp(1) decode_trial [OF tmp(2,3) assms(2), of ctr]
    by (simp add: Let_def attempt_cb_def)
qed

end
