(* ===== verification/Meshcore.thy ===== *)
theory Meshcore
  imports Mesh_Event
begin

text \<open>
  The MeshCore constants and the channel table of \<^verbatim>\<open>src/meshcore.h\<close> and \<^verbatim>\<open>src/meshcore.c\<close>.
  The digest and the base64 block decoder of the crypto library are parameters: \<^verbatim>\<open>sha\<close>
  (None where a library call fails) and \<^verbatim>\<open>block\<close> (None for its negative result).  The
  hexadecimal reader of this file is textually the one of the keyset and is shared with it.
  A channel table is the list of its used entries; its lock is left out.
\<close>

subsection \<open>Constants\<close>

definition MC_ROUTE_TRANSPORT_FLOOD :: int where "MC_ROUTE_TRANSPORT_FLOOD = 0"
definition MC_ROUTE_FLOOD :: int where "MC_ROUTE_FLOOD = 1"
definition MC_ROUTE_DIRECT :: int where "MC_ROUTE_DIRECT = 2"
definition MC_ROUTE_TRANSPORT_DIRECT :: int where "MC_ROUTE_TRANSPORT_DIRECT = 3"

definition mc_route_has_transport_codes :: "int \<Rightarrow> bool" where
  "mc_route_has_transport_codes route_type =
     (route_type = MC_ROUTE_TRANSPORT_FLOOD \<or> route_type = MC_ROUTE_TRANSPORT_DIRECT)"

definition MC_PAYLOAD_NAMES :: "(int \<times> string) list" where
  "MC_PAYLOAD_NAMES = [(0, ''REQ''), (1, ''RESPONSE''), (2, ''TXT_MSG''), (3, ''ACK''), (4, ''ADVERT''),
     (5, ''GRP_TXT''), (6, ''GRP_DATA''), (7, ''ANON_REQ''), (8, ''PATH''), (9, ''TRACE''),
     (0x0A, ''MULTIPART''), (0x0B, ''CONTROL''), (0x0F, ''RAW_CUSTOM'')]"

definition mc_payload_type_name :: "int \<Rightarrow> string" where
  "mc_payload_type_name payload_type =
     (case map_of MC_PAYLOAD_NAMES payload_type of Some n \<Rightarrow> n | None \<Rightarrow> ''UNKNOWN'')"

definition MC_CHANNEL_MAX_ENTRIES :: nat where "MC_CHANNEL_MAX_ENTRIES = 32"
definition MC_CHANNEL_MAX_NAME :: nat where "MC_CHANNEL_MAX_NAME = 32"
definition MC_CHANNEL_SECRET_BYTES :: nat where "MC_CHANNEL_SECRET_BYTES = 32"

subsection \<open>Secrets\<close>

type_synonym digest = "bytes \<Rightarrow> bytes option"
type_synonym block_decoder = "string \<Rightarrow> bytes option"

definition meshcore_channel_hash :: "digest \<Rightarrow> bytes \<Rightarrow> byte" where
  "meshcore_channel_hash sha secret = (case sha secret of Some (b # bs) \<Rightarrow> b | _ \<Rightarrow> 0)"

definition is_strict_hex :: "string \<Rightarrow> bool" where
  "is_strict_hex s = list_all (\<lambda>ch. \<not> hex_nibble ch < 0) s"

definition b64_char_ok :: "nat \<Rightarrow> nat \<Rightarrow> char \<Rightarrow> bool" where
  "b64_char_ok len i ch =
     (let c = of_char ch :: nat
      in 65 \<le> c \<and> c \<le> 90 \<or> 97 \<le> c \<and> c \<le> 122 \<or> 48 \<le> c \<and> c \<le> 57 \<or> ch = CHR ''+'' \<or> ch = CHR ''/''
         \<or> ch = CHR ''='' \<and> i + 2 \<ge> len)"

definition base64_decode :: "block_decoder \<Rightarrow> string \<Rightarrow> nat \<Rightarrow> bytes option" where
  "base64_decode block b64 max_out =
     (let len = length b64
      in if len = 0 \<or> len mod 4 \<noteq> 0 then None
         else let pad = (if b64 ! (len - 1) = CHR ''='' then 1 else 0) + (if b64 ! (len - 2) = CHR ''='' then 1 else (0 :: nat))
              in if \<not> list_all (\<lambda>i. b64_char_ok len i (b64 ! i)) [0..<len] then None
                 else if len div 4 * 3 > 128 then None
                 else case block b64 of
                        None \<Rightarrow> None
                      | Some tmp \<Rightarrow> (let n = length tmp - pad in if n > max_out then None else Some (take n tmp)))"

definition secret_len_ok :: "bytes \<Rightarrow> bool" where
  "secret_len_ok bs = (length bs = 16 \<or> length bs = 32)"

definition meshcore_decode_psk :: "block_decoder \<Rightarrow> string \<Rightarrow> bytes option" where
  "meshcore_decode_psk block str =
     (let hex = (if (length str = 32 \<or> length str = 64) \<and> is_strict_hex str
                 then hex_decode str MC_CHANNEL_SECRET_BYTES else None)
      in case hex of
           Some bs \<Rightarrow> if secret_len_ok bs then Some bs
                      else (case base64_decode block str MC_CHANNEL_SECRET_BYTES of
                              Some cs \<Rightarrow> if secret_len_ok cs then Some cs else None | None \<Rightarrow> None)
         | None \<Rightarrow> (case base64_decode block str MC_CHANNEL_SECRET_BYTES of
                      Some cs \<Rightarrow> if secret_len_ok cs then Some cs else None | None \<Rightarrow> None))"

subsection \<open>The channel table\<close>

record meshcore_channel =
  ch_name :: string
  ch_secret :: bytes
  ch_hash :: byte

type_synonym channelset = "meshcore_channel list"

definition meshcore_channelset_create :: channelset where
  "meshcore_channelset_create = []"

definition channel_entry :: "digest \<Rightarrow> string \<Rightarrow> bytes \<Rightarrow> meshcore_channel" where
  "channel_entry sha name secret =
     \<lparr> ch_name = take (MC_CHANNEL_MAX_NAME - 1) name, ch_secret = secret, ch_hash = meshcore_channel_hash sha secret \<rparr>"

text \<open>The result is the reported hash and display name, or None for -1.\<close>

definition add_channel_locked ::
  "digest \<Rightarrow> channelset \<Rightarrow> string \<Rightarrow> bytes \<Rightarrow> (byte \<times> string) option \<times> channelset" where
  "add_channel_locked sha cs name secret =
     (let e = channel_entry sha name secret; ok = Some (ch_hash e, ch_name e)
      in case find (\<lambda>i. ch_name (cs ! i) = name) [0..<length cs] of
           Some i \<Rightarrow> (ok, cs[i := e])
         | None \<Rightarrow> if length cs \<ge> MC_CHANNEL_MAX_ENTRIES then (None, cs) else (ok, cs @ [e]))"

definition meshcore_channelset_add_spec ::
  "digest \<Rightarrow> block_decoder \<Rightarrow> channelset \<Rightarrow> string \<Rightarrow> (byte \<times> string) option \<times> channelset" where
  "meshcore_channelset_add_spec sha block cs spec =
     (if CHR '':'' \<notin> set spec then (None, cs)
      else let nm = takeWhile (\<lambda>ch. ch \<noteq> CHR '':'') spec
           in case meshcore_decode_psk block (drop (length nm + 1) spec) of
                None \<Rightarrow> (None, cs)
              | Some secret \<Rightarrow> add_channel_locked sha cs (take (MC_CHANNEL_MAX_NAME - 1) nm) secret)"

definition meshcore_channelset_add_default_public ::
  "digest \<Rightarrow> block_decoder \<Rightarrow> channelset \<Rightarrow> (byte \<times> string) option \<times> channelset" where
  "meshcore_channelset_add_default_public sha block cs =
     meshcore_channelset_add_spec sha block cs ''Public:izOH6cXN6mrJ5e26oRXNcg==''"

definition meshcore_channel_hashtag_secret :: "digest \<Rightarrow> string \<Rightarrow> bytes" where
  "meshcore_channel_hashtag_secret sha name =
     (case sha (str_bytes (CHR ''#'' # take MC_CHANNEL_MAX_NAME name)) of
        Some d \<Rightarrow> if length d \<ge> 16 then take 16 d else replicate 16 0
      | None \<Rightarrow> replicate 16 0)"

definition meshcore_channelset_add_hashtag ::
  "digest \<Rightarrow> block_decoder \<Rightarrow> channelset \<Rightarrow> string \<Rightarrow> (byte \<times> string) option \<times> channelset" where
  "meshcore_channelset_add_hashtag sha block cs name =
     (if name = [] then (None, cs)
      else let name = (if hd name = CHR ''#'' then tl name else name)
           in if name = [] then (None, cs)
              else if strcasematch name ''public'' then meshcore_channelset_add_default_public sha block cs
              else add_channel_locked sha cs (take (MC_CHANNEL_MAX_NAME - 1) (CHR ''#'' # name))
                     (meshcore_channel_hashtag_secret sha name))"

definition meshcore_channelset_lookup :: "channelset \<Rightarrow> byte \<Rightarrow> nat \<Rightarrow> nat list" where
  "meshcore_channelset_lookup cs hash max_out =
     take max_out (filter (\<lambda>i. ch_hash (cs ! i) = hash) [0..<length cs]
                   @ filter (\<lambda>i. ch_hash (cs ! i) \<noteq> hash) [0..<length cs])"

subsection \<open>Candidate names\<close>

definition to_upper :: "char \<Rightarrow> char" where
  "to_upper ch = (let n = of_char ch :: nat in if 97 \<le> n \<and> n \<le> 122 then char_of (n - 32) else ch)"

definition title_case :: "string \<Rightarrow> string" where
  "title_case v = (case v of [] \<Rightarrow> [] | c # cs \<Rightarrow> to_upper c # map to_lower cs)"

definition meshcore_name_case_variants :: "string \<Rightarrow> string list" where
  "meshcore_name_case_variants name =
     (let v = take (MC_CHANNEL_MAX_NAME - 1) name
      in foldl (\<lambda>out v. if v \<in> set out \<or> \<not> length out < 4 then out else out @ [v]) [v]
           [map to_lower v, map to_upper v, title_case v])"

definition dec_digit :: "nat \<Rightarrow> char" where
  "dec_digit d = char_of (48 + d)"

definition meshcore_builtin_hashtag_candidates :: "nat \<Rightarrow> string list" where
  "meshcore_builtin_hashtag_candidates max_out =
     take max_out (map (\<lambda>d. ''fr-'' @ [dec_digit (d div 10), dec_digit (d mod 10)]) [1..<100]
       @ [''fr-2a'', ''fr-2b'']
       @ map (\<lambda>r. ''fr-'' @ r) [''ara'', ''bfc'', ''bre'', ''cvl'', ''cor'', ''ges'', ''hdf'',
            ''idf'', ''nor'', ''naq'', ''occ'', ''pdl'', ''paca'']
       @ [''eu'', ''europe'', ''fr'', ''france''])"

subsection \<open>The table as a map from names to secrets\<close>

definition channel_abs :: "channelset \<Rightarrow> string \<rightharpoonup> bytes" where
  "channel_abs cs = map_of (map (\<lambda>e. (ch_name e, ch_secret e)) cs)"

definition channel_ok :: "digest \<Rightarrow> meshcore_channel \<Rightarrow> bool" where
  "channel_ok sha e \<longleftrightarrow> length (ch_name e) < MC_CHANNEL_MAX_NAME \<and> secret_len_ok (ch_secret e)
     \<and> ch_hash e = meshcore_channel_hash sha (ch_secret e)"

definition channel_inv :: "digest \<Rightarrow> channelset \<Rightarrow> bool" where
  "channel_inv sha cs \<longleftrightarrow> length cs \<le> MC_CHANNEL_MAX_ENTRIES \<and> distinct (map ch_name cs) \<and> list_all (channel_ok sha) cs"

lemma find_name:
  "find (\<lambda>i. ch_name (cs ! i) = name) [0..<length cs] = None \<longleftrightarrow> name \<notin> set (map ch_name cs)"
  by (force simp: find_None_iff in_set_conv_nth)

lemma find_name_Some:
  "find (\<lambda>i. ch_name (cs ! i) = name) [0..<length cs] = Some i \<Longrightarrow> i < length cs \<and> ch_name (cs ! i) = name"
  by (auto simp: find_Some_iff)

lemma map_of_list_update:
  assumes "distinct (map fst xs)" "i < length xs" "fst (xs ! i) = k"
  shows "map_of (xs[i := (k, v)]) = (map_of xs)(k \<mapsto> v)"
  using assms
proof (induction xs arbitrary: i)
  case (Cons x xs)
  show ?case
  proof (cases i)
    case 0
    then show ?thesis using Cons.prems by (cases x) auto
  next
    case (Suc j)
    then have "k \<in> fst ` set xs" using Cons.prems by force
    then have "fst x \<noteq> k" using Cons.prems(1) by auto
    then show ?thesis using Cons Suc by (cases x) (auto simp: fun_upd_twist)
  qed
qed simp

lemma map_of_snoc: "k \<notin> fst ` set xs \<Longrightarrow> map_of (xs @ [(k, v)]) = (map_of xs)(k \<mapsto> v)"
  by (rule ext) (force simp: map_add_def dest: map_of_SomeD split: option.split)

lemma channel_entry_ok:
  "length name < MC_CHANNEL_MAX_NAME \<Longrightarrow> secret_len_ok secret \<Longrightarrow>
     channel_ok sha (channel_entry sha name secret) \<and> ch_name (channel_entry sha name secret) = name
     \<and> ch_secret (channel_entry sha name secret) = secret"
  by (simp add: channel_ok_def channel_entry_def MC_CHANNEL_MAX_NAME_def)

text \<open>
  What the decoders and the configuration code rely on: a successful insertion is a map update
  under the given name and keeps the invariant; it fails only for a new name in a full table,
  and then changes nothing.
\<close>

locale channel_table =
  fixes add :: "'t \<Rightarrow> string \<Rightarrow> bytes \<Rightarrow> (byte \<times> string) option \<times> 't"
    and wf :: "'t \<Rightarrow> bool" and abst :: "'t \<Rightarrow> string \<rightharpoonup> bytes" and hash :: "bytes \<Rightarrow> byte" and cap :: nat
  assumes update: "wf t \<Longrightarrow> length name < MC_CHANNEL_MAX_NAME \<Longrightarrow> secret_len_ok secret \<Longrightarrow> add t name secret = (Some r, t')
      \<Longrightarrow> wf t' \<and> abst t' = (abst t)(name \<mapsto> secret) \<and> r = (hash secret, name)"
    and full: "wf t \<Longrightarrow> add t name secret = (None, t') \<Longrightarrow> t' = t \<and> name \<notin> dom (abst t) \<and> card (dom (abst t)) = cap"
begin

lemma keeps:
  assumes "wf t" "length name < MC_CHANNEL_MAX_NAME" "secret_len_ok secret"
  shows "wf (snd (add t name secret))"
proof (cases "add t name secret")
  case (Pair r t')
  then show ?thesis using update [OF assms] full [OF assms(1)] assms(1) by (cases r) fastforce+
qed

lemma other_names:
  assumes "wf t" "length name < MC_CHANNEL_MAX_NAME" "secret_len_ok secret" "other \<noteq> name"
  shows "abst (snd (add t name secret)) other = abst t other"
proof (cases "add t name secret")
  case (Pair r t')
  then show ?thesis using update [OF assms(1-3)] full [OF assms(1)] assms(4) by (cases r) fastforce+
qed

end

lemma dom_channel_abs: "dom (channel_abs cs) = set (map ch_name cs)"
  by (force simp: channel_abs_def dom_map_of_conv_image_fst)

interpretation channels: channel_table "add_channel_locked sha" "channel_inv sha" channel_abs
  "meshcore_channel_hash sha" MC_CHANNEL_MAX_ENTRIES
proof
  fix t t' name secret r
  assume inv: "channel_inv sha t" and name: "length name < MC_CHANNEL_MAX_NAME" and secret: "secret_len_ok secret"
    and add: "add_channel_locked sha t name secret = (Some r, t')"
  define e where "e = channel_entry sha name secret"
  note e = channel_entry_ok [OF name secret, of sha, folded e_def]
  have hash: "ch_hash e = meshcore_channel_hash sha secret" by (simp add: e_def channel_entry_def)
  show "channel_inv sha t' \<and> channel_abs t' = (channel_abs t)(name \<mapsto> secret) \<and> r = (meshcore_channel_hash sha secret, name)"
  proof (cases "find (\<lambda>i. ch_name (t ! i) = name) [0..<length t]")
    case None
    then have new: "name \<notin> set (map ch_name t)" using find_name by blast
    have t': "t' = t @ [e]" "length t < MC_CHANNEL_MAX_ENTRIES" "r = (ch_hash e, ch_name e)"
      using add None by (auto simp: add_channel_locked_def Let_def e_def split: if_splits)
    have "channel_abs t' = (channel_abs t)(name \<mapsto> secret)"
      using new e map_of_snoc [of name "map (\<lambda>e. (ch_name e, ch_secret e)) t" secret]
      by (force simp: t' channel_abs_def)
    then show ?thesis using inv new e t' hash by (auto simp: channel_inv_def)
  next
    case (Some i)
    note i = find_name_Some [OF Some]
    have t': "t' = t[i := e]" "r = (ch_hash e, ch_name e)"
      using add Some by (auto simp: add_channel_locked_def Let_def e_def)
    have names: "map ch_name t' = map ch_name t"
      unfolding t' map_update using i e by (metis list_update_id nth_map)
    have "list_all (channel_ok sha) t'"
      using inv e unfolding t' channel_inv_def list_all_iff by (auto dest: set_update_subset_insert [THEN subsetD])
    moreover have "channel_abs t' = (channel_abs t)(name \<mapsto> secret)"
      unfolding t' channel_abs_def map_update using e i inv
      by (simp add: map_of_list_update channel_inv_def comp_def)
    ultimately show ?thesis using inv e t' names hash by (simp add: channel_inv_def)
  qed
next
  fix t t' name secret
  assume inv: "channel_inv sha t" and add: "add_channel_locked sha t name secret = (None, t')"
  then have "find (\<lambda>i. ch_name (t ! i) = name) [0..<length t] = None" "t' = t" "length t \<ge> MC_CHANNEL_MAX_ENTRIES"
    by (auto simp: add_channel_locked_def Let_def split: option.splits if_splits)
  then show "t' = t \<and> name \<notin> dom (channel_abs t) \<and> card (dom (channel_abs t)) = MC_CHANNEL_MAX_ENTRIES"
    using inv by (auto simp: find_name dom_channel_abs channel_inv_def distinct_card simp flip: set_map)
qed

lemma decode_psk_len: "meshcore_decode_psk block str = Some bs \<Longrightarrow> secret_len_ok bs"
  by (auto simp: meshcore_decode_psk_def Let_def split: option.splits if_splits)

lemma hashtag_secret_len: "secret_len_ok (meshcore_channel_hashtag_secret sha name)"
  by (simp add: secret_len_ok_def meshcore_channel_hashtag_secret_def split: option.split)

text \<open>What one public operation may do to a table.\<close>

definition channel_update :: "digest \<Rightarrow> channelset \<Rightarrow> (byte \<times> string) option \<times> channelset \<Rightarrow> bool" where
  "channel_update sha cs r =
     (case r of (None, cs') \<Rightarrow> cs' = cs
      | (Some (h, d), cs') \<Rightarrow>
          channel_inv sha cs' \<and> (\<exists>secret. channel_abs cs' = (channel_abs cs)(d \<mapsto> secret) \<and> h = meshcore_channel_hash sha secret))"

lemma add_channel_update:
  assumes "channel_inv sha cs" "length name < MC_CHANNEL_MAX_NAME" "secret_len_ok secret"
  shows "channel_update sha cs (add_channel_locked sha cs name secret)"
proof (cases "add_channel_locked sha cs name secret")
  case (Pair r cs')
  show ?thesis
  proof (cases r)
    case None
    then show ?thesis using channels.full [OF assms(1)] Pair by (auto simp: channel_update_def)
  next
    case (Some hd)
    then show ?thesis using channels.update [OF assms] Pair by (auto simp: channel_update_def)
  qed
qed

lemma add_spec_update:
  "channel_inv sha cs \<Longrightarrow> channel_update sha cs (meshcore_channelset_add_spec sha block cs spec)"
  by (auto simp: meshcore_channelset_add_spec_def Let_def channel_update_def [of _ _ "(None, cs)"]
      MC_CHANNEL_MAX_NAME_def intro!: add_channel_update decode_psk_len split: option.split)



lemma decode_psk_hex:
  assumes "secret_len_ok secret"
  shows "meshcore_decode_psk block (hex_dump secret 0 65) = Some secret"
proof -
  let ?s = "hex_dump secret 0 65"
  have l: "length secret = 16 \<or> length secret = 32" using assms by (simp add: secret_len_ok_def)
  have len: "length ?s = 2 * length secret" using l by (intro hex_dump_length) auto
  have "hex_pairs ?s = Some secret" using l by (intro hex_pairs_dump) auto
  then have "hex_decode ?s MC_CHANNEL_SECRET_BYTES = Some secret"
    using l by (auto simp: hex_decode_def len MC_CHANNEL_SECRET_BYTES_def)
  moreover have "is_strict_hex ?s" using hex_dump_digits by (fastforce simp: is_strict_hex_def list_all_iff)
  ultimately show ?thesis using l assms by (auto simp: meshcore_decode_psk_def len)
qed

lemma lookup_all:
  assumes "channel_inv sha cs"
  shows "meshcore_channelset_lookup cs h 32 = filter (\<lambda>i. ch_hash (cs ! i) = h) [0..<length cs]
      @ filter (\<lambda>i. ch_hash (cs ! i) \<noteq> h) [0..<length cs]"
proof -
  let ?xs = "filter (\<lambda>i. ch_hash (cs ! i) = h) [0..<length cs]" and ?ys = "filter (\<lambda>i. ch_hash (cs ! i) \<noteq> h) [0..<length cs]"
  have "length ?xs + length ?ys \<le> 32"
    using assms sum_length_filter_compl [of "\<lambda>i. ch_hash (cs ! i) = h" "[0..<length cs]"]
    by (simp add: channel_inv_def MC_CHANNEL_MAX_ENTRIES_def)
  then show ?thesis unfolding meshcore_channelset_lookup_def by (intro take_all) simp
qed

text \<open>
  A channel configured with a hexadecimal secret is found again.  Adding the specification
  of a name and the hexadecimal text of a 16- or 32-byte secret to a table with room succeeds
  whatever the base64 decoder does, and a look-up under the reported hash then lists every
  channel exactly once, those with that hash first, the new one among them.
\<close>

lemma channel_spec_found:
  assumes inv: "channel_inv sha cs" and secret: "secret_len_ok secret"
    and name: "CHR '':'' \<notin> set name" "length name < 32" and room: "length cs < 32"
  shows "\<exists>cs' xs ys i. meshcore_channelset_add_spec sha block cs (name @ CHR '':'' # hex_dump secret 0 65)
      = (Some (meshcore_channel_hash sha secret, name), cs')
    \<and> meshcore_channelset_lookup cs' (meshcore_channel_hash sha secret) 32 = xs @ ys
    \<and> set (xs @ ys) = {..<length cs'} \<and> distinct (xs @ ys)
    \<and> i \<in> set xs \<and> ch_secret (cs' ! i) = secret \<and> ch_name (cs' ! i) = name"
proof -
  let ?h = "meshcore_channel_hash sha secret"
  have tw: "takeWhile (\<lambda>ch. ch \<noteq> CHR '':'') (name @ CHR '':'' # hex_dump secret 0 65) = name"
    using name(1) by (subst takeWhile_append2) auto
  have name': "length name < MC_CHANNEL_MAX_NAME" using name(2) by (simp add: MC_CHANNEL_MAX_NAME_def)
  obtain r cs' where add: "add_channel_locked sha cs name secret = (r, cs')" by fastforce
  have "r \<noteq> None"
    using add room by (auto simp: add_channel_locked_def Let_def MC_CHANNEL_MAX_ENTRIES_def split: option.splits)
  then obtain r' where r': "add_channel_locked sha cs name secret = (Some r', cs')" using add by auto
  note upd = channels.update [OF inv name' secret r']
  have "meshcore_channelset_add_spec sha block cs (name @ CHR '':'' # hex_dump secret 0 65) = (Some (?h, name), cs')"
    using r' upd name(2) unfolding meshcore_channelset_add_spec_def Let_def tw
    by (simp add: decode_psk_hex [OF secret] MC_CHANNEL_MAX_NAME_def)
  moreover have "channel_abs cs' name = Some secret" using upd by simp
  then have "(name, secret) \<in> set (map (\<lambda>e. (ch_name e, ch_secret e)) cs')"
    unfolding channel_abs_def by (rule map_of_SomeD)
  then obtain e where "e \<in> set cs'" "ch_name e = name" "ch_secret e = secret" by auto
  then obtain i where i: "i < length cs'" "ch_name (cs' ! i) = name" "ch_secret (cs' ! i) = secret"
    by (auto simp: in_set_conv_nth)
  then have "ch_hash (cs' ! i) = ?h" using upd by (auto simp: channel_inv_def channel_ok_def list_all_length)
  ultimately show ?thesis using i lookup_all [of sha cs' ?h] upd
    by (intro exI [of _ cs'] exI [of _ "filter (\<lambda>i. ch_hash (cs' ! i) = ?h) [0..<length cs']"]
        exI [of _ "filter (\<lambda>i. ch_hash (cs' ! i) \<noteq> ?h) [0..<length cs']"] exI [of _ i]) auto
qed

end
