(* ===== verification/Meshcore_Packet.thy ===== *)
theory Meshcore_Packet
  imports Meshcore
begin

text \<open>
  The MeshCore framing and the group-channel decryption of \<^verbatim>\<open>src/meshcore_packet.c\<close>.  The
  keyed digest and the block cipher of the crypto library are parameters: \<^verbatim>\<open>hmac\<close> takes key
  and message, \<^verbatim>\<open>ecb\<close> takes a 16-byte key and whole blocks and decrypts them without
  padding; both give None where the library reports a failure.
\<close>

subsection \<open>Framing\<close>

record meshcore_packet =
  pk_route_type :: int
  pk_payload_type :: int
  pk_payload_ver :: int
  pk_has_transport_codes :: bool
  pk_transport_code1 :: u16
  pk_transport_code2 :: u16
  pk_path :: bytes
  pk_path_hash_count :: nat
  pk_path_hash_size :: nat
  pk_payload :: bytes

definition MC_MAX_PACKET_PAYLOAD :: nat where "MC_MAX_PACKET_PAYLOAD = 184"
definition MC_MAX_PATH_SIZE :: nat where "MC_MAX_PATH_SIZE = 64"

definition rd_le16 :: "bytes \<Rightarrow> u16" where
  "rd_le16 p = ucast (p ! 0) OR push_bit 8 (ucast (p ! 1))"

text \<open>The rest of the parser, from the path length byte on, with the fields read before as arguments.\<close>

definition parse_path :: "int \<Rightarrow> int \<Rightarrow> int \<Rightarrow> bool \<Rightarrow> u16 \<Rightarrow> u16 \<Rightarrow> bytes \<Rightarrow> meshcore_packet option" where
  "parse_path route ptype ver codes c1 c2 p =
     (case p of
        [] \<Rightarrow> None
      | b # p \<Rightarrow>
          (let hash_count = unat (b AND 0x3F); hash_size = unat (drop_bit 6 (b AND 0xC0)) + 1
           in if hash_size < 1 \<or> hash_size > 3 then None
              else let path_bytes = hash_count * hash_size
                   in if path_bytes > MC_MAX_PATH_SIZE then None
                      else if length p < path_bytes then None
                      else Some \<lparr> pk_route_type = route, pk_payload_type = ptype, pk_payload_ver = ver,
                             pk_has_transport_codes = codes, pk_transport_code1 = c1, pk_transport_code2 = c2,
                             pk_path = take path_bytes p, pk_path_hash_count = hash_count,
                             pk_path_hash_size = hash_size,
                             pk_payload = take MC_MAX_PACKET_PAYLOAD (drop path_bytes p) \<rparr>))"

definition meshcore_packet_parse :: "bytes \<Rightarrow> meshcore_packet option" where
  "meshcore_packet_parse raw =
     (if length raw < 2 then None
      else let header = hd raw; p = tl raw;
               route = uint (header AND 0x03);
               ptype = uint (drop_bit 2 (header AND 0x3C));
               ver = uint (drop_bit 6 (header AND 0xC0));
               codes = mc_route_has_transport_codes route
           in if codes
              then (if length p < 4 then None
                    else parse_path route ptype ver codes (rd_le16 p) (rd_le16 (drop 2 p)) (drop 4 p))
              else parse_path route ptype ver codes 0 0 p)"

subsection \<open>Authenticated decryption\<close>

type_synonym keyed = "bytes \<Rightarrow> bytes \<Rightarrow> bytes option"

definition MC_PUB_KEY_SIZE :: nat where "MC_PUB_KEY_SIZE = 32"
definition MC_CIPHER_MAC_SIZE :: nat where "MC_CIPHER_MAC_SIZE = 2"
definition MC_CIPHER_BLOCK_SIZE :: nat where "MC_CIPHER_BLOCK_SIZE = 16"

definition zero_pad :: "nat \<Rightarrow> bytes \<Rightarrow> bytes" where
  "zero_pad n bs = bs @ replicate (n - length bs) 0"

definition padded_len :: "nat \<Rightarrow> nat" where
  "padded_len n = (n + MC_CIPHER_BLOCK_SIZE - 1) div MC_CIPHER_BLOCK_SIZE * MC_CIPHER_BLOCK_SIZE"

definition meshcore_verify_and_decrypt :: "keyed \<Rightarrow> keyed \<Rightarrow> bytes \<Rightarrow> bytes \<Rightarrow> bytes option" where
  "meshcore_verify_and_decrypt hmac ecb secret enc_with_mac =
     (if length secret \<noteq> 16 \<and> length secret \<noteq> 32 then None
      else if length enc_with_mac < MC_CIPHER_MAC_SIZE then None
      else let mac_bytes = take MC_CIPHER_MAC_SIZE enc_with_mac; ciphertext = drop MC_CIPHER_MAC_SIZE enc_with_mac
           in case hmac (zero_pad MC_PUB_KEY_SIZE secret) ciphertext of
                None \<Rightarrow> None
              | Some full \<Rightarrow>
                  if length full < MC_CIPHER_MAC_SIZE then None
                  else if take MC_CIPHER_MAC_SIZE full \<noteq> mac_bytes then None
                  else if ciphertext = [] then Some []
                  else let n = padded_len (length ciphertext)
                       in if n > MC_MAX_PACKET_PAYLOAD + MC_CIPHER_BLOCK_SIZE then None
                          else map_option (take (length ciphertext))
                                 (ecb (take 16 secret) (zero_pad n ciphertext)))"

subsection \<open>Reference sender\<close>

definition packet_ok :: "meshcore_packet \<Rightarrow> bool" where
  "packet_ok k \<longleftrightarrow> 0 \<le> pk_route_type k \<and> pk_route_type k < 4 \<and> 0 \<le> pk_payload_type k \<and> pk_payload_type k < 16
     \<and> 0 \<le> pk_payload_ver k \<and> pk_payload_ver k < 4
     \<and> pk_has_transport_codes k = mc_route_has_transport_codes (pk_route_type k)
     \<and> (if pk_has_transport_codes k then True else pk_transport_code1 k = 0 \<and> pk_transport_code2 k = 0)
     \<and> pk_path_hash_count k < 64 \<and> 1 \<le> pk_path_hash_size k \<and> pk_path_hash_size k \<le> 3
     \<and> length (pk_path k) = pk_path_hash_count k * pk_path_hash_size k \<and> length (pk_path k) \<le> 64
     \<and> length (pk_payload k) \<le> 184"

definition header_byte :: "meshcore_packet \<Rightarrow> byte" where
  "header_byte k = word_of_int (pk_route_type k + 4 * pk_payload_type k + 64 * pk_payload_ver k)"

definition path_byte :: "meshcore_packet \<Rightarrow> byte" where
  "path_byte k = of_nat (pk_path_hash_count k + 64 * (pk_path_hash_size k - 1))"

definition le16 :: "u16 \<Rightarrow> bytes" where
  "le16 w = [ucast w, ucast (drop_bit 8 w)]"

definition packet_bytes :: "meshcore_packet \<Rightarrow> bytes" where
  "packet_bytes k = header_byte k # (if pk_has_transport_codes k then le16 (pk_transport_code1 k) @ le16 (pk_transport_code2 k) else [])
     @ path_byte k # pk_path k @ pk_payload k"

lemma rd_le16_le16 [simp]: "rd_le16 (le16 w @ rest) = w"
  by (rule bit_word_eqI) (auto simp: rd_le16_def le16_def bit_or_iff bit_push_bit_iff bit_ucast_iff bit_drop_bit_eq not_less)

lemma le16_rd_le16: "le16 (rd_le16 (a # b # rest)) = [a, b]"
proof -
  have "ucast (rd_le16 (a # b # rest)) = a"
    by (rule bit_word_eqI) (auto simp: rd_le16_def bit_or_iff bit_push_bit_iff bit_ucast_iff)
  moreover have "ucast (drop_bit 8 (rd_le16 (a # b # rest))) = b"
    by (rule bit_word_eqI) (auto simp: rd_le16_def bit_or_iff bit_push_bit_iff bit_ucast_iff bit_drop_bit_eq byte_bit_high)
  ultimately show ?thesis by (simp add: le16_def)
qed

lemma bit_header_masks:
  "bit (0x03 :: byte) n \<longleftrightarrow> n < 2" "bit (0x3F :: byte) n \<longleftrightarrow> n < 6"
  "bit (0x3C :: byte) n \<longleftrightarrow> 2 \<le> n \<and> n < 6" "bit (0xC0 :: byte) n \<longleftrightarrow> 6 \<le> n \<and> n < 8"
proof -
  have m: "(0x3C :: byte) = push_bit 2 (mask 4)" "(0xC0 :: byte) = push_bit 6 (mask 2)"
    by (simp_all add: mask_eq_exp_minus_1 push_bit_eq_mult)
  show "bit (0x03 :: byte) n \<longleftrightarrow> n < 2" "bit (0x3F :: byte) n \<longleftrightarrow> n < 6" by (rule bit_mask_bytes)+
  show "bit (0x3C :: byte) n \<longleftrightarrow> 2 \<le> n \<and> n < 6" "bit (0xC0 :: byte) n \<longleftrightarrow> 6 \<le> n \<and> n < 8"
    unfolding m by (simp_all only: bit_push_bit_iff bit_mask_iff) auto
qed

lemma header_masks:
  fixes h :: byte
  shows "h AND 0x03 = take_bit 2 h" "drop_bit 2 (h AND 0x3C) = take_bit 4 (drop_bit 2 h)"
    "drop_bit 6 (h AND 0xC0) = drop_bit 6 h" "h AND 0x3F = take_bit 6 h"
proof -
  show "h AND 0x03 = take_bit 2 h" "h AND 0x3F = take_bit 6 h"
    by (rule bit_word_eqI, unfold bit_and_iff bit_header_masks bit_take_bit_iff, auto)+
  show "drop_bit 2 (h AND 0x3C) = take_bit 4 (drop_bit 2 h)"
    by (rule bit_word_eqI, unfold bit_and_iff bit_header_masks bit_take_bit_iff bit_drop_bit_eq comp_def) auto
  show "drop_bit 6 (h AND 0xC0) = drop_bit 6 h"
    by (rule bit_word_eqI, unfold bit_and_iff bit_header_masks bit_drop_bit_eq comp_def) (auto dest: byte_bit_less)
qed

lemma header_fields:
  fixes h :: byte
  shows "uint (h AND 0x03) = uint h mod 4" "uint (drop_bit 2 (h AND 0x3C)) = uint h div 4 mod 16"
    "uint (drop_bit 6 (h AND 0xC0)) = uint h div 64"
    "unat (h AND 0x3F) = unat h mod 64" "unat (drop_bit 6 (h AND 0xC0)) = unat h div 64"
  unfolding header_masks
  by (simp_all add: take_bit_eq_mod drop_bit_eq_div uint_mod_distrib uint_div_distrib unat_mod_distrib unat_div_distrib)

lemma header_byte_fields:
  assumes "packet_ok k"
  shows "uint (header_byte k) mod 4 = pk_route_type k" "uint (header_byte k) div 4 mod 16 = pk_payload_type k"
    "uint (header_byte k) div 64 = pk_payload_ver k"
proof -
  let ?r = "pk_route_type k" and ?t = "pk_payload_type k" and ?v = "pk_payload_ver k"
  have b: "0 \<le> ?r" "?r < 4" "0 \<le> ?t" "?t < 16" "0 \<le> ?v" "?v < 4" using assms by (simp_all add: packet_ok_def)
  have u: "uint (header_byte k) = ?r + 4 * (?t + 16 * ?v)"
    unfolding header_byte_def uint_word_of_int using b by (simp add: mod_pos_pos_trivial)
  have split: "(a + c * x) mod c = a \<and> (a + c * x) div c = x" if "0 \<le> a" "a < c" for a c x :: int
    using that by simp
  note outer = split [OF b(1,2), of "?t + 16 * ?v"] and inner = split [OF b(3,4), of ?v]
  show "uint (header_byte k) mod 4 = ?r" unfolding u using outer by blast
  show "uint (header_byte k) div 4 mod 16 = ?t" unfolding u using outer inner by argo
  have "uint (header_byte k) div 64 = uint (header_byte k) div 4 div 16" by (simp add: zdiv_zmult2_eq [symmetric])
  then show "uint (header_byte k) div 64 = ?v" unfolding u using outer inner by argo
qed

lemma path_byte_fields:
  assumes "packet_ok k"
  shows "unat (path_byte k) mod 64 = pk_path_hash_count k" "unat (path_byte k) div 64 + 1 = pk_path_hash_size k"
proof -
  have b: "pk_path_hash_count k < 64" "1 \<le> pk_path_hash_size k" "pk_path_hash_size k \<le> 3"
    using assms by (simp_all add: packet_ok_def)
  then have u: "unat (path_byte k) = pk_path_hash_count k + 64 * (pk_path_hash_size k - 1)"
    unfolding path_byte_def unat_of_nat by (intro mod_less) auto
  show "unat (path_byte k) mod 64 = pk_path_hash_count k" "unat (path_byte k) div 64 + 1 = pk_path_hash_size k"
    unfolding u using b by simp_all
qed

lemma parse_path_bytes:
  assumes "packet_ok k" "rest = [] \<or> length (pk_payload k) = 184"
  shows "parse_path (pk_route_type k) (pk_payload_type k) (pk_payload_ver k) (pk_has_transport_codes k)
      (pk_transport_code1 k) (pk_transport_code2 k) (path_byte k # pk_path k @ pk_payload k @ rest) = Some k"
proof -
  have b: "1 \<le> pk_path_hash_size k" "pk_path_hash_size k \<le> 3" "length (pk_path k) = pk_path_hash_count k * pk_path_hash_size k"
      "length (pk_path k) \<le> 64" "length (pk_payload k) \<le> 184"
    using assms(1) by (simp_all add: packet_ok_def)
  have "take 184 (pk_payload k @ rest) = pk_payload k" using assms(2) b(5) by auto
  moreover have "take (length (pk_path k)) (pk_path k @ pk_payload k @ rest) = pk_path k" by simp
  ultimately show ?thesis
    unfolding parse_path_def Let_def list.case header_fields path_byte_fields [OF assms(1)] b(3) [symmetric]
    using b(1,2,4) by (simp add: MC_MAX_PATH_SIZE_def MC_MAX_PACKET_PAYLOAD_def del: take_append)
qed

lemma packet_parse_bytes:
  assumes "packet_ok k" and rest: "rest = [] \<or> length (pk_payload k) = 184"
  shows "meshcore_packet_parse (packet_bytes k @ rest) = Some k"
proof -
  have codes: "mc_route_has_transport_codes (pk_route_type k) = pk_has_transport_codes k" using assms by (simp add: packet_ok_def)
  have hd: "hd (packet_bytes k @ rest) = header_byte k" by (simp add: packet_bytes_def)
  have len: "\<not> length (packet_bytes k @ rest) < 2" by (simp add: packet_bytes_def)
  have le16: "length (le16 w) = 2" "drop 2 (le16 w @ xs) = xs" "drop 4 (le16 w @ le16 v @ xs) = xs" for w v xs
    by (simp_all add: le16_def)
  note fields = header_fields(1-3) header_byte_fields [OF assms(1)] codes
  show ?thesis
  proof (cases "pk_has_transport_codes k")
    case True
    then have "tl (packet_bytes k @ rest) =
        le16 (pk_transport_code1 k) @ le16 (pk_transport_code2 k) @ path_byte k # pk_path k @ pk_payload k @ rest"
      by (simp add: packet_bytes_def)
    then show ?thesis
      using len parse_path_bytes [OF assms] True unfolding meshcore_packet_parse_def Let_def hd fields
      by (simp add: le16)
  next
    case False
    then have "tl (packet_bytes k @ rest) = path_byte k # pk_path k @ pk_payload k @ rest"
        "pk_transport_code1 k = 0" "pk_transport_code2 k = 0"
      using assms by (auto simp: packet_bytes_def packet_ok_def)
    then show ?thesis
      using len parse_path_bytes [OF assms] False unfolding meshcore_packet_parse_def Let_def hd fields by simp
  qed
qed

lemma header_byte_of_fields:
  assumes "pk_route_type k = uint (h AND 0x03)" "pk_payload_type k = uint (drop_bit 2 (h AND 0x3C))"
    "pk_payload_ver k = uint (drop_bit 6 (h AND 0xC0))"
  shows "header_byte k = h"
proof -
  let ?n = "uint h"
  have "?n div 4 = ?n div 4 mod 16 + 16 * (?n div 4 div 16)" "?n = ?n mod 4 + 4 * (?n div 4)" by simp_all
  moreover have "?n div 64 = ?n div 4 div 16" by (simp add: zdiv_zmult2_eq [symmetric])
  ultimately have "?n mod 4 + 4 * (?n div 4 mod 16) + 64 * (?n div 64) = ?n" by linarith
  then show ?thesis unfolding header_byte_def assms header_fields by simp
qed

lemma parse_path_sound:
  assumes "parse_path route ptype ver codes c1 c2 p = Some k"
  shows "pk_route_type k = route \<and> pk_payload_type k = ptype \<and> pk_payload_ver k = ver \<and> pk_has_transport_codes k = codes
    \<and> pk_transport_code1 k = c1 \<and> pk_transport_code2 k = c2
    \<and> pk_path_hash_count k < 64 \<and> 1 \<le> pk_path_hash_size k \<and> pk_path_hash_size k \<le> 3
    \<and> length (pk_path k) = pk_path_hash_count k * pk_path_hash_size k \<and> length (pk_path k) \<le> 64
    \<and> (\<exists>rest. p = path_byte k # pk_path k @ pk_payload k @ rest \<and> length (pk_payload k) \<le> 184
          \<and> (rest = [] \<or> length (pk_payload k) = 184))"
proof -
  obtain b q where p: "p = b # q" using assms by (cases p) (auto simp: parse_path_def)
  define n where "n = unat b mod 64 * (unat b div 64 + 1)"
  have k: "unat b div 64 + 1 \<le> 3" "n \<le> 64" "n \<le> length q"
      "k = \<lparr> pk_route_type = route, pk_payload_type = ptype, pk_payload_ver = ver, pk_has_transport_codes = codes,
         pk_transport_code1 = c1, pk_transport_code2 = c2, pk_path = take n q, pk_path_hash_count = unat b mod 64,
         pk_path_hash_size = unat b div 64 + 1, pk_payload = take 184 (drop n q) \<rparr>"
    using assms unfolding parse_path_def p list.case Let_def header_fields n_def [symmetric]
    by (auto simp: MC_MAX_PATH_SIZE_def MC_MAX_PACKET_PAYLOAD_def split: if_splits)
  have "path_byte k = b" by (simp add: path_byte_def k(4))
  then have "p = path_byte k # pk_path k @ pk_payload k @ drop 184 (drop n q)"
    by (simp add: p k(4) del: drop_drop)
  moreover have "drop 184 (drop n q) = [] \<or> length (pk_payload k) = 184" by (auto simp: k(4))
  moreover have "length (pk_payload k) \<le> 184" by (simp add: k(4))
  ultimately show ?thesis using k(1-3) by (auto simp: k(4) n_def)
qed

lemma four_bytes: "4 \<le> length t \<Longrightarrow> \<exists>a b c d q. t = a # b # c # d # q"
  by (cases t rule: list.exhaust; cases "tl t"; cases "tl (tl t)"; cases "tl (tl (tl t))") auto

lemma packet_parse_sound:
  assumes "meshcore_packet_parse raw = Some k"
  shows "packet_ok k \<and> (\<exists>rest. raw = packet_bytes k @ rest \<and> (rest = [] \<or> length (pk_payload k) = 184))"
proof -
  define route where "route = uint (hd raw AND 0x03)"
  define codes where "codes = mc_route_has_transport_codes route"
  define ptype where "ptype = uint (drop_bit 2 (hd raw AND 0x3C))"
  define ver where "ver = uint (drop_bit 6 (hd raw AND 0xC0))"
  note defs = route_def codes_def ptype_def ver_def
  have raw: "raw = hd raw # tl raw" "2 \<le> length raw"
    using assms by (cases raw, auto simp: meshcore_packet_parse_def split: if_splits)
  have range: "0 \<le> route" "route < 4" "0 \<le> ptype" "ptype < 16" "0 \<le> ver" "ver < 4"
    unfolding defs header_fields using uint_lt2p [of "hd raw"] by (auto simp: div_less_iff_less_mult pos_imp_zdiv_nonneg_iff)
  obtain c1 c2 pre p where parse: "parse_path route ptype ver codes c1 c2 p = Some k" and tl: "tl raw = pre @ p"
    and pre: "pre = (if codes then le16 c1 @ le16 c2 else [])" "\<not> codes \<Longrightarrow> c1 = 0 \<and> c2 = 0"
  proof (cases codes)
    case True
    then have "4 \<le> length (tl raw)"
      using assms raw by (auto simp: meshcore_packet_parse_def Let_def defs split: if_splits)
    then obtain a b c d q where q: "tl raw = a # b # c # d # q" using four_bytes by blast
    have "parse_path route ptype ver codes (rd_le16 (a # b # c # d # q)) (rd_le16 (c # d # q)) q = Some k"
      using assms raw True q by (auto simp: meshcore_packet_parse_def Let_def defs split: if_splits)
    then show thesis using q True by (intro that) (auto simp: le16_rd_le16)
  next
    case False
    then show thesis using assms raw by (intro that [of 0 0 "tl raw" "[]"]) (auto simp: meshcore_packet_parse_def Let_def defs split: if_splits)
  qed
  note k = parse_path_sound [OF parse]
  then obtain rest where rest: "p = path_byte k # pk_path k @ pk_payload k @ rest" "length (pk_payload k) \<le> 184"
      "rest = [] \<or> length (pk_payload k) = 184" by blast
  have "header_byte k = hd raw" using k by (intro header_byte_of_fields) (simp_all add: defs)
  then have "raw = packet_bytes k @ rest" using raw(1) tl pre rest(1) k by (cases codes) (simp_all add: packet_bytes_def)
  moreover have "packet_ok k" using k range pre rest(2) by (simp add: packet_ok_def codes_def)
  ultimately show ?thesis using rest(3) by blast
qed

text \<open>
  C28: the MeshCore parser accepts exactly the documented layout.  A frame parses to a packet if and
  only if the packet is within the limits of the format (route, type and version fields, path
  within 64 bytes, hash sizes 1 to 3, payload within 184 bytes, transport codes exactly on the
  two transport routes) and the frame is its serialisation, followed by further bytes only
  behind a full 184-byte payload.
\<close>

theorem mc_parse_exact:
  "meshcore_packet_parse raw = Some k \<longleftrightarrow>
     packet_ok k \<and> (\<exists>rest. raw = packet_bytes k @ rest \<and> (rest = [] \<or> length (pk_payload k) = 184))"
  using packet_parse_sound packet_parse_bytes by blast

subsection \<open>Encrypt, then authenticate\<close>

text \<open>
  The sender of a group channel: the message padded with zeros to whole blocks, encrypted
  under the first 16 bytes of the secret, behind the first two bytes of the keyed digest
  under the secret padded with zeros to 32 bytes.
\<close>

definition mc_encrypt :: "keyed \<Rightarrow> (bytes \<Rightarrow> bytes \<Rightarrow> bytes) \<Rightarrow> bytes \<Rightarrow> bytes \<Rightarrow> bytes" where
  "mc_encrypt hmac enc secret msg =
     (let ciphertext = enc (take 16 secret) (zero_pad (padded_len (length msg)) msg)
      in take 2 (the (hmac (zero_pad 32 secret) ciphertext)) @ ciphertext)"

text \<open>The documented behaviour of the library: digests have 32 bytes, and decryption undoes encryption of whole blocks.\<close>

definition crypto_ok :: "keyed \<Rightarrow> (bytes \<Rightarrow> bytes \<Rightarrow> bytes) \<Rightarrow> keyed \<Rightarrow> bool" where
  "crypto_ok hmac enc ecb \<longleftrightarrow>
     (\<forall>key msg. length key = 32 \<longrightarrow> (\<exists>d. hmac key msg = Some d \<and> length d = 32))
     \<and> (\<forall>key msg. length key = 16 \<and> length msg mod 16 = 0 \<longrightarrow>
           length (enc key msg) = length msg \<and> ecb key (enc key msg) = Some msg)"

lemma padded_len: "n \<le> padded_len n" "padded_len n mod 16 = 0" "padded_len n < n + 16" "n mod 16 = 0 \<Longrightarrow> padded_len n = n"
proof -
  show "padded_len n mod 16 = 0" by (simp add: padded_len_def MC_CIPHER_BLOCK_SIZE_def)
  have "padded_len n + (n + 15) mod 16 = n + 15"
    using div_mult_mod_eq [of "n + 15" 16] by (simp add: padded_len_def MC_CIPHER_BLOCK_SIZE_def add.commute)
  moreover have "(n + 15) mod 16 < 16" by simp
  ultimately show "n \<le> padded_len n" "padded_len n < n + 16" by linarith+
  assume "n mod 16 = 0"
  then obtain q where "n = 16 * q" by auto
  then show "padded_len n = n" by (simp add: padded_len_def MC_CIPHER_BLOCK_SIZE_def)
qed

lemma length_zero_pad [simp]: "length bs \<le> n \<Longrightarrow> length (zero_pad n bs) = n"
  by (simp add: zero_pad_def)

text \<open>
  Decryption accepts what a member sends: for any 16- or 32-byte secret and any message whose
  encryption fits a packet, the authenticated ciphertext passes the check and decrypts to the
  message followed by the zeros of the last block.
\<close>

lemma decrypt_encrypt:
  assumes crypto: "crypto_ok hmac enc ecb" and secret: "secret_len_ok secret" and msg: "length msg \<le> 182"
  shows "meshcore_verify_and_decrypt hmac ecb secret (mc_encrypt hmac enc secret msg)
    = Some (zero_pad (padded_len (length msg)) msg)"
proof -
  define plain where "plain = zero_pad (padded_len (length msg)) msg"
  define c where "c = enc (take 16 secret) plain"
  have plain: "length plain = padded_len (length msg)" by (simp add: plain_def padded_len)
  have key: "length (take 16 secret) = 16" "length (zero_pad 32 secret) = 32"
    using secret by (auto simp: secret_len_ok_def)
  obtain d where d: "hmac (zero_pad 32 secret) c = Some d" "length d = 32"
    using crypto key unfolding crypto_ok_def by blast
  have c: "length c = length plain" "ecb (take 16 secret) c = Some plain"
    using crypto key plain padded_len(2) unfolding crypto_ok_def c_def by (metis)+
  have len: "length c mod 16 = 0" "length c < 198" using c plain padded_len(2) padded_len(3) [of "length msg"] msg by auto
  have "zero_pad (padded_len (length c)) c = c" using len by (simp add: padded_len(4) zero_pad_def)
  then have "meshcore_verify_and_decrypt hmac ecb secret (take 2 d @ c) = Some plain"
    using secret d c len unfolding meshcore_verify_and_decrypt_def
    by (auto simp: MC_CIPHER_MAC_SIZE_def MC_PUB_KEY_SIZE_def MC_MAX_PACKET_PAYLOAD_def MC_CIPHER_BLOCK_SIZE_def
        secret_len_ok_def Let_def padded_len(4))
  then show ?thesis using d by (simp add: mc_encrypt_def Let_def plain_def c_def)
qed

end
