(* ===== verification/Meshcore_Region.thy ===== *)
theory Meshcore_Region
  imports Meshcore_Packet Ring_Queue
begin

text \<open>
  The resolution of region scopes of \<^verbatim>\<open>src/meshcore_region_dict.c\<close>: the transport code of a packet
  under a region key, the cache of confirmed regions that the live decoder consults, the full
  scan over the built-in names, and the queue between the decoder and the background worker.
  The digest and the keyed digest are parameters, as in the channel table and the framing.
  The mutexes and the lazy thread start are left out.
\<close>

subsection \<open>Candidate names\<close>

definition REGION_CURATED_CANDIDATES :: "string list" where
  "REGION_CURATED_CANDIDATES =
    [''Europe'', ''UK'', ''France'', ''Germany'', ''Spain'', ''Italy'', ''Portugal'',
     ''Netherlands'', ''Belgium'', ''Switzerland'', ''Austria'', ''Ireland'',
     ''Scotland'', ''Wales'', ''Poland'', ''Sweden'', ''Norway'', ''Denmark'',
     ''Finland'', ''London'', ''Paris'', ''Lyon'', ''Manchester'',
     ''US'', ''USA'', ''Canada'', ''Mexico'', ''Australia'', ''NZ'',
     ''Asia'', ''Africa'', ''World'', ''Global'', ''Local'', ''Test'', ''Home'']"

definition REGION_MAX_CANDIDATES :: nat where "REGION_MAX_CANDIDATES = 256"

definition init_candidates :: "string list" where
  "init_candidates =
     (let names = take REGION_MAX_CANDIDATES (map (take (MC_CHANNEL_MAX_NAME - 1)) REGION_CURATED_CANDIDATES)
      in names @ meshcore_builtin_hashtag_candidates (REGION_MAX_CANDIDATES - length names))"

text \<open>The names the full scan tries, in its order: each case variant bare, then behind a hash sign.\<close>

definition region_trials :: "string list" where
  "region_trials =
     concat (map (\<lambda>c. concat (map (\<lambda>v. [take MC_CHANNEL_MAX_NAME v, take MC_CHANNEL_MAX_NAME (CHR ''#'' # v)])
                                (meshcore_name_case_variants c))) init_candidates)"

subsection \<open>Keys and codes\<close>

definition sha256_key16 :: "digest \<Rightarrow> string \<Rightarrow> bytes" where
  "sha256_key16 sha s =
     (case sha (str_bytes s) of
        Some d \<Rightarrow> if length d \<ge> 16 then take 16 d else replicate 16 0
      | None \<Rightarrow> replicate 16 0)"

definition calc_transport_code :: "keyed \<Rightarrow> bytes \<Rightarrow> byte \<Rightarrow> bytes \<Rightarrow> u16" where
  "calc_transport_code hmac key16 payload_type payload =
     (case hmac key16 (payload_type # take MC_MAX_PACKET_PAYLOAD payload) of
        None \<Rightarrow> 0
      | Some hmac_full \<Rightarrow>
          (let code = rd_le16 hmac_full
           in if code = 0 then 1 else if code = 0xFFFF then 0xFFFE else code))"

subsection \<open>The cache of confirmed regions\<close>

definition MC_REGION_MAX_CONFIRMED :: nat where "MC_REGION_MAX_CONFIRMED = 64"

record confirmed_region =
  cr_name :: string
  cr_key :: bytes

definition remember_confirmed :: "confirmed_region list \<Rightarrow> string \<Rightarrow> bytes \<Rightarrow> confirmed_region list" where
  "remember_confirmed conf name key16 =
     (if list_ex (\<lambda>e. cr_name e = name) conf then conf
      else if length conf < MC_REGION_MAX_CONFIRMED
      then conf @ [\<lparr> cr_name = take (MC_CHANNEL_MAX_NAME - 1) name, cr_key = key16 \<rparr>]
      else conf)"

definition meshcore_region_resolve_fast ::
  "keyed \<Rightarrow> confirmed_region list \<Rightarrow> byte \<Rightarrow> bytes \<Rightarrow> u16 \<Rightarrow> nat \<Rightarrow> string option" where
  "meshcore_region_resolve_fast hmac conf payload_type payload code name_cap =
     (if code = 0 then None
      else map_option (\<lambda>e. take (name_cap - 1) (cr_name e))
             (find (\<lambda>e. calc_transport_code hmac (cr_key e) payload_type payload = code) conf))"

definition meshcore_region_resolve_full ::
  "digest \<Rightarrow> keyed \<Rightarrow> confirmed_region list \<Rightarrow> byte \<Rightarrow> bytes \<Rightarrow> u16 \<Rightarrow> nat \<Rightarrow> string option \<times> confirmed_region list" where
  "meshcore_region_resolve_full sha hmac conf payload_type payload code name_cap =
     (case meshcore_region_resolve_fast hmac conf payload_type payload code name_cap of
        Some name \<Rightarrow> (Some name, conf)
      | None \<Rightarrow>
          if code = 0 then (None, conf)
          else case find (\<lambda>c. calc_transport_code hmac (sha256_key16 sha c) payload_type payload = code) region_trials of
                 None \<Rightarrow> (None, conf)
               | Some cand \<Rightarrow> (Some (take (name_cap - 1) cand), remember_confirmed conf cand (sha256_key16 sha cand)))"

subsection \<open>The background worker\<close>

definition MC_REGION_QUEUE_SIZE :: nat where "MC_REGION_QUEUE_SIZE = 64"

record mc_region_frame =
  rf_payload_type :: byte
  rf_payload :: bytes
  rf_code :: u16

record region_dict =
  rr_confirmed :: "confirmed_region list"
  rr_queue :: "mc_region_frame ring"

definition meshcore_region_dict_enqueue :: "region_dict \<Rightarrow> byte \<Rightarrow> bytes \<Rightarrow> u16 \<Rightarrow> region_dict" where
  "meshcore_region_dict_enqueue d payload_type payload code =
     (if payload = [] then d
      else d\<lparr> rr_queue := ring_put MC_REGION_QUEUE_SIZE
                \<lparr> rf_payload_type = payload_type, rf_payload = take MC_MAX_PACKET_PAYLOAD payload, rf_code = code \<rparr>
                (rr_queue d) \<rparr>)"

text \<open>One turn of the worker; None while it waits.\<close>

definition region_dict_worker :: "digest \<Rightarrow> keyed \<Rightarrow> region_dict \<Rightarrow> region_dict option" where
  "region_dict_worker sha hmac d =
     (case ring_get MC_REGION_QUEUE_SIZE (rr_queue d) of
        None \<Rightarrow> None
      | Some (f, q) \<Rightarrow>
          Some (d\<lparr> rr_queue := q,
                   rr_confirmed := snd (meshcore_region_resolve_full sha hmac (rr_confirmed d) (rf_payload_type f)
                                          (rf_payload f) (rf_code f) MC_CHANNEL_MAX_NAME) \<rparr>))"

subsection \<open>The names are short\<close>

lemma variants_length: "v \<in> set (meshcore_name_case_variants c) \<Longrightarrow> length v \<le> length c"
proof -
  assume "v \<in> set (meshcore_name_case_variants c)"
  then have "v \<in> {take 31 c, map to_lower (take 31 c), map to_upper (take 31 c), title_case (take 31 c)}"
    by (auto simp: meshcore_name_case_variants_def Let_def MC_CHANNEL_MAX_NAME_def split: if_splits)
  moreover have "length (title_case w) = length w" for w by (simp add: title_case_def split: list.split)
  ultimately show ?thesis by auto
qed

lemma curated_length: "\<forall>c \<in> set REGION_CURATED_CANDIDATES. length c \<le> 11"
  by (simp add: REGION_CURATED_CANDIDATES_def)

lemma builtin_length: "c \<in> set (meshcore_builtin_hashtag_candidates n) \<Longrightarrow> length c \<le> 11"
  unfolding meshcore_builtin_hashtag_candidates_def by (drule in_set_takeD) auto

lemma region_trial_length: "c \<in> set region_trials \<Longrightarrow> length c \<le> 12"
proof -
  assume "c \<in> set region_trials"
  then obtain n v where n: "n \<in> set init_candidates" and v: "v \<in> set (meshcore_name_case_variants n)"
    and c: "c = take MC_CHANNEL_MAX_NAME v \<or> c = take MC_CHANNEL_MAX_NAME (CHR ''#'' # v)"
    unfolding region_trials_def by auto
  have "length n \<le> 11"
    using n curated_length builtin_length by (fastforce simp: init_candidates_def Let_def dest: in_set_takeD)
  then show ?thesis using variants_length [OF v] c by (auto simp: MC_CHANNEL_MAX_NAME_def)
qed

subsection \<open>The cache holds only genuine keys\<close>

definition region_inv :: "digest \<Rightarrow> confirmed_region list \<Rightarrow> bool" where
  "region_inv sha conf \<longleftrightarrow> length conf \<le> MC_REGION_MAX_CONFIRMED \<and> distinct (map cr_name conf)
     \<and> list_all (\<lambda>e. length (cr_name e) < MC_CHANNEL_MAX_NAME \<and> cr_key e = sha256_key16 sha (cr_name e)) conf"

text \<open>A name explains a packet when its key gives the transport code the packet carries.\<close>

definition explains :: "digest \<Rightarrow> keyed \<Rightarrow> byte \<Rightarrow> bytes \<Rightarrow> u16 \<Rightarrow> string \<Rightarrow> bool" where
  "explains sha hmac ptype payload code name \<longleftrightarrow> calc_transport_code hmac (sha256_key16 sha name) ptype payload = code"

lemma remember_inv:
  assumes "region_inv sha conf" "length name < MC_CHANNEL_MAX_NAME"
  shows "region_inv sha (remember_confirmed conf name (sha256_key16 sha name))"
  using assms by (auto simp: region_inv_def remember_confirmed_def list_ex_iff MC_CHANNEL_MAX_NAME_def)

lemma fast_Some:
  assumes "region_inv sha conf" "meshcore_region_resolve_fast hmac conf pt p code MC_CHANNEL_MAX_NAME = Some name"
  shows "explains sha hmac pt p code name \<and> name \<in> cr_name ` set conf"
proof -
  obtain e where e: "find (\<lambda>e. calc_transport_code hmac (cr_key e) pt p = code) conf = Some e" "name = take 31 (cr_name e)"
    using assms(2) by (auto simp: meshcore_region_resolve_fast_def MC_CHANNEL_MAX_NAME_def split: if_splits)
  then have "e \<in> set conf" "calc_transport_code hmac (cr_key e) pt p = code" by (auto simp: find_Some_iff)
  moreover then have "length (cr_name e) < 32" "cr_key e = sha256_key16 sha (cr_name e)"
    using assms(1) by (auto simp: region_inv_def list_all_iff MC_CHANNEL_MAX_NAME_def)
  ultimately show ?thesis using e(2) by (auto simp: explains_def)
qed

lemma fast_None:
  assumes "region_inv sha conf" "code \<noteq> 0"
  shows "meshcore_region_resolve_fast hmac conf pt p code cap = None \<longleftrightarrow> (\<forall>e \<in> set conf. \<not> explains sha hmac pt p code (cr_name e))"
  using assms by (auto simp: meshcore_region_resolve_fast_def find_None_iff region_inv_def list_all_iff explains_def)

text \<open>
  The full scan is exact: on a cache of genuine keys it reports no region exactly when the code is
  the reserved zero or neither a cached nor a built-in name explains the packet, and every
  reported name explains it; the cache keeps its entries and its invariant, and afterwards
  contains the reported name unless it was full.
\<close>

lemma full_result:
  assumes inv: "region_inv sha conf"
    and full: "meshcore_region_resolve_full sha hmac conf pt p code MC_CHANNEL_MAX_NAME = (r, conf')"
  shows "region_inv sha conf' \<and> set conf \<subseteq> set conf' \<and> (\<forall>name. r = Some name \<longrightarrow> explains sha hmac pt p code name)
    \<and> (r = None \<longleftrightarrow> code = 0 \<or> \<not> (\<exists>n \<in> cr_name ` set conf \<union> set region_trials. explains sha hmac pt p code n))
    \<and> (\<forall>name. r = Some name \<longrightarrow> name \<in> cr_name ` set conf' \<or> length conf = MC_REGION_MAX_CONFIRMED)"
proof (cases "meshcore_region_resolve_fast hmac conf pt p code MC_CHANNEL_MAX_NAME")
  case (Some name)
  then have "r = Some name" "conf' = conf" "code \<noteq> 0"
    using full by (auto simp: meshcore_region_resolve_full_def meshcore_region_resolve_fast_def split: if_splits)
  then show ?thesis using inv fast_Some [OF inv Some] by auto
next
  case miss: None
  show ?thesis
  proof (cases "code = 0")
    case True
    then show ?thesis using full miss inv by (simp add: meshcore_region_resolve_full_def)
  next
    case code: False
    note none = fast_None [OF inv code, of hmac pt p MC_CHANNEL_MAX_NAME, THEN iffD1, OF miss]
    let ?P = "\<lambda>c. calc_transport_code hmac (sha256_key16 sha c) pt p = code"
    show ?thesis
    proof (cases "find ?P region_trials")
      case None
      then have "r = None" "conf' = conf" using full miss code by (simp_all add: meshcore_region_resolve_full_def)
      then show ?thesis using inv none None code by (auto simp: find_None_iff explains_def)
    next
      case (Some cand)
      then have cand: "cand \<in> set region_trials" "?P cand" by (auto simp: find_Some_iff)
      have len: "length cand \<le> 12" by (rule region_trial_length [OF cand(1)])
      then have r: "r = Some cand" "conf' = remember_confirmed conf cand (sha256_key16 sha cand)"
        using full miss code Some by (simp_all add: meshcore_region_resolve_full_def MC_CHANNEL_MAX_NAME_def)
      have "region_inv sha conf'" using remember_inv [OF inv] len by (simp add: r(2) MC_CHANNEL_MAX_NAME_def)
      moreover have "set conf \<subseteq> set conf'" by (auto simp: r(2) remember_confirmed_def)
      moreover have "cand \<in> cr_name ` set conf' \<or> length conf = MC_REGION_MAX_CONFIRMED"
        using inv len by (auto simp: r(2) remember_confirmed_def list_ex_iff region_inv_def MC_CHANNEL_MAX_NAME_def)
      ultimately show ?thesis using r(1) cand code by (auto simp: explains_def)
    qed
  qed
qed

text \<open>
  The background worker teaches the live decoder.  Take a packet that the live lookup misses
  and hands to an empty queue, whose region is among the built-in names, while the cache has
  room: one turn of the worker later the live lookup resolves that packet, to a name whose
  key explains it, and the queue is empty again.
\<close>

lemma region_learned:
  assumes inv: "region_inv sha (rr_confirmed d)" and room: "length (rr_confirmed d) < MC_REGION_MAX_CONFIRMED"
    and ring: "ring_ok 64 (rr_queue d)" "ring_abs 64 (rr_queue d) = []"
    and packet: "p \<noteq> []" "length p \<le> MC_MAX_PACKET_PAYLOAD" "code \<noteq> 0"
    and known: "n \<in> set region_trials" "explains sha hmac pt p code n"
  shows "\<exists>d' name. region_dict_worker sha hmac (meshcore_region_dict_enqueue d pt p code) = Some d'
    \<and> region_inv sha (rr_confirmed d') \<and> ring_abs 64 (rr_queue d') = []
    \<and> meshcore_region_resolve_fast hmac (rr_confirmed d') pt p code MC_CHANNEL_MAX_NAME = Some name
    \<and> explains sha hmac pt p code name"
proof -
  define f where "f = \<lparr> rf_payload_type = pt, rf_payload = p, rf_code = code \<rparr>"
  have enq: "meshcore_region_dict_enqueue d pt p code = d\<lparr> rr_queue := ring_put 64 f (rr_queue d) \<rparr>"
    using packet by (simp add: meshcore_region_dict_enqueue_def MC_REGION_QUEUE_SIZE_def f_def)
  have put: "ring_ok 64 (ring_put 64 f (rr_queue d))" "ring_abs 64 (ring_put 64 f (rr_queue d)) = [f]"
    using queue64.put_ok [OF ring(1)] queue64.put_abs [OF ring(1)] ring(2) by simp_all
  then obtain q where q: "ring_get 64 (ring_put 64 f (rr_queue d)) = Some (f, q)"
    using queue64.get_none [OF put(1)] queue64.get_some [OF put(1)] by (cases "ring_get 64 (ring_put 64 f (rr_queue d))") auto
  have empty: "ring_abs 64 q = []" using queue64.get_some [OF put(1) q] put(2) by simp
  obtain r conf' where full: "meshcore_region_resolve_full sha hmac (rr_confirmed d) pt p code MC_CHANNEL_MAX_NAME = (r, conf')"
    by fastforce
  note res = full_result [OF inv full]
  have "r \<noteq> None" using res known packet(3) by blast
  then obtain name where "name \<in> cr_name ` set conf'" "explains sha hmac pt p code name" using res room by auto
  then have "meshcore_region_resolve_fast hmac conf' pt p code MC_CHANNEL_MAX_NAME \<noteq> None"
    using fast_None [of sha conf' code hmac pt p MC_CHANNEL_MAX_NAME] res packet(3) by blast
  then obtain name' where name': "meshcore_region_resolve_fast hmac conf' pt p code MC_CHANNEL_MAX_NAME = Some name'" by blast
  moreover have "region_dict_worker sha hmac (meshcore_region_dict_enqueue d pt p code) = Some (d\<lparr> rr_queue := q, rr_confirmed := conf' \<rparr>)"
    using q full by (simp add: region_dict_worker_def enq MC_REGION_QUEUE_SIZE_def f_def)
  ultimately show ?thesis using res empty fast_Some [OF _ name'] by auto
qed

lemma region_trialI:
  assumes "c \<in> set init_candidates" "v \<in> set (meshcore_name_case_variants c)"
  shows "take MC_CHANNEL_MAX_NAME v \<in> set region_trials"
  unfolding region_trials_def using assms by auto

lemma europe_trial: "''Europe'' \<in> set region_trials"
proof -
  have "''Europe'' \<in> set init_candidates"
    by (simp add: init_candidates_def Let_def REGION_CURATED_CANDIDATES_def REGION_MAX_CANDIDATES_def MC_CHANNEL_MAX_NAME_def)
  moreover have "''Europe'' \<in> set (meshcore_name_case_variants ''Europe'')"
    by (simp add: meshcore_name_case_variants_def Let_def MC_CHANNEL_MAX_NAME_def)
  moreover have "take MC_CHANNEL_MAX_NAME ''Europe'' = ''Europe''" by (simp add: MC_CHANNEL_MAX_NAME_def)
  ultimately show ?thesis using region_trialI by metis
qed

end
