(* ===== verification/Floats.thy ===== *)
theory Floats
  imports Prelude
begin

text \<open>
  Floating point as the program uses it: comparisons on binary32 bit patterns, the exact
  value of a float as a sign with a natural mantissa and a power of two, conversions and
  divisions that round to 24 or 53 bits with ties to even, and \<^verbatim>\<open>printf\<close>, which rounds the
  exact binary value to the requested number of decimals.
\<close>

subsection \<open>Binary32 comparison\<close>

text \<open>A float with all exponent bits set and a non-zero fraction is not a number; zero has two signs.\<close>

definition f32_nan :: "u32 \<Rightarrow> bool" where
  "f32_nan w \<longleftrightarrow> 0x7F800000 < uint (take_bit 31 w)"

definition f32_key :: "u32 \<Rightarrow> int" where
  "f32_key w = (if bit w 31 then - uint (take_bit 31 w) else uint (take_bit 31 w))"

definition f32_gt :: "u32 \<Rightarrow> u32 \<Rightarrow> bool" where
  "f32_gt a b \<longleftrightarrow> \<not> f32_nan a \<and> \<not> f32_nan b \<and> f32_key b < f32_key a"

subsection \<open>Single precision\<close>

record f32 =
  f_neg :: bool
  f_man :: nat
  f_exp :: int

text \<open>The value of a float is its mantissa times two to the exponent.\<close>

definition round_half_even :: "nat \<Rightarrow> nat \<Rightarrow> nat" where
  "round_half_even n d =
     (let q = n div d; r = n mod d
      in if 2 * r < d then q else if 2 * r > d then q + 1 else if even q then q else q + 1)"

text \<open>Scale a positive quotient n / d into 24 bits; the fuel bounds the exponent range of the inputs.\<close>

fun f32_scale :: "nat \<Rightarrow> nat \<Rightarrow> nat \<Rightarrow> int \<Rightarrow> nat \<times> nat \<times> int" where
  "f32_scale 0 n d e = (n, d, e)"
| "f32_scale (Suc fuel) n d e =
     (if n < 2 ^ 23 * d then f32_scale fuel (2 * n) d (e - 1)
      else if n \<ge> 2 ^ 24 * d then f32_scale fuel n (2 * d) (e + 1)
      else (n, d, e))"

definition f32_quot :: "nat \<Rightarrow> nat \<Rightarrow> nat \<times> int" where
  "f32_quot n d =
     (if n = 0 then (0, 0)
      else case f32_scale 64 n d 0 of (n, d, e) \<Rightarrow> (round_half_even n d, e))"

text \<open>\<^verbatim>\<open>(float)raw / (float)mult\<close>, where the small divisors are exact.\<close>

definition f32_div :: "nat \<Rightarrow> nat \<Rightarrow> nat \<times> int" where
  "f32_div raw mult =
     (case f32_quot raw 1 of (m, e) \<Rightarrow>
        if e \<ge> 0 then f32_quot (m * 2 ^ nat e) mult else f32_quot m (mult * 2 ^ nat (- e)))"

fun dec_digits :: "nat \<Rightarrow> string" where
  "dec_digits n = (if n < 10 then [char_of (48 + n)] else dec_digits (n div 10) @ [char_of (48 + n mod 10)])"

declare dec_digits.simps [simp del]

definition pad_digits :: "nat \<Rightarrow> string \<Rightarrow> string" where
  "pad_digits p s = replicate (p - length s) CHR ''0'' @ s"

text \<open>\<^verbatim>\<open>%.<p>f\<close>.\<close>

definition fmt_f :: "nat \<Rightarrow> f32 \<Rightarrow> string" where
  "fmt_f p x =
     (let scaled = (if f_exp x \<ge> 0 then f_man x * 2 ^ nat (f_exp x) * 10 ^ p
                    else round_half_even (f_man x * 10 ^ p) (2 ^ nat (- f_exp x)))
      in (if f_neg x then ''-'' else []) @ dec_digits (scaled div 10 ^ p)
         @ (if p = 0 then [] else ''.'' @ pad_digits p (dec_digits (scaled mod 10 ^ p))))"

subsection \<open>Bit patterns and double precision\<close>

text \<open>A value that may be infinite or not a number; the boolean is the sign bit.\<close>

datatype flt = Finite f32 | Infinite bool | Not_A_Number bool

definition f32_of_bits :: "u32 \<Rightarrow> flt" where
  "f32_of_bits w =
     (let s = bit w 31; ex = unat (take_bit 8 (drop_bit 23 w)); fr = unat (take_bit 23 w)
      in if ex = 255 then (if fr = 0 then Infinite s else Not_A_Number s)
         else if ex = 0 then Finite \<lparr> f_neg = s, f_man = fr, f_exp = - 149 \<rparr>
         else Finite \<lparr> f_neg = s, f_man = fr + 2 ^ 23, f_exp = int ex - 150 \<rparr>)"

text \<open>C's \<^verbatim>\<open>x != 0.0f\<close>.\<close>

definition f32_nonzero :: "u32 \<Rightarrow> bool" where
  "f32_nonzero w \<longleftrightarrow> take_bit 31 w \<noteq> 0"

definition fmt_flt :: "nat \<Rightarrow> flt \<Rightarrow> string" where
  "fmt_flt p x =
     (case x of Finite y \<Rightarrow> fmt_f p y
      | Infinite s \<Rightarrow> (if s then ''-'' else []) @ ''inf''
      | Not_A_Number s \<Rightarrow> (if s then ''-'' else []) @ ''nan'')"

text \<open>A positive quotient rounded to 53 bits; the fuel covers every quotient of the program.\<close>

fun f64_scale :: "nat \<Rightarrow> nat \<Rightarrow> nat \<Rightarrow> int \<Rightarrow> nat \<times> nat \<times> int" where
  "f64_scale 0 n d e = (n, d, e)"
| "f64_scale (Suc fuel) n d e =
     (if n < 2 ^ 52 * d then f64_scale fuel (2 * n) d (e - 1)
      else if n \<ge> 2 ^ 53 * d then f64_scale fuel n (2 * d) (e + 1)
      else (n, d, e))"

definition f64_quot :: "nat \<Rightarrow> nat \<Rightarrow> nat \<times> int" where
  "f64_quot n d =
     (if n = 0 then (0, 0)
      else case f64_scale 256 n d 0 of (n, d, e) \<Rightarrow> (round_half_even n d, e))"

definition f64_signed :: "bool \<Rightarrow> nat \<times> int \<Rightarrow> flt" where
  "f64_signed s q = Finite \<lparr> f_neg = s, f_man = fst q, f_exp = snd q \<rparr>"

text \<open>\<^verbatim>\<open>(double)i / d\<close> for a divisor that is itself a double, and \<^verbatim>\<open>(double)i * 1e-7\<close>, where the
  double nearest to the constant is 944473296573929 / 2 ^ 73.  An integer zero has no sign.\<close>

definition f64_div :: "int \<Rightarrow> nat \<Rightarrow> flt" where
  "f64_div i d = f64_signed (i < 0) (f64_quot (nat \<bar>i\<bar>) d)"

definition f64_deg :: "int \<Rightarrow> flt" where
  "f64_deg i = f64_signed (i < 0) (f64_quot (nat \<bar>i\<bar> * 944473296573929) (2 ^ 73))"

subsection \<open>Decimals of a double\<close>

lemma round_half_even_unique:
  assumes "2 * n < 2 * q * d + d" "2 * q * d < 2 * n + d"
  shows "round_half_even n d = q"
proof -
  have d: "0 < d" using assms by (cases d) auto
  define k r where "k = n div d" and "r = n mod d"
  have n: "n = k * d + r" "r < d" using d by (simp_all add: k_def r_def)
  have "q = k \<or> q = k + 1"
  proof (rule ccontr)
    assume "\<not> ?thesis"
    then consider "q + 1 \<le> k" | "k + 2 \<le> q" by linarith
    then show False
    proof cases
      case 1
      then have "(q + 1) * d \<le> k * d" by (rule mult_right_mono) simp
      then show False using assms(1) n by (simp add: algebra_simps)
    next
      case 2
      then have "(k + 2) * d \<le> q * d" by (rule mult_right_mono) simp
      then show False using assms(2) n by (simp add: algebra_simps)
    qed
  qed
  then show ?thesis
    using assms n by (auto simp: round_half_even_def Let_def algebra_simps simp flip: k_def r_def)
qed

lemma round_half_even_near:
  assumes "0 < d"
  shows "2 * round_half_even n d * d \<le> 2 * n + d" "2 * n \<le> 2 * round_half_even n d * d + d"
proof -
  define k r where "k = n div d" and "r = n mod d"
  have n: "n = k * d + r" "r < d" using assms by (simp_all add: k_def r_def)
  then show "2 * round_half_even n d * d \<le> 2 * n + d" "2 * n \<le> 2 * round_half_even n d * d + d"
    by (auto simp: round_half_even_def Let_def algebra_simps simp flip: k_def r_def)
qed

lemma f64_scale_down:
  assumes "n < 2 ^ 53 * d" "2 ^ 52 * d \<le> n * 2 ^ fuel"
  shows "\<exists>s. f64_scale fuel n d e = (n * 2 ^ s, d, e - int s) \<and> 2 ^ 52 * d \<le> n * 2 ^ s \<and> n * 2 ^ s < 2 ^ 53 * d"
  using assms
proof (induction fuel arbitrary: n e)
  case (Suc fuel)
  show ?case
  proof (cases "n < 2 ^ 52 * d")
    case True
    then obtain s where "f64_scale fuel (2 * n) d (e - 1) = (2 * n * 2 ^ s, d, e - 1 - int s)"
        "2 ^ 52 * d \<le> 2 * n * 2 ^ s" "2 * n * 2 ^ s < 2 ^ 53 * d"
      using Suc.IH [of "2 * n" "e - 1"] Suc.prems by (auto simp: algebra_simps)
    then show ?thesis using True by (intro exI [of _ "Suc s"]) (simp add: algebra_simps)
  next
    case False
    then show ?thesis using Suc.prems by (intro exI [of _ 0]) simp
  qed
qed (intro exI [of _ 0], simp)

lemma f64_quot_normal:
  assumes "0 < N" "0 < D" "N < 2 ^ 27 * D" "D \<le> 2 ^ 200"
  obtains s where "f64_quot N D = (round_half_even (N * 2 ^ s) D, - int s)" "26 \<le> s"
proof -
  have "2 ^ 52 * D \<le> 1 * 2 ^ 256" using mult_left_mono [OF assms(4), of "2 ^ 52"] by simp
  also have "\<dots> \<le> N * 2 ^ 256" using assms(1) by (intro mult_right_mono) auto
  finally obtain s where s: "f64_scale 256 N D 0 = (N * 2 ^ s, D, 0 - int s)" "2 ^ 52 * D \<le> N * 2 ^ s"
    using f64_scale_down [of N D 256 0] assms(3) by auto
  have "26 \<le> s"
  proof (rule ccontr)
    assume "\<not> 26 \<le> s"
    then have "(2 :: nat) ^ s \<le> 2 ^ 25" by (intro power_increasing) auto
    then have "N * 2 ^ s \<le> N * 2 ^ 25" by (rule mult_left_mono) simp
    moreover have "N * 2 ^ 25 < 2 ^ 52 * D" using assms(3) by simp
    ultimately show False using s(2) by linarith
  qed
  moreover have "f64_quot N D = (round_half_even (N * 2 ^ s) D, - int s)"
    using assms(1) s(1) by (simp add: f64_quot_def)
  ultimately show thesis using that by blast
qed

lemma f64_quot_decimals:
  assumes N: "0 < N" "0 < D" "N < 2 ^ 27 * D" "D \<le> 2 ^ 200"
    and q: "8 * (N * 10 ^ 7) \<le> 8 * q * D + D" "8 * q * D \<le> 8 * (N * 10 ^ 7) + D"
  shows "fmt_flt 7 (f64_signed neg (f64_quot N D)) =
    (if neg then ''-'' else []) @ dec_digits (q div 10 ^ 7) @ ''.'' @ pad_digits 7 (dec_digits (q mod 10 ^ 7))"
proof -
  obtain s where s: "f64_quot N D = (round_half_even (N * 2 ^ s) D, - int s)" "26 \<le> s"
    using f64_quot_normal [OF N] .
  define X m where "X = (2 :: nat) ^ s" and "m = round_half_even (N * X) D"
  have X: "2 ^ 26 \<le> X" unfolding X_def using s(2) by (intro power_increasing) auto
  have near: "2 * m * D \<le> 2 * (N * X) + D" "2 * (N * X) \<le> 2 * m * D + D"
    unfolding m_def by (rule round_half_even_near [OF N(2)])+
  have up: "8 * (N * 10 ^ 7) * X \<le> (8 * q * D + D) * X" "8 * q * D * X \<le> (8 * (N * 10 ^ 7) + D) * X"
    by (rule mult_right_mono [OF q(1)], simp, rule mult_right_mono [OF q(2)], simp)
  have "D * (8 * (m * 10 ^ 7)) \<le> D * (8 * q * X + X + 4 * 10 ^ 7)"
    using near(1) up(1) by (simp add: algebra_simps)
  then have hi: "8 * (m * 10 ^ 7) \<le> 8 * q * X + X + 4 * 10 ^ 7" using N(2) by simp
  have "D * (8 * q * X) \<le> D * (8 * (m * 10 ^ 7) + X + 4 * 10 ^ 7)"
    using near(2) up(2) by (simp add: algebra_simps)
  then have lo: "8 * q * X \<le> 8 * (m * 10 ^ 7) + X + 4 * 10 ^ 7" using N(2) by simp
  have "round_half_even (m * 10 ^ 7) X = q"
    using hi lo X by (intro round_half_even_unique) auto
  then show ?thesis using s by (simp add: fmt_flt_def f64_signed_def fmt_f_def X_def m_def)
qed

text \<open>Seven decimals of an angle read back the transmitted integer.\<close>

definition decimal :: "nat \<Rightarrow> int \<Rightarrow> string" where
  "decimal p i = (if i < 0 then ''-'' else []) @ dec_digits (nat \<bar>i\<bar> div 10 ^ p) @ ''.''
     @ pad_digits p (dec_digits (nat \<bar>i\<bar> mod 10 ^ p))"

lemma fmt_zero: "fmt_flt 7 (f64_signed False (0, 0)) = decimal 7 0"
  by (simp add: fmt_flt_def f64_signed_def fmt_f_def decimal_def)

lemma fmt_deg:
  assumes "\<bar>i\<bar> \<le> 2 ^ 31"
  shows "fmt_flt 7 (f64_deg i) = decimal 7 i"
proof (cases "i = 0")
  case True
  then show ?thesis using fmt_zero by (simp add: f64_deg_def f64_quot_def)
next
  case False
  define n where "n = nat \<bar>i\<bar>"
  have n: "0 < n" "n \<le> 2 ^ 31" using False assms by (auto simp: n_def nat_le_iff)
  have "fmt_flt 7 (f64_signed (i < 0) (f64_quot (n * 944473296573929) (2 ^ 73))) =
    (if i < 0 then ''-'' else []) @ dec_digits (n div 10 ^ 7) @ ''.'' @ pad_digits 7 (dec_digits (n mod 10 ^ 7))"
    using n by (intro f64_quot_decimals) auto
  then show ?thesis by (simp add: f64_deg_def decimal_def n_def)
qed

lemma fmt_div:
  assumes "0 < d" "d dvd 10 ^ 7" "nat \<bar>i\<bar> < 2 ^ 27 * d"
  shows "fmt_flt 7 (f64_div i d) = decimal 7 (i * int (10 ^ 7 div d))"
proof (cases "i = 0")
  case True
  then show ?thesis using fmt_zero by (simp add: f64_div_def f64_quot_def)
next
  case False
  define n k where "n = nat \<bar>i\<bar>" and "k = 10 ^ 7 div d"
  have k: "10 ^ 7 = k * d" using assms(2) by (simp add: k_def)
  have k0: "0 < k"
  proof (rule ccontr)
    assume "\<not> 0 < k"
    then show False using k by simp
  qed
  have e: "8 * (n * k) * d = 8 * (n * 10 ^ 7)" unfolding k by (simp only: mult.assoc)
  have n: "0 < n" using False by (simp add: n_def)
  have "d \<le> 10 ^ 7" using assms(2) by (intro dvd_imp_le) auto
  then have "d \<le> 2 ^ 200" by (rule order_trans) simp
  then have "fmt_flt 7 (f64_signed (i < 0) (f64_quot n d)) =
    (if i < 0 then ''-'' else []) @ dec_digits ((n * k) div 10 ^ 7) @ ''.'' @ pad_digits 7 (dec_digits ((n * k) mod 10 ^ 7))"
    using n assms(1,3) unfolding n_def [symmetric] by (intro f64_quot_decimals) (simp_all add: e)
  moreover have "nat \<bar>i * int k\<bar> = n * k" by (simp add: n_def abs_mult nat_mult_distrib)
  moreover have "i * int k < 0 \<longleftrightarrow> i < 0" using k0 by (simp add: mult_less_0_iff)
  ultimately show ?thesis unfolding f64_div_def decimal_def k_def [symmetric] n_def [symmetric] by (simp only:)
qed

end
