(* ===== verification/Meshcore_Lpp.thy ===== *)
theory Meshcore_Lpp
  imports Floats
begin

text \<open>
  The CayenneLPP telemetry decoder and printers of \<^verbatim>\<open>src/meshcore_lpp.c\<close>.  Single-precision
  values and their printed form are exact, see theory Floats.
\<close>

subsection \<open>The type table\<close>

record lpp_type_info =
  lt_type :: byte
  lt_name :: string
  lt_unit :: string
  lt_width :: nat
  lt_n_values :: nat
  lt_mult :: nat
  lt_signed :: bool

abbreviation lpp_type :: "byte \<Rightarrow> string \<Rightarrow> string \<Rightarrow> nat \<Rightarrow> nat \<Rightarrow> nat \<Rightarrow> bool \<Rightarrow> lpp_type_info" where
  "lpp_type t nm u w n m s \<equiv> \<lparr> lt_type = t, lt_name = nm, lt_unit = u, lt_width = w, lt_n_values = n, lt_mult = m, lt_signed = s \<rparr>"

definition LPP_TYPES :: "lpp_type_info list" where
  "LPP_TYPES = [
     lpp_type 0 ''digital_in'' [] 1 1 1 False,
     lpp_type 1 ''digital_out'' [] 1 1 1 False,
     lpp_type 2 ''analog_in'' [] 2 1 100 True,
     lpp_type 3 ''analog_out'' [] 2 1 100 True,
     lpp_type 100 ''generic'' [] 4 1 1 False,
     lpp_type 101 ''luminosity'' ''lux'' 2 1 1 False,
     lpp_type 102 ''presence'' [] 1 1 1 False,
     lpp_type 103 ''temperature'' ''C'' 2 1 10 True,
     lpp_type 104 ''humidity'' ''%'' 1 1 2 False,
     lpp_type 113 ''accelerometer'' ''G'' 2 3 1000 True,
     lpp_type 115 ''pressure'' ''hPa'' 2 1 10 False,
     lpp_type 116 ''voltage'' ''V'' 2 1 100 False,
     lpp_type 117 ''current'' ''A'' 2 1 1000 True,
     lpp_type 118 ''frequency'' ''Hz'' 4 1 1 False,
     lpp_type 120 ''percentage'' ''%'' 1 1 1 False,
     lpp_type 121 ''altitude'' ''m'' 2 1 1 True,
     lpp_type 125 ''concentration'' ''ppm'' 2 1 1 False,
     lpp_type 128 ''power'' ''W'' 2 1 1 False,
     lpp_type 130 ''distance'' ''m'' 4 1 1000 False,
     lpp_type 131 ''energy'' ''kWh'' 4 1 1000 False,
     lpp_type 132 ''direction'' ''deg'' 2 1 1 False,
     lpp_type 133 ''unixtime'' [] 4 1 1 False,
     lpp_type 134 ''gyrometer'' ''deg/s'' 2 3 100 True,
     lpp_type 135 ''colour'' [] 1 3 1 False,
     lpp_type 136 ''gps'' [] 3 3 0 True,
     lpp_type 142 ''switch'' [] 1 1 1 False]"

definition lpp_type_lookup :: "byte \<Rightarrow> lpp_type_info option" where
  "lpp_type_lookup type = find (\<lambda>ti. lt_type ti = type) LPP_TYPES"

subsection \<open>Decoder\<close>

definition lpp_raw :: "bytes \<Rightarrow> nat \<Rightarrow> u32" where
  "lpp_raw p width = foldl (\<lambda>raw b. push_bit 8 raw OR ucast b) 0 (take width p)"

definition lpp_read_value :: "bytes \<Rightarrow> nat \<Rightarrow> nat \<Rightarrow> bool \<Rightarrow> f32" where
  "lpp_read_value p width mult sgnd =
     (let raw = lpp_raw p width; b = push_bit (width * 8 - 1) 1 :: u32;
          neg = (sgnd \<and> raw AND b \<noteq> 0);
          raw = (if neg then push_bit 1 b - raw else raw)
      in case (if mult \<noteq> 0 then f32_div (unat raw) mult else f32_quot (unat raw) 1) of
           (m, e) \<Rightarrow> \<lparr> f_neg = neg, f_man = m, f_exp = e \<rparr>)"

record lpp_record =
  lr_channel :: byte
  lr_type :: byte
  lr_type_name :: string
  lr_unit :: string
  lr_values :: "f32 list"

definition lpp_values :: "lpp_type_info \<Rightarrow> bytes \<Rightarrow> f32 list" where
  "lpp_values ti p =
     (if lt_type ti = 136 then
        [lpp_read_value p 3 10000 True, lpp_read_value (drop 3 p) 3 10000 True, lpp_read_value (drop 6 p) 3 100 True]
      else map (\<lambda>v. lpp_read_value (drop (v * lt_width ti) p) (lt_width ti) (lt_mult ti) (lt_signed ti)) [0..<lt_n_values ti])"

function lpp_records :: "bytes \<Rightarrow> lpp_record list option" where
  "lpp_records buf =
     (case buf of
        [] \<Rightarrow> Some []
      | [_] \<Rightarrow> None
      | channel # type # p \<Rightarrow>
          if channel = 0 then None
          else case lpp_type_lookup type of
                 None \<Rightarrow> None
               | Some ti \<Rightarrow>
                   (let rec_bytes = lt_width ti * lt_n_values ti
                    in if rec_bytes > length p then None
                       else map_option (\<lambda>rs. \<lparr> lr_channel = channel, lr_type = type, lr_type_name = lt_name ti,
                                                lr_unit = lt_unit ti, lr_values = lpp_values ti p \<rparr> # rs)
                              (lpp_records (drop rec_bytes p))))"
  by pat_completeness auto
termination
  by (relation "measure length") auto

declare lpp_records.simps [simp del]

definition MESHCORE_LPP_MAX_RECORDS :: nat where "MESHCORE_LPP_MAX_RECORDS = 16"

definition meshcore_lpp_decode :: "bytes \<Rightarrow> nat \<Rightarrow> lpp_record list option" where
  "meshcore_lpp_decode buf max_records =
     (if buf = [] then None
      else case lpp_records buf of
             None \<Rightarrow> None
           | Some rs \<Rightarrow> if rs = [] then None else Some (take max_records rs))"

subsection \<open>Printers\<close>

text \<open>
  One \<^verbatim>\<open>snprintf\<close> at the end of the buffer followed by the overflow check: the text so far
  and whether the function is still running.  On overflow the buffer keeps the part that fits.
\<close>

definition emit :: "nat \<Rightarrow> string \<times> bool \<Rightarrow> string \<Rightarrow> string \<times> bool" where
  "emit cap st piece =
     (case st of (out, run) \<Rightarrow>
        if \<not> run then st
        else if length piece \<ge> cap - length out then (take (cap - 1) (out @ piece), False)
        else (out @ piece, True))"

text \<open>The double quote character.\<close>

definition DQ :: string where "DQ = [CHR 0x22]"

definition json_record :: "nat \<Rightarrow> lpp_record \<Rightarrow> string" where
  "json_record i r =
     (let head = (if i \<noteq> 0 then '','' else []) @ ''{'' @ DQ @ ''ch'' @ DQ @ '':'' @ dec_digits (unat (lr_channel r))
            @ '','' @ DQ @ ''type'' @ DQ @ '':'' @ dec_digits (unat (lr_type r))
            @ '','' @ DQ @ ''name'' @ DQ @ '':'' @ DQ @ lr_type_name r @ DQ
            @ '','' @ DQ @ ''unit'' @ DQ @ '':'' @ DQ @ lr_unit r @ DQ @ '','' @ DQ @ ''value'' @ DQ @ '':''
      in if length (lr_values r) = 3
         then head @ ''['' @ fmt_f 4 (lr_values r ! 0) @ '','' @ fmt_f 4 (lr_values r ! 1) @ '','' @ fmt_f 4 (lr_values r ! 2) @ '']}''
         else head @ fmt_f 4 (lr_values r ! 0) @ ''}'')"

text \<open>The number of bytes written (None for -1) and the contents of the buffer.\<close>

definition meshcore_lpp_to_json :: "lpp_record list \<Rightarrow> nat \<Rightarrow> nat option \<times> string" where
  "meshcore_lpp_to_json rs cap =
     (if cap = 0 then (None, [])
      else case emit cap (foldl (emit cap) (emit cap ([], True) ''['') (map (\<lambda>i. json_record i (rs ! i)) [0..<length rs])) '']'' of
             (out, run) \<Rightarrow> (if run then Some (length out) else None, out))"

definition text_record :: "nat \<Rightarrow> lpp_record \<Rightarrow> string" where
  "text_record i r =
     (if i \<noteq> 0 then '' '' else []) @ lr_type_name r @ ''=''
     @ (if length (lr_values r) = 3
        then fmt_f 3 (lr_values r ! 0) @ '','' @ fmt_f 3 (lr_values r ! 1) @ '','' @ fmt_f 3 (lr_values r ! 2)
        else fmt_f 2 (lr_values r ! 0)) @ lr_unit r"

definition meshcore_lpp_to_text :: "lpp_record list \<Rightarrow> nat \<Rightarrow> nat option \<times> string" where
  "meshcore_lpp_to_text rs cap =
     (if cap = 0 then (None, [])
      else case foldl (emit cap) ([], True) (map (\<lambda>i. text_record i (rs ! i)) [0..<length rs]) of
             (out, run) \<Rightarrow> (if run then Some (length out) else None, out))"

subsection \<open>The decoder inverts the record layout\<close>

text \<open>A record on the wire: channel, type code and value bytes.\<close>

type_synonym lpp_wire = "byte \<times> byte \<times> bytes"

definition wire_record_ok :: "lpp_wire \<Rightarrow> bool" where
  "wire_record_ok r = (case r of (c, t, p) \<Rightarrow> c \<noteq> 0
     \<and> (case lpp_type_lookup t of None \<Rightarrow> False | Some ti \<Rightarrow> length p = lt_width ti * lt_n_values ti))"

definition wire_record_bytes :: "lpp_wire \<Rightarrow> bytes" where
  "wire_record_bytes r = (case r of (c, t, p) \<Rightarrow> c # t # p)"

definition wire_record_meaning :: "lpp_wire \<Rightarrow> lpp_record" where
  "wire_record_meaning r = (case r of (c, t, p) \<Rightarrow>
     (let ti = the (lpp_type_lookup t)
      in \<lparr> lr_channel = c, lr_type = t, lr_type_name = lt_name ti, lr_unit = lt_unit ti, lr_values = lpp_values ti p \<rparr>))"

lemma wire_record_simps [simp]:
  "wire_record_bytes (c, t, p) = c # t # p"
  "wire_record_ok (c, t, p) \<longleftrightarrow> c \<noteq> 0 \<and> (\<exists>ti. lpp_type_lookup t = Some ti \<and> length p = lt_width ti * lt_n_values ti)"
  "lpp_type_lookup t = Some ti \<Longrightarrow> wire_record_meaning (c, t, p) =
     \<lparr> lr_channel = c, lr_type = t, lr_type_name = lt_name ti, lr_unit = lt_unit ti, lr_values = lpp_values ti p \<rparr>"
  by (auto simp: wire_record_bytes_def wire_record_ok_def wire_record_meaning_def Let_def split: option.split)

lemma lpp_lookup_in: "lpp_type_lookup t = Some ti \<Longrightarrow> ti \<in> set LPP_TYPES \<and> lt_type ti = t"
  unfolding lpp_type_lookup_def by (auto simp: find_Some_iff intro: nth_mem)

lemma gps_layout: "\<forall>ti \<in> set LPP_TYPES. lt_type ti = 136 \<longrightarrow> lt_width ti * lt_n_values ti = 9"
  by (simp add: LPP_TYPES_def)

lemma lpp_read_value_prefix:
  "width \<le> length p \<Longrightarrow> lpp_read_value (p @ rest) width mult sgnd = lpp_read_value p width mult sgnd"
  by (simp add: lpp_read_value_def lpp_raw_def)

lemma lpp_values_prefix:
  assumes "ti \<in> set LPP_TYPES" "length p = lt_width ti * lt_n_values ti"
  shows "lpp_values ti (p @ rest) = lpp_values ti p"
proof (cases "lt_type ti = 136")
  case True
  then have "length p = 9" using gps_layout assms by metis
  then show ?thesis using True by (simp add: lpp_values_def lpp_read_value_prefix)
next
  case False
  have "lpp_read_value (drop (v * lt_width ti) (p @ rest)) (lt_width ti) m s
      = lpp_read_value (drop (v * lt_width ti) p) (lt_width ti) m s" if v: "v < lt_n_values ti" for v m s
  proof -
    have "(v + 1) * lt_width ti \<le> lt_n_values ti * lt_width ti" using v by (intro mult_right_mono) auto
    then have "v * lt_width ti + lt_width ti \<le> length p" using assms(2) by (simp add: mult.commute add.commute)
    then show ?thesis by (simp add: lpp_read_value_prefix)
  qed
  then show ?thesis using False by (simp add: lpp_values_def)
qed

lemma lpp_records_encode:
  "list_all wire_record_ok rs \<Longrightarrow> lpp_records (concat (map wire_record_bytes rs)) = Some (map wire_record_meaning rs)"
proof (induction rs)
  case Nil
  then show ?case by (simp add: lpp_records.simps)
next
  case (Cons r rs)
  obtain c t p where r: "r = (c, t, p)" by (cases r)
  obtain ti where ti: "lpp_type_lookup t = Some ti" "length p = lt_width ti * lt_n_values ti" "c \<noteq> 0"
    using Cons.prems by (auto simp: r)
  have "lpp_values ti (p @ concat (map wire_record_bytes rs)) = lpp_values ti p"
    using lpp_lookup_in [OF ti(1)] ti(2) by (intro lpp_values_prefix) auto
  then show ?case using Cons ti
    by (subst lpp_records.simps) (simp add: r Let_def)
qed

lemma lpp_records_decode:
  "lpp_records buf = Some recs \<Longrightarrow>
     \<exists>rs. list_all wire_record_ok rs \<and> buf = concat (map wire_record_bytes rs) \<and> recs = map wire_record_meaning rs"
proof (induction buf arbitrary: recs rule: lpp_records.induct)
  case (1 buf)
  consider "buf = []" | b where "buf = [b]" | c t p where "buf = c # t # p" by (metis list.exhaust)
  then show ?case
  proof cases
    case 1
    then show ?thesis using "1.prems" by (intro exI [of _ "[]"]) (simp add: lpp_records.simps)
  next
    case 2
    then show ?thesis using "1.prems" by (simp add: lpp_records.simps)
  next
    case (3 c t p)
    obtain ti recs' where ti: "c \<noteq> 0" "lpp_type_lookup t = Some ti" "lt_width ti * lt_n_values ti \<le> length p"
        "lpp_records (drop (lt_width ti * lt_n_values ti) p) = Some recs'"
        "recs = \<lparr> lr_channel = c, lr_type = t, lr_type_name = lt_name ti, lr_unit = lt_unit ti, lr_values = lpp_values ti p \<rparr> # recs'"
      using "1.prems" unfolding 3 by (subst (asm) lpp_records.simps) (auto simp: Let_def split: if_splits option.splits)
    define n where "n = lt_width ti * lt_n_values ti"
    obtain rs where rs: "list_all wire_record_ok rs" "drop n p = concat (map wire_record_bytes rs)" "recs' = map wire_record_meaning rs"
      using "1.IH" [OF 3 refl ti(1,2) n_def] ti(3,4) unfolding n_def by fastforce
    have vals: "lpp_values ti (take n p @ drop n p) = lpp_values ti (take n p)"
      using lpp_lookup_in [OF ti(2)] ti(3) by (intro lpp_values_prefix) (auto simp: n_def)
    have "p = take n p @ concat (map wire_record_bytes rs)" using rs(2) append_take_drop_id [of n p] by simp
    then have "buf = concat (map wire_record_bytes ((c, t, take n p) # rs))" by (simp add: 3)
    moreover have "list_all wire_record_ok ((c, t, take n p) # rs)" using rs(1) ti by (simp add: n_def)
    moreover have "recs = map wire_record_meaning ((c, t, take n p) # rs)" using ti rs(3) vals by simp
    ultimately show ?thesis by blast
  qed
qed


subsection \<open>Printing into a fixed buffer\<close>

lemma emit_stopped: "foldl (emit cap) (out, False) ps = (out, False)"
  by (induction ps) (simp_all add: emit_def)

lemma emit_all:
  "length out < cap \<Longrightarrow> foldl (emit cap) (out, True) ps =
     (if length (out @ concat ps) < cap then (out @ concat ps, True) else (take (cap - 1) (out @ concat ps), False))"
proof (induction ps arbitrary: out)
  case (Cons p ps)
  show ?case
  proof (cases "length (out @ p) < cap")
    case True
    then have "emit cap (out, True) p = (out @ p, True)" by (auto simp: emit_def)
    then show ?thesis using Cons.IH [of "out @ p"] True by simp
  next
    case False
    then have "emit cap (out, True) p = (take (cap - 1) (out @ p), False)" using Cons.prems by (auto simp: emit_def)
    then show ?thesis using False Cons.prems by (simp add: emit_stopped)
  qed
qed simp

definition json_text :: "lpp_record list \<Rightarrow> string" where
  "json_text rs = ''['' @ concat (map (\<lambda>i. json_record i (rs ! i)) [0..<length rs]) @ '']''"

lemma to_json_text:
  assumes "1 < cap"
  shows "meshcore_lpp_to_json rs cap =
    (if length (json_text rs) < cap then (Some (length (json_text rs)), json_text rs) else (None, take (cap - 1) (json_text rs)))"
proof -
  let ?ps = "map (\<lambda>i. json_record i (rs ! i)) [0..<length rs]"
  have "emit cap (foldl (emit cap) (emit cap ([], True) ''['') ?ps) '']'' = foldl (emit cap) ([], True) ([''[''] @ ?ps @ ['']''])"
    by simp
  also have "\<dots> = (if length (json_text rs) < cap then (json_text rs, True) else (take (cap - 1) (json_text rs), False))"
    using assms by (subst emit_all) (simp_all add: json_text_def)
  finally show ?thesis using assms by (simp add: meshcore_lpp_to_json_def)
qed

text \<open>Sixteen one-byte records, the most the caller accepts: a valid blob of 48 bytes.\<close>

definition long_blob :: bytes where
  "long_blob = concat (replicate 16 [100, 1, 0])"

lemma digital_record:
  "wire_record_ok (100, 1, [0])"
  "json_record 0 (wire_record_meaning (100, 1, [0])) =
     ''{'' @ DQ @ ''ch'' @ DQ @ '':100,'' @ DQ @ ''type'' @ DQ @ '':1,'' @ DQ @ ''name'' @ DQ @ '':'' @ DQ @ ''digital_out'' @ DQ
     @ '','' @ DQ @ ''unit'' @ DQ @ '':'' @ DQ @ DQ @ '','' @ DQ @ ''value'' @ DQ @ '':0.0000}''"
proof -
  have ti: "lpp_type_lookup 1 = Some (lpp_type 1 ''digital_out'' [] 1 1 1 False)" by (simp add: lpp_type_lookup_def LPP_TYPES_def)
  show "wire_record_ok (100, 1, [0])" by (simp add: ti)
  have "lpp_values (lpp_type 1 ''digital_out'' [] 1 1 1 False) [0] = [\<lparr> f_neg = False, f_man = 0, f_exp = 0 \<rparr>]"
    by (simp add: lpp_values_def lpp_read_value_def lpp_raw_def f32_div_def f32_quot_def)
  moreover have "dec_digits 100 = ''100''" "dec_digits 1 = ''1''" "dec_digits 0 = ''0''" by (simp_all add: dec_digits.simps char_of_eq_iff)
  moreover have "pad_digits 4 ''0'' = ''0000''" by (simp add: pad_digits_def numeral_eq_Suc)
  ultimately show "json_record 0 (wire_record_meaning (100, 1, [0])) =
     ''{'' @ DQ @ ''ch'' @ DQ @ '':100,'' @ DQ @ ''type'' @ DQ @ '':1,'' @ DQ @ ''name'' @ DQ @ '':'' @ DQ @ ''digital_out'' @ DQ
     @ '','' @ DQ @ ''unit'' @ DQ @ '':'' @ DQ @ DQ @ '','' @ DQ @ ''value'' @ DQ @ '':0.0000}''"
    by (simp add: wire_record_simps(3) [OF ti] json_record_def DQ_def fmt_f_def)
qed

text \<open>
  C27: telemetry can be published as broken JSON.  The caller ignores that the JSON printer ran out
  of its 1024-byte buffer: for a valid blob of sixteen one-byte records the decoder accepts all
  sixteen, the printer reports failure, and the buffer that goes into the event is filled with
  a text cut off in the middle, without the closing bracket.
\<close>

theorem lpp_json_cut:
  "\<exists>recs. meshcore_lpp_decode long_blob MESHCORE_LPP_MAX_RECORDS = Some recs \<and> length recs = 16
    \<and> fst (meshcore_lpp_to_json recs 1024) = None
    \<and> length (snd (meshcore_lpp_to_json recs 1024)) = 1023 \<and> CHR '']'' \<notin> set (snd (meshcore_lpp_to_json recs 1024))"
proof -
  define r where "r = wire_record_meaning (100, 1, [0])"
  define j where "j = json_record 0 r"
  have j: "length j = 65" "CHR '']'' \<notin> set j" unfolding j_def r_def digital_record by (simp_all add: DQ_def)
  have rest: "json_record i r = CHR '','' # j" if "i \<noteq> 0" for i
    using that by (simp add: j_def json_record_def Let_def r_def wire_record_meaning_def)
  define recs where "recs = replicate 16 r"
  have "long_blob = concat (map wire_record_bytes (replicate 16 (100, 1, [0])))" by (simp add: long_blob_def)
  then have dec: "meshcore_lpp_decode long_blob MESHCORE_LPP_MAX_RECORDS = Some recs"
    using lpp_records_encode [of "replicate 16 (100, 1, [0])"] digital_record(1)
    by (simp add: meshcore_lpp_decode_def long_blob_def MESHCORE_LPP_MAX_RECORDS_def recs_def r_def list_all_iff)
  have "[0..<16] = 0 # [1..<16]" by (simp add: upt_conv_Cons)
  moreover have "map (\<lambda>i. json_record i (recs ! i)) [1..<16] = map (\<lambda>i. CHR '','' # j) [1..<16]"
    using rest by (intro map_cong) (auto simp: recs_def)
  ultimately have "map (\<lambda>i. json_record i (recs ! i)) [0..<16] = j # replicate 15 (CHR '','' # j)"
    by (simp add: recs_def j_def map_replicate_const)
  then have txt_eq: "json_text recs = ''['' @ (j @ concat (replicate 15 (CHR '','' # j))) @ '']''"
    by (simp add: json_text_def recs_def)
  define body where "body = j @ concat (replicate 15 (CHR '','' # j))"
  have body: "length body = 1055" "CHR '']'' \<notin> set body"
    using j by (auto simp: body_def length_concat sum_list_replicate)
  have json: "meshcore_lpp_to_json recs 1024 = (None, take 1023 (json_text recs))"
    using to_json_text [of 1024 recs] body(1) by (simp add: txt_eq body_def [symmetric])
  have "take 1023 (json_text recs) = ''['' @ take 1022 body" using body(1) by (simp add: txt_eq body_def [symmetric])
  then show ?thesis using dec json body by (intro exI [of _ recs]) (auto simp: recs_def dest: in_set_takeD)
qed

end
