(* ===== verification/Meshcore_Decoders.thy ===== *)
theory Meshcore_Decoders
  imports Mesh_Packet Meshcore_Region Meshcore_Lpp
begin

text \<open>
  The decoders of the MeshCore payload types and the entry point of the MeshCore path, from
  \<^verbatim>\<open>src/meshcore_decoders.c\<close>, with the trust rule for frames whose checksum was repaired in two
  bits.  The signature check of the crypto library is a parameter: \<^verbatim>\<open>sig\<close> takes public key,
  message and signature.  A decoder gives its return value and the updated event.  Latitude
  and longitude are the transmitted integers (degrees times a million): dividing by a
  million is strictly monotone on them, so the range check on the quotients is the range check
  on the integers.
\<close>

subsection \<open>Codes\<close>

abbreviation (input) "MC_PAYLOAD_REQ \<equiv> (0 :: int)"
abbreviation (input) "MC_PAYLOAD_RESPONSE \<equiv> (1 :: int)"
abbreviation (input) "MC_PAYLOAD_TXT_MSG \<equiv> (2 :: int)"
abbreviation (input) "MC_PAYLOAD_ACK \<equiv> (3 :: int)"
abbreviation (input) "MC_PAYLOAD_ADVERT \<equiv> (4 :: int)"
abbreviation (input) "MC_PAYLOAD_GRP_TXT \<equiv> (5 :: int)"
abbreviation (input) "MC_PAYLOAD_GRP_DATA \<equiv> (6 :: int)"
abbreviation (input) "MC_PAYLOAD_ANON_REQ \<equiv> (7 :: int)"
abbreviation (input) "MC_PAYLOAD_PATH \<equiv> (8 :: int)"
abbreviation (input) "MC_PAYLOAD_TRACE \<equiv> (9 :: int)"
abbreviation (input) "MC_PAYLOAD_MULTIPART \<equiv> (10 :: int)"
abbreviation (input) "MC_PAYLOAD_CONTROL \<equiv> (11 :: int)"

abbreviation (input) "ADV_TYPE_MASK \<equiv> (0x0F :: byte)"
abbreviation (input) "ADV_LATLON_MASK \<equiv> (0x10 :: byte)"
abbreviation (input) "ADV_FEAT1_MASK \<equiv> (0x20 :: byte)"
abbreviation (input) "ADV_FEAT2_MASK \<equiv> (0x40 :: byte)"
abbreviation (input) "ADV_NAME_MASK \<equiv> (0x80 :: byte)"

definition MC_SIGNATURE_SIZE :: nat where "MC_SIGNATURE_SIZE = 64"

subsection \<open>Text fields\<close>

text \<open>Despite its name this copies every byte up to the first zero.\<close>

definition copy_printable :: "bytes \<Rightarrow> nat \<Rightarrow> string" where
  "copy_printable p maxlen = map (\<lambda>c. char_of (unat c)) (takeWhile (\<lambda>c. c \<noteq> 0) (take (maxlen - 1) p))"

subsection \<open>ADVERT\<close>

type_synonym verifier = "bytes \<Rightarrow> bytes \<Rightarrow> bytes \<Rightarrow> bool"

definition advert_message :: "bytes \<Rightarrow> u32 \<Rightarrow> bytes \<Rightarrow> bytes" where
  "advert_message pubkey timestamp app_data =
     pubkey @ [ucast timestamp, ucast (drop_bit 8 timestamp), ucast (drop_bit 16 timestamp), ucast (drop_bit 24 timestamp)]
     @ app_data"

definition meshcore_advert_verify_signature :: "verifier \<Rightarrow> bytes \<Rightarrow> u32 \<Rightarrow> bytes \<Rightarrow> bytes \<Rightarrow> bool" where
  "meshcore_advert_verify_signature sig pubkey timestamp app_data signature =
     (if MC_PUB_KEY_SIZE + 4 + length app_data > MC_PUB_KEY_SIZE + 4 + MC_MAX_PACKET_PAYLOAD then False
      else sig pubkey (advert_message pubkey timestamp app_data) signature)"

definition mc_latlon_plausible :: "int \<Rightarrow> int \<Rightarrow> bool" where
  "mc_latlon_plausible lat lon =
     (if lat < -90000000 \<or> lat > 90000000 \<or> lon < -180000000 \<or> lon > 180000000 then False
      else if lat = 0 \<and> lon = 0 then False else True)"

text \<open>The optional fields of the application data, each with the read position.\<close>

definition advert_latlon :: "byte \<Rightarrow> bytes \<Rightarrow> nat \<times> mc_event \<Rightarrow> nat \<times> mc_event" where
  "advert_latlon flags app st =
     (case st of (i, m) \<Rightarrow>
        if flags AND ADV_LATLON_MASK \<noteq> 0
        then (if length app \<ge> i + 8
              then let lat = sint (rd_le32 (drop i app)); lon = sint (rd_le32 (drop (i + 4) app))
                   in (i + 8, if mc_latlon_plausible lat lon
                              then m\<lparr> mc_has_latlon := True, mc_lat_e6 := lat, mc_lon_e6 := lon \<rparr> else m)
              else (length app, m))
        else (i, m))"

definition advert_feat :: "byte \<Rightarrow> (u16 \<Rightarrow> mc_event \<Rightarrow> mc_event) \<Rightarrow> byte \<Rightarrow> bytes \<Rightarrow> nat \<times> mc_event \<Rightarrow> nat \<times> mc_event" where
  "advert_feat msk put flags app st =
     (case st of (i, m) \<Rightarrow>
        if flags AND msk \<noteq> 0 \<and> length app \<ge> i + 2 then (i + 2, put (rd_le16 (drop i app)) m)
        else if flags AND msk \<noteq> 0 then (length app, m)
        else (i, m))"

definition advert_name :: "byte \<Rightarrow> bytes \<Rightarrow> nat \<times> mc_event \<Rightarrow> mc_event" where
  "advert_name flags app st =
     (case st of (i, m) \<Rightarrow>
        if flags AND ADV_NAME_MASK \<noteq> 0 \<and> length app \<ge> i
        then m\<lparr> mc_has_name := True, mc_node_name := copy_printable (drop i app) 40 \<rparr> else m)"

definition advert_app_data :: "bytes \<Rightarrow> mc_event \<Rightarrow> mc_event" where
  "advert_app_data app m =
     (case app of
        [] \<Rightarrow> m
      | flags # _ \<Rightarrow>
          advert_name flags app
            (advert_feat ADV_FEAT2_MASK (\<lambda>w m. m\<lparr> mc_extra2 := w \<rparr>) flags app
              (advert_feat ADV_FEAT1_MASK (\<lambda>w m. m\<lparr> mc_extra1 := w \<rparr>) flags app
                (advert_latlon flags app (1, m\<lparr> mc_adv_type := flags AND ADV_TYPE_MASK \<rparr>)))))"

definition meshcore_decode_advert :: "verifier \<Rightarrow> meshcore_packet \<Rightarrow> mesh_event \<Rightarrow> bool \<times> mesh_event" where
  "meshcore_decode_advert sig pkt ev =
     (let p = pk_payload pkt
      in if length p < MC_PUB_KEY_SIZE + 4 + MC_SIGNATURE_SIZE then (False, ev)
         else let pubkey = take MC_PUB_KEY_SIZE p; timestamp = rd_le32 (drop MC_PUB_KEY_SIZE p);
                  signature = take MC_SIGNATURE_SIZE (drop (MC_PUB_KEY_SIZE + 4) p);
                  app = drop (MC_PUB_KEY_SIZE + 4 + MC_SIGNATURE_SIZE) p;
                  m = (ev_mc ev)\<lparr> mc_pubkey := pubkey, mc_timestamp := timestamp,
                        mc_sig_valid := meshcore_advert_verify_signature sig pubkey timestamp app signature \<rparr>
              in (True, ev\<lparr> ev_mc := (advert_app_data app m)\<lparr> mc_type_name := ''ADVERT'' \<rparr>, ev_decrypted := True \<rparr>))"

subsection \<open>TRACE\<close>

text \<open>Writing a run of bytes to the start of an array.\<close>

definition meshcore_decode_trace :: "meshcore_packet \<Rightarrow> mesh_event \<Rightarrow> bool \<times> mesh_event" where
  "meshcore_decode_trace pkt ev =
     (let p = pk_payload pkt
      in if length p < 4 + 4 + 1 then (False, ev)
         else let flags = p ! 8; route = drop 9 p;
                  route_entry_size = 2 ^ unat (flags AND 0x03) :: nat;
                  n_route_hops = min (length route div route_entry_size) MC_MAX_PATH_SIZE;
                  n_snr_hops = min (pk_path_hash_count pkt) MC_MAX_PATH_SIZE;
                  m = ev_mc ev
              in (True, ev\<lparr> ev_mc := m\<lparr>
                    mc_path_snrs := overwrite (map ((!) (pk_path pkt)) [0..<n_snr_hops]) (mc_path_snrs m),
                    mc_path_hashes := overwrite (map (\<lambda>i. route ! (i * route_entry_size)) [0..<n_route_hops]) (mc_path_hashes m),
                    mc_path_hop_count := max n_route_hops n_snr_hops, mc_type_name := ''TRACE'' \<rparr>,
                  ev_decrypted := True \<rparr>))"

subsection \<open>Group messages\<close>

text \<open>The plaintext and the index of the channel that opened it.\<close>

definition grp_decrypt :: "keyed \<Rightarrow> keyed \<Rightarrow> meshcore_packet \<Rightarrow> channelset option \<Rightarrow> (bytes \<times> nat) option" where
  "grp_decrypt hmac ecb pkt channels =
     (if length (pk_payload pkt) < 1 + MC_CIPHER_MAC_SIZE then None
      else case channels of
             None \<Rightarrow> None
           | Some cs \<Rightarrow>
               (let channel_hash = hd (pk_payload pkt); enc_with_mac = tl (pk_payload pkt)
                in first_some (\<lambda>i. map_option (\<lambda>plain. (plain, i))
                                     (meshcore_verify_and_decrypt hmac ecb (ch_secret (cs ! i)) enc_with_mac))
                     (meshcore_channelset_lookup cs channel_hash MC_CHANNEL_MAX_ENTRIES)))"

text \<open>What both group decoders report when no channel opens the packet.\<close>

definition grp_undecrypted :: "string \<Rightarrow> meshcore_packet \<Rightarrow> mesh_event \<Rightarrow> mesh_event" where
  "grp_undecrypted name pkt ev =
     ev\<lparr> ev_mc := (ev_mc ev)\<lparr> mc_type_name := name,
            mc_channel_hash := (if pk_payload pkt \<noteq> [] then hd (pk_payload pkt) else 0) \<rparr>, ev_decrypted := False \<rparr>"

definition meshcore_decode_grp_txt ::
  "keyed \<Rightarrow> keyed \<Rightarrow> meshcore_packet \<Rightarrow> channelset option \<Rightarrow> mesh_event \<Rightarrow> bool \<times> mesh_event" where
  "meshcore_decode_grp_txt hmac ecb pkt channels ev =
     (case grp_decrypt hmac ecb pkt channels of
        None \<Rightarrow> (True, grp_undecrypted ''GRP_TXT'' pkt ev)
      | Some (plain, chan_idx) \<Rightarrow>
          if length plain < 5 then (False, ev)
          else let ev = ev\<lparr> ev_mc := (ev_mc ev)\<lparr> mc_timestamp := rd_le32 plain \<rparr> \<rparr>; txt_type = plain ! 4
               in if drop_bit 2 txt_type \<noteq> 0 then (False, ev)
                  else let ch = the channels ! chan_idx
                       in (True, ev\<lparr> ev_mc := (ev_mc ev)\<lparr> mc_txt_type := txt_type, mc_text := copy_printable (drop 5 plain) 256,
                                       mc_channel_hash := ch_hash ch, mc_type_name := ''GRP_TXT'' \<rparr>,
                                     ev_channel_name := take 31 (ch_name ch), ev_decrypted := True \<rparr>))"

definition meshcore_decode_grp_data ::
  "keyed \<Rightarrow> keyed \<Rightarrow> meshcore_packet \<Rightarrow> channelset option \<Rightarrow> mesh_event \<Rightarrow> bool \<times> mesh_event" where
  "meshcore_decode_grp_data hmac ecb pkt channels ev =
     (case grp_decrypt hmac ecb pkt channels of
        None \<Rightarrow> (True, grp_undecrypted ''GRP_DATA'' pkt ev)
      | Some (plain, chan_idx) \<Rightarrow>
          if length plain < 3 then (False, ev)
          else let data_type = rd_le16 plain; data_len = plain ! 2; avail = length plain - 3;
                   n = (if unat data_len < avail then unat data_len else avail);
                   blob = take n (drop 3 plain);
                   m = (ev_mc ev)\<lparr> mc_data_type := data_type, mc_data_len := ucast data_len \<rparr>;
                   m = (case meshcore_lpp_decode blob MESHCORE_LPP_MAX_RECORDS of
                          Some recs \<Rightarrow> m\<lparr> mc_telemetry_json := snd (meshcore_lpp_to_json recs 1024),
                                          mc_text := snd (meshcore_lpp_to_text recs 256) \<rparr>
                        | None \<Rightarrow> m\<lparr> mc_text := hex_dump blob 0 256 \<rparr>);
                   ch = the channels ! chan_idx
               in (True, ev\<lparr> ev_mc := m\<lparr> mc_channel_hash := ch_hash ch, mc_type_name := ''GRP_DATA'' \<rparr>,
                             ev_channel_name := take 31 (ch_name ch), ev_decrypted := True \<rparr>))"

subsection \<open>The other payload types\<close>

definition decode_envelope_only :: "meshcore_packet \<Rightarrow> string \<Rightarrow> bool \<Rightarrow> mesh_event \<Rightarrow> bool \<times> mesh_event" where
  "decode_envelope_only pkt name has_pubkey ev =
     (let hdr_len = (if has_pubkey then 1 + MC_PUB_KEY_SIZE + MC_CIPHER_MAC_SIZE else 2 + MC_CIPHER_MAC_SIZE); p = pk_payload pkt
      in if length p < hdr_len then (False, ev)
         else let m = (ev_mc ev)\<lparr> mc_dest_hash := p ! 0 \<rparr>;
                  m = (if has_pubkey then m\<lparr> mc_pubkey := take MC_PUB_KEY_SIZE (drop 1 p) \<rparr> else m\<lparr> mc_src_hash := p ! 1 \<rparr>)
              in (True, ev\<lparr> ev_mc := m\<lparr> mc_type_name := take 15 name \<rparr>, ev_decrypted := False \<rparr>))"

definition decode_ack :: "meshcore_packet \<Rightarrow> mesh_event \<Rightarrow> bool \<times> mesh_event" where
  "decode_ack pkt ev =
     (if length (pk_payload pkt) < 4 then (False, ev)
      else (True, ev\<lparr> ev_mc := (ev_mc ev)\<lparr> mc_timestamp := rd_le32 (pk_payload pkt), mc_type_name := ''ACK'' \<rparr>,
                      ev_decrypted := True \<rparr>))"

definition decode_unknown :: "meshcore_packet \<Rightarrow> mesh_event \<Rightarrow> bool \<times> mesh_event" where
  "decode_unknown pkt ev =
     (True, ev\<lparr> ev_mc := (ev_mc ev)\<lparr> mc_type_name := take 15 (mc_payload_type_name (pk_payload_type pkt)) \<rparr>,
                ev_decrypted := False \<rparr>)"

definition decode_multipart :: "meshcore_packet \<Rightarrow> mesh_event \<Rightarrow> bool \<times> mesh_event" where
  "decode_multipart pkt ev =
     (let p = pk_payload pkt; m = (ev_mc ev)\<lparr> mc_type_name := ''MULTIPART'' \<rparr>
      in if length p < 1 then (False, ev\<lparr> ev_mc := m \<rparr>)
         else let b0 = p ! 0;
                  m = m\<lparr> mc_multipart_remaining := drop_bit 4 b0, mc_multipart_inner_type := uint (b0 AND 0x0F) \<rparr>
              in if mc_multipart_inner_type m = MC_PAYLOAD_ACK \<and> length p \<ge> 5
                 then (True, ev\<lparr> ev_mc := m\<lparr> mc_timestamp := rd_le32 (drop 1 p) \<rparr>, ev_decrypted := True \<rparr>)
                 else (True, ev\<lparr> ev_mc := m, ev_decrypted := False \<rparr>))"

definition decode_control :: "meshcore_packet \<Rightarrow> mesh_event \<Rightarrow> bool \<times> mesh_event" where
  "decode_control pkt ev =
     (let p = pk_payload pkt; m = (ev_mc ev)\<lparr> mc_type_name := ''CONTROL'' \<rparr>
      in if length p < 1 then (False, ev\<lparr> ev_mc := m \<rparr>)
         else let b0 = p ! 0; subtype = b0 AND 0xF0
              in if subtype = 0x80 \<and> length p \<ge> 6
                 then (let m = m\<lparr> mc_ctl_subtype := ''NODE_DISCOVER_REQ'', mc_ctl_filter := p ! 1, mc_ctl_tag := rd_le32 (drop 2 p) \<rparr>;
                           m = (if length p \<ge> 10 then m\<lparr> mc_ctl_since := rd_le32 (drop 6 p) \<rparr> else m)
                       in (True, ev\<lparr> ev_mc := m, ev_decrypted := True \<rparr>))
                 else if subtype = 0x90 \<and> length p \<ge> 6 + MC_PUB_KEY_SIZE
                 then (True, ev\<lparr> ev_mc := m\<lparr> mc_ctl_subtype := ''NODE_DISCOVER_RESP'', mc_adv_type := b0 AND 0x0F,
                                   mc_ctl_snr_q4 := sint (p ! 1), mc_ctl_tag := rd_le32 (drop 2 p),
                                   mc_pubkey := take MC_PUB_KEY_SIZE (drop 6 p) \<rparr>, ev_decrypted := True \<rparr>)
                 else (True, ev\<lparr> ev_mc := m, ev_decrypted := False \<rparr>))"

subsection \<open>The entry point\<close>

definition meshcore_dispatch ::
  "verifier \<Rightarrow> keyed \<Rightarrow> keyed \<Rightarrow> meshcore_packet \<Rightarrow> channelset option \<Rightarrow> mesh_event \<Rightarrow> bool \<times> mesh_event" where
  "meshcore_dispatch sig hmac ecb pkt channels ev =
     (let t = pk_payload_type pkt
      in if t = MC_PAYLOAD_ADVERT then meshcore_decode_advert sig pkt ev
         else if t = MC_PAYLOAD_TRACE then meshcore_decode_trace pkt ev
         else if t = MC_PAYLOAD_GRP_TXT then meshcore_decode_grp_txt hmac ecb pkt channels ev
         else if t = MC_PAYLOAD_GRP_DATA then meshcore_decode_grp_data hmac ecb pkt channels ev
         else if t = MC_PAYLOAD_ACK then decode_ack pkt ev
         else if t = MC_PAYLOAD_TXT_MSG \<or> t = MC_PAYLOAD_REQ \<or> t = MC_PAYLOAD_RESPONSE \<or> t = MC_PAYLOAD_PATH
         then decode_envelope_only pkt (mc_payload_type_name t) False ev
         else if t = MC_PAYLOAD_ANON_REQ then decode_envelope_only pkt ''ANON_REQ'' True ev
         else if t = MC_PAYLOAD_MULTIPART then decode_multipart pkt ev
         else if t = MC_PAYLOAD_CONTROL then decode_control pkt ev
         else decode_unknown pkt ev)"

text \<open>The event with everything but the payload, before the region lookup.\<close>

definition meshcore_base_event :: "bytes \<Rightarrow> radio \<Rightarrow> meshcore_packet \<Rightarrow> mesh_event" where
  "meshcore_base_event frame r pkt =
     mesh_event0\<lparr> ev_rssi_db := rd_rssi_db r, ev_snr_db := rd_snr_db r, ev_sf := rd_sf r, ev_cr := rd_cr r,
       ev_bw_hz := rd_bw_hz r, ev_slot_id := -1, ev_raw_hex := hex_dump (take 256 frame) 0 513,
       ev_mc := mc_event0\<lparr> is_meshcore := True, mc_route_type := pk_route_type pkt, mc_payload_type := pk_payload_type pkt,
         mc_payload_ver := pk_payload_ver pkt, mc_hdr_path_hash_count := pk_path_hash_count pkt,
         mc_hdr_path_hash_size := pk_path_hash_size pkt, mc_hdr_path := take 64 (pk_path pkt),
         mc_has_region_scope := pk_has_transport_codes pkt \<rparr> \<rparr>"

text \<open>The region codes and the cached name; a miss goes to the background worker.\<close>

definition meshcore_region_scope ::
  "keyed \<Rightarrow> meshcore_packet \<Rightarrow> mesh_event \<Rightarrow> region_dict \<Rightarrow> mesh_event \<times> region_dict" where
  "meshcore_region_scope hmac pkt ev d =
     (if pk_has_transport_codes pkt
      then let m = (ev_mc ev)\<lparr> mc_region_code1 := pk_transport_code1 pkt, mc_region_code2 := pk_transport_code2 pkt \<rparr>;
               t = word_of_int (pk_payload_type pkt)
           in case meshcore_region_resolve_fast hmac (rr_confirmed d) t (pk_payload pkt) (pk_transport_code1 pkt) 32 of
                Some name \<Rightarrow> (ev\<lparr> ev_mc := m\<lparr> mc_region_name := name \<rparr> \<rparr>, d)
              | None \<Rightarrow> (ev\<lparr> ev_mc := m \<rparr>, meshcore_region_dict_enqueue d t (pk_payload pkt) (pk_transport_code1 pkt))
      else (ev, d))"

text \<open>
  The return code, the callback's events, the region dictionary and the frames sent to the
  search for hashtag channels.
\<close>

definition meshcore_packet_decode_with_radio ::
  "verifier \<Rightarrow> keyed \<Rightarrow> keyed \<Rightarrow> bytes \<Rightarrow> radio \<Rightarrow> channelset option \<Rightarrow> bool \<Rightarrow> region_dict \<Rightarrow>
     int \<times> mesh_event list \<times> region_dict \<times> (bytes \<times> radio) list" where
  "meshcore_packet_decode_with_radio sig hmac ecb frame r channels cb d =
     (case meshcore_packet_parse frame of
        None \<Rightarrow> (-1, [], d, [])
      | Some pkt \<Rightarrow>
          (case meshcore_region_scope hmac pkt (meshcore_base_event frame r pkt) d of
             (ev, d) \<Rightarrow>
               (case meshcore_dispatch sig hmac ecb pkt channels ev of
                  (ok, ev) \<Rightarrow>
                    if \<not> ok then (-1, [], d, [])
                    else (0, if cb then [ev] else [], d,
                          if (pk_payload_type pkt = MC_PAYLOAD_GRP_TXT \<or> pk_payload_type pkt = MC_PAYLOAD_GRP_DATA) \<and> \<not> ev_decrypted ev
                          then [(frame, r)] else []))))"

definition mesh_event_crc2bit_trusted :: "mesh_event \<Rightarrow> bool" where
  "mesh_event_crc2bit_trusted ev =
     (let m = ev_mc ev
      in if \<not> is_meshcore m then False
         else if (mc_payload_type m = MC_PAYLOAD_GRP_TXT \<or> mc_payload_type m = MC_PAYLOAD_GRP_DATA) \<and> ev_decrypted ev then True
         else if mc_payload_type m = MC_PAYLOAD_ADVERT \<and> mc_sig_valid m then True
         else False)"

subsection \<open>Every event fits its structure\<close>

text \<open>The array sizes of the event: strings leave room for the terminator, byte tables have their full length.\<close>

definition mc_fits :: "mc_event \<Rightarrow> bool" where
  "mc_fits m \<longleftrightarrow> length (mc_type_name m) < 16 \<and> length (mc_node_name m) < 40 \<and> length (mc_text m) < 256
     \<and> length (mc_pubkey m) = 32 \<and> length (mc_path_snrs m) = 64 \<and> length (mc_path_hashes m) = 64
     \<and> mc_path_hop_count m \<le> 64 \<and> length (mc_hdr_path m) \<le> 64 \<and> length (mc_telemetry_json m) < 1024
     \<and> length (mc_region_name m) < 32 \<and> length (mc_ctl_subtype m) < 24"

definition event_fits :: "mesh_event \<Rightarrow> bool" where
  "event_fits ev \<longleftrightarrow> length (ev_channel_name ev) < 32 \<and> length (ev_preset_name ev) < 24 \<and> length (ev_raw_hex ev) < 513
     \<and> mc_fits (ev_mc ev)"

lemma length_copy_printable: "0 < n \<Longrightarrow> length (copy_printable p n) < n"
  unfolding copy_printable_def length_map
  by (rule le_less_trans [OF length_takeWhile_le]) auto

lemma length_hex_dump: "n < cap \<Longrightarrow> n + length (hex_dump p n cap) < cap"
proof (induction p n cap rule: hex_dump.induct)
  case (2 b p n cap)
  then show ?case by (cases "n + 2 < cap") auto
qed simp

lemma length_emits: "length out < cap \<Longrightarrow> length (fst (foldl (emit cap) (out, True) ps)) < cap"
  by (auto simp: emit_all)

lemma length_to_text: "0 < cap \<Longrightarrow> length (snd (meshcore_lpp_to_text rs cap)) < cap"
  using length_emits [of "[]" cap "map (\<lambda>i. text_record i (rs ! i)) [0..<length rs]"]
  by (auto simp: meshcore_lpp_to_text_def split: prod.split)

lemma length_to_json: "1 < cap \<Longrightarrow> length (snd (meshcore_lpp_to_json rs cap)) < cap"
  by (auto simp: to_json_text)

lemmas size_defs = MC_PUB_KEY_SIZE_def MC_SIGNATURE_SIZE_def MC_MAX_PACKET_PAYLOAD_def MC_MAX_PATH_SIZE_def MC_CIPHER_MAC_SIZE_def

lemma advert_fits: "mc_fits m \<Longrightarrow> mc_fits (advert_app_data app m)"
  by (auto simp: advert_app_data_def advert_name_def advert_feat_def advert_latlon_def mc_fits_def Let_def
      length_copy_printable split: list.split)

lemma decode_advert_fits: "event_fits ev \<Longrightarrow> event_fits (snd (meshcore_decode_advert sig pkt ev))"
  using advert_fits by (auto simp: meshcore_decode_advert_def event_fits_def Let_def size_defs mc_fits_def)

lemma decode_trace_fits: "event_fits ev \<Longrightarrow> event_fits (snd (meshcore_decode_trace pkt ev))"
  by (auto simp: meshcore_decode_trace_def event_fits_def Let_def size_defs mc_fits_def)

lemma decode_grp_txt_fits: "event_fits ev \<Longrightarrow> event_fits (snd (meshcore_decode_grp_txt hmac ecb pkt cs ev))"
  by (auto simp: meshcore_decode_grp_txt_def event_fits_def Let_def mc_fits_def grp_undecrypted_def length_copy_printable
      split: option.split)

lemma decode_grp_data_fits: "event_fits ev \<Longrightarrow> event_fits (snd (meshcore_decode_grp_data hmac ecb pkt cs ev))"
  using length_hex_dump [of 0 256]
  by (auto simp: meshcore_decode_grp_data_def event_fits_def Let_def mc_fits_def grp_undecrypted_def length_to_text length_to_json
      split: option.split)

lemma decode_rest_fits:
  assumes "event_fits ev"
  shows "event_fits (snd (decode_envelope_only pkt name b ev))" "event_fits (snd (decode_ack pkt ev))"
    "event_fits (snd (decode_unknown pkt ev))" "event_fits (snd (decode_multipart pkt ev))" "event_fits (snd (decode_control pkt ev))"
  using assms
  by (auto simp: decode_envelope_only_def decode_ack_def decode_unknown_def decode_multipart_def decode_control_def
      event_fits_def Let_def mc_fits_def size_defs)

lemma dispatch_fits: "event_fits ev \<Longrightarrow> event_fits (snd (meshcore_dispatch sig hmac ecb pkt cs ev))"
  unfolding meshcore_dispatch_def Let_def
  by (simp add: decode_advert_fits decode_trace_fits decode_grp_txt_fits decode_grp_data_fits decode_rest_fits)

lemma base_event_fits: "event_fits (meshcore_base_event frame r pkt)"
  using length_hex_dump [of 0 513 "take 256 frame"]
  by (simp add: event_fits_def meshcore_base_event_def mc_fits_def mc_event0_def mesh_event0_def)

lemma region_scope_fits: "event_fits ev \<Longrightarrow> event_fits (fst (meshcore_region_scope hmac pkt ev d))"
  by (auto simp: meshcore_region_scope_def Let_def event_fits_def mc_fits_def meshcore_region_resolve_fast_def
      split: option.split if_splits)

text \<open>The Meshtastic decoder leaves the text fields and the MeshCore part alone.\<close>

lemma envelope_keeps:
  "(ev_channel_name (snd (parse_data_envelope buf ev)), ev_preset_name (snd (parse_data_envelope buf ev)),
    ev_raw_hex (snd (parse_data_envelope buf ev)), ev_mc (snd (parse_data_envelope buf ev)))
   = (ev_channel_name ev, ev_preset_name ev, ev_raw_hex ev, ev_mc ev)" (is "?sel (snd _) = _")
proof -
  let ?ev = "ev\<lparr> ev_portnum := 0, ev_payload := None, ev_request_id := 0, ev_reply_id := 0, ev_want_response := False \<rparr>"
  have "(\<lambda>s. ?sel s = ?sel ev) (snd (pb_loop envelope_field ?ev buf))"
    by (rule pb_loop_invariant) (auto simp: envelope_field_def on_read_def on_skip_def split: option.splits prod.splits if_splits)
  then show ?thesis by (auto simp: parse_data_envelope_def Let_def split: prod.split pb_end.split)
qed

lemma try_keys_entry: "try_keys ctr ks ev inp i bucket = Some cand \<Longrightarrow> \<exists>e. try_key ctr ev inp e = Some cand"
  by (induction ctr ks ev inp i bucket rule: try_keys.induct) (auto split: if_splits option.splits)

lemma try_key_keeps:
  assumes "try_key ctr ev inp e = Some cand"
  shows "ev_mc cand = ev_mc ev" "event_fits ev \<Longrightarrow> event_fits cand"
proof -
  obtain plaintext c where c: "parse_data_envelope plaintext ev = (True, c)"
      "cand = c\<lparr> ev_decrypted := True, ev_channel_name := take 31 (ke_channel_name e) \<rparr>"
    using assms by (auto simp: try_key_def Let_def split: option.splits prod.splits bool.splits)
  then show "ev_mc cand = ev_mc ev" "event_fits ev \<Longrightarrow> event_fits cand"
    using envelope_keeps [of plaintext ev] by (auto simp: event_fits_def)
qed

lemma radio_event_fits: "event_fits (radio_event frame r)" "ev_mc (radio_event frame r) = mc_event0"
proof -
  have "length (preset_of_radio s c b) < 24" for s c b
    by (auto simp: preset_of_radio_def min_def split: option.split)
  then show "event_fits (radio_event frame r)" "ev_mc (radio_event frame r) = mc_event0"
    using length_hex_dump [of 0 513 "take 256 frame"]
    by (simp_all add: event_fits_def radio_event_def parse_header_def Let_def mc_fits_def mc_event0_def mesh_event0_def)
qed

lemma meshtastic_events:
  assumes "ev \<in> set (fst (snd (mesh_packet_decode_with_radio ctr frame r keys cb)))"
  shows "event_fits ev \<and> ev_mc ev = mc_event0"
proof -
  have "event_fits (e\<lparr> ev_decrypted := b \<rparr>) = event_fits e" for e b by (simp add: event_fits_def)
  then show ?thesis
    using assms radio_event_fits [of frame r]
    by (auto simp: mesh_packet_decode_with_radio_def Let_def split: if_splits option.splits
        dest!: try_keys_entry dest: try_key_keeps)
qed

text \<open>
  C30: no frame overflows an event.  Whatever bytes are received and whatever keys and channels are
  configured, every event of the Meshtastic and of the MeshCore decoder respects the array
  sizes of the event structure: each string leaves room for its terminator, and the path,
  key and hop tables are filled within their bounds.
\<close>

theorem decoded_events_fit:
  "list_all event_fits (fst (snd (mesh_packet_decode_with_radio ctr frame r keys cb)))
   \<and> list_all event_fits (fst (snd (meshcore_packet_decode_with_radio sig hmac ecb frame r channels cb d)))"
proof
  show "list_all event_fits (fst (snd (mesh_packet_decode_with_radio ctr frame r keys cb)))"
    using meshtastic_events by (auto simp: list_all_iff)
  have "event_fits (snd (meshcore_dispatch sig hmac ecb pkt channels (fst (meshcore_region_scope hmac pkt (meshcore_base_event frame r pkt) d))))" for pkt
    by (intro dispatch_fits region_scope_fits base_event_fits)
  then show "list_all event_fits (fst (snd (meshcore_packet_decode_with_radio sig hmac ecb frame r channels cb d)))"
    unfolding meshcore_packet_decode_with_radio_def by (auto split: option.split prod.split) (metis fst_conv snd_conv)+
qed

subsection \<open>Trust after a two-bit repair\<close>

definition mac_ok :: "keyed \<Rightarrow> bytes \<Rightarrow> bytes \<Rightarrow> bool" where
  "mac_ok hmac secret enc_with_mac =
     (case hmac (zero_pad 32 secret) (drop 2 enc_with_mac) of
        None \<Rightarrow> False
      | Some full \<Rightarrow> 2 \<le> length full \<and> 2 \<le> length enc_with_mac \<and> take 2 full = take 2 enc_with_mac)"

text \<open>The signature covers the transmitted public key, time stamp and application data, byte for byte.\<close>

definition signature_ok :: "verifier \<Rightarrow> bytes \<Rightarrow> bool" where
  "signature_ok sig p \<longleftrightarrow> 100 \<le> length p \<and> sig (take 32 p) (take 36 p @ drop 100 p) (take 64 (drop 36 p))"

lemma verify_mac: "meshcore_verify_and_decrypt hmac ecb secret enc = Some plain \<Longrightarrow> mac_ok hmac secret enc"
  by (auto simp: meshcore_verify_and_decrypt_def mac_ok_def Let_def size_defs split: if_splits option.splits)

lemma first_some_Some: "first_some f xs = Some y \<Longrightarrow> \<exists>x \<in> set xs. f x = Some y"
  by (induction xs) (auto split: option.splits)

lemma lookup_range: "i \<in> set (meshcore_channelset_lookup cs h n) \<Longrightarrow> i < length cs"
  unfolding meshcore_channelset_lookup_def by (drule in_set_takeD) auto

lemma grp_decrypt_mac:
  assumes "grp_decrypt hmac ecb pkt channels = Some (plain, i)"
  shows "\<exists>cs. channels = Some cs \<and> i < length cs \<and> mac_ok hmac (ch_secret (cs ! i)) (tl (pk_payload pkt))"
  using assms by (auto simp: grp_decrypt_def Let_def split: if_splits option.splits dest!: first_some_Some
      dest: lookup_range verify_mac)

lemma le32_bytes:
  assumes len: "4 \<le> length p"
  shows "[ucast (rd_le32 p), ucast (drop_bit 8 (rd_le32 p)), ucast (drop_bit 16 (rd_le32 p)), ucast (drop_bit 24 (rd_le32 p))] = take 4 p"
proof -
  obtain a b c d q where p: "p = a # b # c # d # q" using four_bytes [OF len] by blast
  have "ucast (rd_le32 p) = a" "ucast (drop_bit 8 (rd_le32 p)) = b" "ucast (drop_bit 16 (rd_le32 p)) = c" "ucast (drop_bit 24 (rd_le32 p)) = d"
    by (rule bit_word_eqI, auto simp: p rd_le32_def bit_or_iff bit_push_bit_iff bit_ucast_iff bit_drop_bit_eq byte_bit_high)+
  then show ?thesis by (simp add: p)
qed

lemma advert_sig:
  assumes "meshcore_decode_advert sig pkt ev = (True, ev')" "mc_sig_valid (ev_mc ev')"
  shows "signature_ok sig (pk_payload pkt)"
proof -
  let ?p = "pk_payload pkt"
  have len: "100 \<le> length ?p" using assms(1) by (auto simp: meshcore_decode_advert_def Let_def size_defs split: if_splits)
  have keep: "mc_sig_valid (advert_app_data app m) = mc_sig_valid m" for app m
    by (auto simp: advert_app_data_def advert_name_def advert_feat_def advert_latlon_def Let_def split: list.split)
  have "sig (take 32 ?p) (advert_message (take 32 ?p) (rd_le32 (drop 32 ?p)) (drop 100 ?p)) (take 64 (drop 36 ?p))"
    using assms len by (auto simp: meshcore_decode_advert_def Let_def size_defs keep meshcore_advert_verify_signature_def split: if_splits)
  moreover have "advert_message (take 32 ?p) (rd_le32 (drop 32 ?p)) (drop 100 ?p) = take 36 ?p @ drop 100 ?p"
    unfolding advert_message_def using le32_bytes [of "drop 32 ?p"] len by (simp add: take_add [of 32 4, simplified])
  ultimately show ?thesis using len by (simp add: signature_ok_def)
qed

definition same_kind :: "mesh_event \<Rightarrow> mesh_event \<Rightarrow> bool" where
  "same_kind ev ev' \<longleftrightarrow> is_meshcore (ev_mc ev') = is_meshcore (ev_mc ev) \<and> mc_payload_type (ev_mc ev') = mc_payload_type (ev_mc ev)"

lemma advert_same_kind: "same_kind ev (snd (meshcore_decode_advert sig pkt ev))"
proof -
  have "is_meshcore (advert_app_data app m) = is_meshcore m" "mc_payload_type (advert_app_data app m) = mc_payload_type m" for app m
    by (auto simp: advert_app_data_def advert_name_def advert_feat_def advert_latlon_def Let_def split: list.split)
  then show ?thesis by (simp add: same_kind_def meshcore_decode_advert_def Let_def)
qed

lemma grp_same_kind:
  "same_kind ev (snd (meshcore_decode_grp_txt hmac ecb pkt cs ev))" "same_kind ev (snd (meshcore_decode_grp_data hmac ecb pkt cs ev))"
  by (simp_all add: same_kind_def meshcore_decode_grp_txt_def meshcore_decode_grp_data_def grp_undecrypted_def Let_def split: option.split)

lemma rest_same_kind:
  "same_kind ev (snd (meshcore_decode_trace pkt ev))" "same_kind ev (snd (decode_envelope_only pkt name b ev))"
  "same_kind ev (snd (decode_ack pkt ev))" "same_kind ev (snd (decode_unknown pkt ev))"
  "same_kind ev (snd (decode_multipart pkt ev))" "same_kind ev (snd (decode_control pkt ev))"
  by (simp_all add: same_kind_def meshcore_decode_trace_def decode_envelope_only_def decode_ack_def decode_unknown_def
      decode_multipart_def decode_control_def Let_def)

lemma dispatch_same_kind: "same_kind ev (snd (meshcore_dispatch sig hmac ecb pkt cs ev))"
  unfolding meshcore_dispatch_def Let_def by (simp add: advert_same_kind grp_same_kind rest_same_kind)

lemma scope_same_kind: "same_kind ev (fst (meshcore_region_scope hmac pkt ev d))"
  by (simp add: same_kind_def meshcore_region_scope_def Let_def split: option.split)

lemma grp_decrypted:
  assumes "meshcore_decode_grp_txt hmac ecb pkt channels ev = (True, ev') \<or> meshcore_decode_grp_data hmac ecb pkt channels ev = (True, ev')"
    and "ev_decrypted ev'"
  shows "\<exists>cs. channels = Some cs \<and> (\<exists>e \<in> set cs. mac_ok hmac (ch_secret e) (tl (pk_payload pkt)))"
proof -
  have "grp_decrypt hmac ecb pkt channels \<noteq> None"
  proof
    assume "grp_decrypt hmac ecb pkt channels = None"
    then show False
      using assms by (auto simp: meshcore_decode_grp_txt_def meshcore_decode_grp_data_def grp_undecrypted_def)
  qed
  then show ?thesis using grp_decrypt_mac by fastforce
qed

lemma mc_trusted_authentic:
  assumes "ev \<in> set (fst (snd (meshcore_packet_decode_with_radio sig hmac ecb frame r channels cb d)))"
    and "mesh_event_crc2bit_trusted ev"
  shows "\<exists>pkt. meshcore_packet_parse frame = Some pkt
      \<and> ((\<exists>cs. channels = Some cs \<and> (\<exists>e \<in> set cs. mac_ok hmac (ch_secret e) (tl (pk_payload pkt))))
         \<or> pk_payload_type pkt = MC_PAYLOAD_ADVERT \<and> signature_ok sig (pk_payload pkt))"
proof -
  obtain pkt ev1 where pkt: "meshcore_packet_parse frame = Some pkt"
    and ev1: "ev1 = fst (meshcore_region_scope hmac pkt (meshcore_base_event frame r pkt) d)"
    and disp: "meshcore_dispatch sig hmac ecb pkt channels ev1 = (True, ev)"
    using assms(1) by (auto simp: meshcore_packet_decode_with_radio_def split: option.splits prod.splits if_splits)
  have "same_kind ev1 ev" using dispatch_same_kind [of ev1 sig hmac ecb pkt channels] disp by simp
  moreover have "same_kind (meshcore_base_event frame r pkt) ev1" unfolding ev1 by (rule scope_same_kind)
  ultimately have t: "mc_payload_type (ev_mc ev) = pk_payload_type pkt"
    by (simp add: same_kind_def meshcore_base_event_def mc_event0_def)
  have "(\<exists>cs. channels = Some cs \<and> (\<exists>e \<in> set cs. mac_ok hmac (ch_secret e) (tl (pk_payload pkt))))
      \<or> pk_payload_type pkt = MC_PAYLOAD_ADVERT \<and> signature_ok sig (pk_payload pkt)"
  proof (cases "pk_payload_type pkt = MC_PAYLOAD_ADVERT")
    case True
    then show ?thesis using disp assms(2) t advert_sig
      by (fastforce simp: meshcore_dispatch_def mesh_event_crc2bit_trusted_def Let_def split: if_splits)
  next
    case False
    then have "pk_payload_type pkt \<in> {MC_PAYLOAD_GRP_TXT, MC_PAYLOAD_GRP_DATA}" "ev_decrypted ev"
      using assms(2) t by (auto simp: mesh_event_crc2bit_trusted_def Let_def split: if_splits)
    then show ?thesis using disp grp_decrypted [of hmac ecb pkt channels ev1 ev] by (auto simp: meshcore_dispatch_def Let_def)
  qed
  then show ?thesis using pkt by blast
qed

lemma meshtastic_untrusted:
  "ev \<in> set (fst (snd (mesh_packet_decode_with_radio ctr frame r keys cb))) \<Longrightarrow> \<not> mesh_event_crc2bit_trusted ev"
  using meshtastic_events by (simp add: mesh_event_crc2bit_trusted_def mc_event0_def)

subsection \<open>A group message arrives\<close>

lemma first_some_None: "first_some f xs = None \<longleftrightarrow> (\<forall>x \<in> set xs. f x = None)"
  by (induction xs) (auto split: option.splits)

lemma lookup_covers: "length cs \<le> n \<Longrightarrow> set (meshcore_channelset_lookup cs h n) = {0..<length cs}"
proof -
  assume len: "length cs \<le> n"
  have "length (filter P xs) + length (filter (\<lambda>x. \<not> P x) xs) = length xs" for P and xs :: "nat list"
    by (rule sum_length_filter_compl)
  from this [of "\<lambda>i. ch_hash (cs ! i) = h" "[0..<length cs]"] len
  show ?thesis by (auto simp: meshcore_channelset_lookup_def)
qed

lemma grp_decrypt_found:
  assumes inv: "channel_inv sha cs" and e: "e \<in> set cs"
    and payload: "pk_payload pkt = h # enc" "2 \<le> length enc"
    and opened: "meshcore_verify_and_decrypt hmac ecb (ch_secret e) enc = Some plain"
    and others: "\<And>e'. e' \<in> set cs \<Longrightarrow> e' \<noteq> e \<Longrightarrow> meshcore_verify_and_decrypt hmac ecb (ch_secret e') enc = None"
  shows "\<exists>i < length cs. cs ! i = e \<and> grp_decrypt hmac ecb pkt (Some cs) = Some (plain, i)"
proof -
  let ?f = "\<lambda>i. map_option (\<lambda>plain. (plain, i)) (meshcore_verify_and_decrypt hmac ecb (ch_secret (cs ! i)) enc)"
  have range: "set (meshcore_channelset_lookup cs h 32) = {0..<length cs}"
    using inv by (intro lookup_covers) (simp add: channel_inv_def MC_CHANNEL_MAX_ENTRIES_def)
  obtain j where "j < length cs" "cs ! j = e" using e by (auto simp: in_set_conv_nth)
  then have "first_some ?f (meshcore_channelset_lookup cs h 32) \<noteq> None"
    using opened range by (auto simp: first_some_None)
  then obtain r where r: "first_some ?f (meshcore_channelset_lookup cs h 32) = Some r" by blast
  obtain i where i: "i < length cs" "?f i = Some r" using first_some_Some [OF r] range by auto
  have "cs ! i = e" using i others [of "cs ! i"] by (cases "cs ! i = e") auto
  then show ?thesis using i r payload opened
    by (auto simp: grp_decrypt_def MC_CIPHER_MAC_SIZE_def MC_CHANNEL_MAX_ENTRIES_def Let_def)
qed

lemma length_mc_encrypt:
  assumes "crypto_ok hmac enc ecb" "secret_len_ok secret"
  shows "length (mc_encrypt hmac enc secret msg) = 2 + padded_len (length msg)"
proof -
  define c where "c = enc (take 16 secret) (zero_pad (padded_len (length msg)) msg)"
  have key: "length (take 16 secret) = 16" "length (zero_pad 32 secret) = 32" using assms(2) by (auto simp: secret_len_ok_def)
  have "length c = padded_len (length msg)"
    using assms(1) key padded_len(1,2) [of "length msg"] unfolding crypto_ok_def c_def by (metis length_zero_pad)
  moreover obtain d where "hmac (zero_pad 32 secret) c = Some d" "length d = 32"
    using assms(1) key unfolding crypto_ok_def by blast
  ultimately show ?thesis by (simp add: mc_encrypt_def Let_def c_def)
qed

lemma copy_printable_text:
  assumes "0 \<notin> set text" "length text < 256"
  shows "copy_printable (text @ replicate n 0) 256 = map (\<lambda>c. char_of (unat c)) text"
proof -
  have "takeWhile (\<lambda>c. c \<noteq> 0) (take 255 (text @ replicate n 0)) = text"
    using assms by (subst take_append) (auto simp: takeWhile_append takeWhile_eq_all_conv min_def)
  then show ?thesis by (simp add: copy_printable_def)
qed

text \<open>The plaintext of a group text: time stamp, type byte, text.\<close>

definition group_text :: "u32 \<Rightarrow> byte \<Rightarrow> bytes \<Rightarrow> bytes" where
  "group_text ts ty text = le_bytes 4 ts @ ty # text"

lemma decode_group_text:
  assumes "grp_decrypt hmac ecb pkt (Some cs) = Some (zero_pad (padded_len (length (group_text ts ty text))) (group_text ts ty text), i)"
    and "unat ty < 4" "0 \<notin> set text" "length text < 256" "length (ch_name (cs ! i)) < 32"
  shows "\<exists>ev'. meshcore_decode_grp_txt hmac ecb pkt (Some cs) ev = (True, ev') \<and> ev_decrypted ev'
    \<and> ev_channel_name ev' = ch_name (cs ! i) \<and> mc_text (ev_mc ev') = map (\<lambda>c. char_of (unat c)) text
    \<and> mc_timestamp (ev_mc ev') = ts \<and> mc_txt_type (ev_mc ev') = ty"
proof -
  obtain n where plain: "zero_pad (padded_len (length (group_text ts ty text))) (group_text ts ty text) = le_bytes 4 ts @ ty # text @ replicate n 0"
    by (simp add: zero_pad_def group_text_def)
  have ty: "drop_bit 2 ty = 0"
  proof -
    have "unat (drop_bit 2 ty) = unat ty div 4" unfolding unat_drop_bit_eq by (simp add: drop_bit_eq_div)
    then have "unat (drop_bit 2 ty) = 0" using assms(2) by simp
    then show ?thesis by (simp add: unat_eq_zero)
  qed
  have drop: "drop 5 (le_bytes 4 ts @ ty # text @ replicate n 0) = text @ replicate n 0" by (simp add: drop_Cons')
  show ?thesis
    using assms(1,5) ty copy_printable_text [OF assms(3,4), of n] drop
    by (simp add: meshcore_decode_grp_txt_def plain rd_le32_le_bytes Let_def)
qed

lemma group_text_received:
  assumes crypto: "crypto_ok hmac enc ecb" and inv: "channel_inv sha cs" and e: "e \<in> set cs"
    and body: "unat ty < 4" "0 \<notin> set text"
    and pkt: "packet_ok pkt" "pk_payload pkt = h # mc_encrypt hmac enc (ch_secret e) (group_text ts ty text)"
    and others: "\<And>e'. e' \<in> set cs \<Longrightarrow> e' \<noteq> e \<Longrightarrow> meshcore_verify_and_decrypt hmac ecb (ch_secret e') (tl (pk_payload pkt)) = None"
  shows "\<exists>ev. meshcore_decode_grp_txt hmac ecb pkt (Some cs) ev1 = (True, ev) \<and> ev_decrypted ev \<and> ev_channel_name ev = ch_name e
    \<and> mc_text (ev_mc ev) = map (\<lambda>c. char_of (unat c)) text \<and> mc_timestamp (ev_mc ev) = ts \<and> mc_txt_type (ev_mc ev) = ty"
proof -
  let ?msg = "group_text ts ty text"
  have ok: "secret_len_ok (ch_secret e)" "length (ch_name e) < 32"
    using inv e by (auto simp: channel_inv_def list_all_iff channel_ok_def MC_CHANNEL_MAX_NAME_def)
  note len = length_mc_encrypt [OF crypto ok(1), of ?msg]
  have "length (pk_payload pkt) \<le> 184" using pkt(1) by (simp add: packet_ok_def)
  then have fits: "length ?msg \<le> 181" using len padded_len(1) [of "length ?msg"] by (simp add: pkt(2))
  then have short: "length text < 256" by (simp add: group_text_def)
  have enc: "meshcore_verify_and_decrypt hmac ecb (ch_secret e) (tl (pk_payload pkt)) = Some (zero_pad (padded_len (length ?msg)) ?msg)"
    unfolding pkt(2) list.sel using fits by (intro decrypt_encrypt [OF crypto ok(1)]) simp
  obtain i where i: "i < length cs" "cs ! i = e"
      "grp_decrypt hmac ecb pkt (Some cs) = Some (zero_pad (padded_len (length ?msg)) ?msg, i)"
    using grp_decrypt_found [OF inv e, of pkt h "tl (pk_payload pkt)" hmac ecb] enc len others by (auto simp: pkt(2))
  show ?thesis using decode_group_text [OF i(3) body short] i(2) ok(2) by metis
qed

text \<open>A group message under stand-ins for the cryptographic functions.\<close>

definition sample_hmac :: keyed where
  "sample_hmac key msg = Some (replicate 32 (of_nat (length msg)))"

definition sample_ecb :: keyed where
  "sample_ecb key msg = Some (rev msg)"

definition sample_channel :: meshcore_channel where
  "sample_channel = \<lparr> ch_name = ''#test'', ch_secret = replicate 16 1, ch_hash = 9 \<rparr>"

definition sample_group_packet :: meshcore_packet where
  "sample_group_packet = \<lparr> pk_route_type = 1, pk_payload_type = 5, pk_payload_ver = 0, pk_has_transport_codes = False,
     pk_transport_code1 = 0, pk_transport_code2 = 0, pk_path = [0xAB], pk_path_hash_count = 1, pk_path_hash_size = 1,
     pk_payload = 9 # mc_encrypt sample_hmac (\<lambda>key. rev) (ch_secret sample_channel) (group_text 77 0 [72, 105]) \<rparr>"

lemma sample_crypto: "crypto_ok sample_hmac (\<lambda>key. rev) sample_ecb"
  by (simp add: crypto_ok_def sample_hmac_def sample_ecb_def)

lemma sample_channel_inv: "channel_inv (\<lambda>s. Some [9]) [sample_channel]"
  by (simp add: channel_inv_def channel_ok_def sample_channel_def secret_len_ok_def meshcore_channel_hash_def MC_CHANNEL_MAX_ENTRIES_def MC_CHANNEL_MAX_NAME_def)

lemma sample_packet_ok: "packet_ok sample_group_packet"
proof -
  have "secret_len_ok (ch_secret sample_channel)" by (simp add: sample_channel_def secret_len_ok_def)
  then have "length (pk_payload sample_group_packet) = 19"
    using length_mc_encrypt [OF sample_crypto, of "ch_secret sample_channel" "group_text 77 0 [72, 105]"]
    by (simp add: sample_group_packet_def group_text_def padded_len_def MC_CIPHER_BLOCK_SIZE_def)
  then show ?thesis
    by (simp add: sample_group_packet_def packet_ok_def mc_route_has_transport_codes_def MC_ROUTE_TRANSPORT_FLOOD_def MC_ROUTE_TRANSPORT_DIRECT_def)
qed

lemma sample_text: "map (\<lambda>c. char_of (unat c)) [72, 105 :: byte] = ''Hi''"
  by (simp add: char_of_eq_iff)

text \<open>
  C29: a text sent on a configured channel arrives.  Take any MeshCore packet of type group text whose
  payload is the channel's hash byte followed by the authenticated encryption of time stamp,
  type byte and a text without zero bytes under the secret of a channel of the table, and
  assume no other channel of the table accepts it.  Decoding the frame emits exactly one
  event, with the channel's name, the time stamp, the type and the text; nothing goes to the
  search for unknown channels, and the event is trusted even after a two-bit repair.
\<close>

theorem mc_group_text_roundtrip:
  assumes crypto: "crypto_ok hmac enc ecb" and inv: "channel_inv sha cs" and e: "e \<in> set cs"
    and body: "unat ty < 4" "0 \<notin> set text"
    and pkt: "packet_ok pkt" "pk_payload_type pkt = MC_PAYLOAD_GRP_TXT"
      "pk_payload pkt = h # mc_encrypt hmac enc (ch_secret e) (group_text ts ty text)"
    and others: "\<And>e'. e' \<in> set cs \<Longrightarrow> e' \<noteq> e \<Longrightarrow> meshcore_verify_and_decrypt hmac ecb (ch_secret e') (tl (pk_payload pkt)) = None"
  shows "\<exists>ev d'. meshcore_packet_decode_with_radio sig hmac ecb (packet_bytes pkt) r (Some cs) True d = (0, [ev], d', [])
    \<and> ev_decrypted ev \<and> ev_channel_name ev = ch_name e \<and> mc_text (ev_mc ev) = map (\<lambda>c. char_of (unat c)) text
    \<and> mc_timestamp (ev_mc ev) = ts \<and> mc_txt_type (ev_mc ev) = ty \<and> mesh_event_crc2bit_trusted ev"
proof -
  let ?base = "meshcore_base_event (packet_bytes pkt) r pkt"
  obtain ev1 d' where scope: "meshcore_region_scope hmac pkt ?base d = (ev1, d')" by fastforce
  obtain ev where ev: "meshcore_decode_grp_txt hmac ecb pkt (Some cs) ev1 = (True, ev)" "ev_decrypted ev" "ev_channel_name ev = ch_name e"
      "mc_text (ev_mc ev) = map (\<lambda>c. char_of (unat c)) text" "mc_timestamp (ev_mc ev) = ts" "mc_txt_type (ev_mc ev) = ty"
    using group_text_received [OF crypto inv e body pkt(1,3) others] by blast
  have kind: "is_meshcore (ev_mc ev)" "mc_payload_type (ev_mc ev) = MC_PAYLOAD_GRP_TXT"
    using grp_same_kind(1) [of ev1 hmac ecb pkt "Some cs"] ev(1) scope_same_kind [of ?base hmac pkt d] scope pkt(2)
    by (simp_all add: same_kind_def meshcore_base_event_def)
  have "meshcore_packet_decode_with_radio sig hmac ecb (packet_bytes pkt) r (Some cs) True d = (0, [ev], d', [])"
    using packet_parse_bytes [OF pkt(1), of "[]"] scope ev(1,2) pkt(2)
    by (simp add: meshcore_packet_decode_with_radio_def meshcore_dispatch_def)
  then show ?thesis using ev kind by (auto simp: mesh_event_crc2bit_trusted_def)
qed

theorem mc_group_text_roundtrip_witness:
  "\<exists>ev d'. meshcore_packet_decode_with_radio (\<lambda>k m g. False) sample_hmac sample_ecb (packet_bytes sample_group_packet)
      radio0 (Some [sample_channel]) True \<lparr> rr_confirmed = [], rr_queue = \<lparr> rg_slots = [], rg_head = 0, rg_tail = 0 \<rparr> \<rparr> = (0, [ev], d', [])
    \<and> mc_text (ev_mc ev) = ''Hi'' \<and> ev_channel_name ev = ''#test''"
proof -
  have "\<exists>ev d'. meshcore_packet_decode_with_radio (\<lambda>k m g. False) sample_hmac sample_ecb (packet_bytes sample_group_packet) radio0 (Some [sample_channel]) True
      \<lparr> rr_confirmed = [], rr_queue = \<lparr> rg_slots = [], rg_head = 0, rg_tail = 0 \<rparr> \<rparr> = (0, [ev], d', [])
    \<and> ev_decrypted ev \<and> ev_channel_name ev = ch_name sample_channel \<and> mc_text (ev_mc ev) = map (\<lambda>c. char_of (unat c)) [72, 105 :: byte]
    \<and> mc_timestamp (ev_mc ev) = 77 \<and> mc_txt_type (ev_mc ev) = 0 \<and> mesh_event_crc2bit_trusted ev"
    by (rule mc_group_text_roundtrip [OF sample_crypto sample_channel_inv _ _ _ sample_packet_ok, where h = 9])
       (simp_all add: sample_group_packet_def)
  then show ?thesis unfolding sample_text by (auto simp: sample_channel_def)
qed

subsection \<open>An advertisement arrives\<close>

text \<open>What a node announces: its kind, optionally a position, two extra words and a name.\<close>

record advert =
  av_kind :: byte
  av_latlon :: "(int \<times> int) option"
  av_extra1 :: "u16 option"
  av_extra2 :: "u16 option"
  av_name :: "bytes option"

definition advert_flags :: "advert \<Rightarrow> byte" where
  "advert_flags a = (av_kind a AND 0x0F) OR (if av_latlon a = None then 0 else 0x10) OR (if av_extra1 a = None then 0 else 0x20)
     OR (if av_extra2 a = None then 0 else 0x40) OR (if av_name a = None then 0 else 0x80)"

definition advert_app :: "advert \<Rightarrow> bytes" where
  "advert_app a = advert_flags a
     # (case av_latlon a of None \<Rightarrow> [] | Some (lat, lon) \<Rightarrow> le_bytes 4 (word_of_int lat :: u32) @ le_bytes 4 (word_of_int lon :: u32))
     @ (case av_extra1 a of None \<Rightarrow> [] | Some w \<Rightarrow> le16 w) @ (case av_extra2 a of None \<Rightarrow> [] | Some w \<Rightarrow> le16 w)
     @ (case av_name a of None \<Rightarrow> [] | Some n \<Rightarrow> n)"

lemma advert_flag_bits:
  "advert_flags a AND 0x0F = av_kind a AND 0x0F" "advert_flags a AND 0x10 \<noteq> 0 \<longleftrightarrow> av_latlon a \<noteq> None"
  "advert_flags a AND 0x20 \<noteq> 0 \<longleftrightarrow> av_extra1 a \<noteq> None" "advert_flags a AND 0x40 \<noteq> 0 \<longleftrightarrow> av_extra2 a \<noteq> None"
  "advert_flags a AND 0x80 \<noteq> 0 \<longleftrightarrow> av_name a \<noteq> None"
  by (auto simp: advert_flags_def bit.conj_disj_distrib2 and.assoc)

definition advert_ok :: "advert \<Rightarrow> bool" where
  "advert_ok a \<longleftrightarrow> av_kind a AND 0x0F = av_kind a
     \<and> (case av_latlon a of None \<Rightarrow> True | Some (lat, lon) \<Rightarrow> - (2 ^ 31) \<le> lat \<and> lat < 2 ^ 31 \<and> - (2 ^ 31) \<le> lon \<and> lon < 2 ^ 31)
     \<and> (case av_name a of None \<Rightarrow> True | Some n \<Rightarrow> 0 \<notin> set n \<and> length n < 40)"

definition advert_meaning :: "advert \<Rightarrow> mc_event \<Rightarrow> mc_event" where
  "advert_meaning a m =
     (let m = m\<lparr> mc_adv_type := av_kind a \<rparr>;
          m = (case av_latlon a of
                 Some (lat, lon) \<Rightarrow> if mc_latlon_plausible lat lon then m\<lparr> mc_has_latlon := True, mc_lat_e6 := lat, mc_lon_e6 := lon \<rparr> else m
               | None \<Rightarrow> m);
          m = (case av_extra1 a of Some w \<Rightarrow> m\<lparr> mc_extra1 := w \<rparr> | None \<Rightarrow> m);
          m = (case av_extra2 a of Some w \<Rightarrow> m\<lparr> mc_extra2 := w \<rparr> | None \<Rightarrow> m)
      in case av_name a of Some n \<Rightarrow> m\<lparr> mc_has_name := True, mc_node_name := map (\<lambda>c. char_of (unat c)) n \<rparr> | None \<Rightarrow> m)"

lemma sint_word_of_int32: "- (2 ^ 31) \<le> i \<Longrightarrow> i < 2 ^ 31 \<Longrightarrow> sint (word_of_int i :: u32) = i"
  by (simp add: sint_sbintrunc' signed_take_bit_int_eq_self)

lemma latlon_step:
  assumes "drop i app = (case ll of None \<Rightarrow> [] | Some (lat, lon) \<Rightarrow> le_bytes 4 (word_of_int lat :: u32) @ le_bytes 4 (word_of_int lon :: u32)) @ rest"
    and "flags AND ADV_LATLON_MASK \<noteq> 0 \<longleftrightarrow> ll \<noteq> None" "i \<le> length app"
    and "case ll of None \<Rightarrow> True | Some (lat, lon) \<Rightarrow> - (2 ^ 31) \<le> lat \<and> lat < 2 ^ 31 \<and> - (2 ^ 31) \<le> lon \<and> lon < 2 ^ 31"
  shows "\<exists>j. advert_latlon flags app (i, m) = (j, case ll of
        Some (lat, lon) \<Rightarrow> if mc_latlon_plausible lat lon then m\<lparr> mc_has_latlon := True, mc_lat_e6 := lat, mc_lon_e6 := lon \<rparr> else m
      | None \<Rightarrow> m) \<and> drop j app = rest \<and> j \<le> length app"
proof (cases ll)
  case None
  then show ?thesis using assms by (auto simp: advert_latlon_def)
next
  case (Some p)
  obtain lat lon where p: "p = (lat, lon)" by fastforce
  have d: "drop i app = le_bytes 4 (word_of_int lat :: u32) @ le_bytes 4 (word_of_int lon :: u32) @ rest"
    using assms(1) by (simp add: Some p)
  have "length (drop i app) = 8 + length rest" unfolding d by simp
  then have len: "i + 8 \<le> length app" by simp
  have "drop 4 (drop i app) = le_bytes 4 (word_of_int lon :: u32) @ rest" unfolding d by simp
  then have d4: "drop (i + 4) app = le_bytes 4 (word_of_int lon :: u32) @ rest" by (simp add: add.commute)
  have "drop 4 (drop (i + 4) app) = rest" unfolding d4 by simp
  then have d8: "drop (i + 8) app = rest" by (simp add: add.commute)
  show ?thesis
    using assms(2,4) len by (simp add: advert_latlon_def Some p d d4 d8 rd_le32_le_bytes sint_word_of_int32 Let_def)
qed

lemma feat_step:
  assumes "drop i app = (case f of None \<Rightarrow> [] | Some w \<Rightarrow> le16 w) @ rest" "flags AND msk \<noteq> 0 \<longleftrightarrow> f \<noteq> None" "i \<le> length app"
  shows "\<exists>j. advert_feat msk put flags app (i, m) = (j, case f of Some w \<Rightarrow> put w m | None \<Rightarrow> m) \<and> drop j app = rest \<and> j \<le> length app"
proof (cases f)
  case None
  then show ?thesis using assms by (auto simp: advert_feat_def)
next
  case (Some w)
  then have d: "drop i app = le16 w @ rest" using assms(1) by simp
  have "length (drop i app) = 2 + length rest" unfolding d by (simp add: le16_def)
  then have len: "i + 2 \<le> length app" by simp
  have "drop 2 (drop i app) = rest" unfolding d by (simp add: le16_def)
  then have d2: "drop (i + 2) app = rest" by (simp add: add.commute)
  show ?thesis using assms(2) len d2 by (simp add: advert_feat_def Some d)
qed

lemma copy_printable_all: "0 \<notin> set n \<Longrightarrow> length n < 40 \<Longrightarrow> copy_printable n 40 = map (\<lambda>c. char_of (unat c)) n"
proof -
  assume "0 \<notin> set n" "length n < 40"
  then have "takeWhile (\<lambda>c. c \<noteq> 0) (take 39 n) = n" by (simp add: takeWhile_eq_all_conv) (metis)
  then show ?thesis by (simp add: copy_printable_def)
qed

lemma advert_app_data_meaning:
  assumes "advert_ok a"
  shows "advert_app_data (advert_app a) m = advert_meaning a m"
proof -
  let ?app = "advert_app a" and ?f = "advert_flags a"
  note bits = advert_flag_bits [of a]
  have kind: "?f AND ADV_TYPE_MASK = av_kind a" using assms bits by (simp add: advert_ok_def)
  have d0: "drop 1 ?app = (case av_latlon a of None \<Rightarrow> []
        | Some (lat, lon) \<Rightarrow> le_bytes 4 (word_of_int lat :: u32) @ le_bytes 4 (word_of_int lon :: u32))
      @ (case av_extra1 a of None \<Rightarrow> [] | Some w \<Rightarrow> le16 w) @ (case av_extra2 a of None \<Rightarrow> [] | Some w \<Rightarrow> le16 w)
      @ (case av_name a of None \<Rightarrow> [] | Some n \<Rightarrow> n)" and len: "1 \<le> length ?app"
    by (simp_all add: advert_app_def)
  have range: "case av_latlon a of None \<Rightarrow> True
      | Some (lat, lon) \<Rightarrow> - (2 ^ 31) \<le> lat \<and> lat < 2 ^ 31 \<and> - (2 ^ 31) \<le> lon \<and> lon < 2 ^ 31"
    using assms by (simp add: advert_ok_def)
  define m1 where "m1 = m\<lparr> mc_adv_type := av_kind a \<rparr>"
  obtain j1 m2 where s1: "advert_latlon ?f ?app (1, m1) = (j1, m2)"
      "m2 = (case av_latlon a of Some (lat, lon) \<Rightarrow>
          if mc_latlon_plausible lat lon then m1\<lparr> mc_has_latlon := True, mc_lat_e6 := lat, mc_lon_e6 := lon \<rparr> else m1 | None \<Rightarrow> m1)"
      "drop j1 ?app = (case av_extra1 a of None \<Rightarrow> [] | Some w \<Rightarrow> le16 w) @ (case av_extra2 a of None \<Rightarrow> [] | Some w \<Rightarrow> le16 w)
        @ (case av_name a of None \<Rightarrow> [] | Some n \<Rightarrow> n)" "j1 \<le> length ?app"
    using latlon_step [OF d0 bits(2) len range, of m1] by blast
  obtain j2 m3 where s2: "advert_feat ADV_FEAT1_MASK (\<lambda>w m. m\<lparr> mc_extra1 := w \<rparr>) ?f ?app (j1, m2) = (j2, m3)"
      "m3 = (case av_extra1 a of Some w \<Rightarrow> m2\<lparr> mc_extra1 := w \<rparr> | None \<Rightarrow> m2)"
      "drop j2 ?app = (case av_extra2 a of None \<Rightarrow> [] | Some w \<Rightarrow> le16 w) @ (case av_name a of None \<Rightarrow> [] | Some n \<Rightarrow> n)" "j2 \<le> length ?app"
    using feat_step [OF s1(3) bits(3) s1(4)] by blast
  obtain j3 m4 where s3: "advert_feat ADV_FEAT2_MASK (\<lambda>w m. m\<lparr> mc_extra2 := w \<rparr>) ?f ?app (j2, m3) = (j3, m4)"
      "m4 = (case av_extra2 a of Some w \<Rightarrow> m3\<lparr> mc_extra2 := w \<rparr> | None \<Rightarrow> m3)"
      "drop j3 ?app = (case av_name a of None \<Rightarrow> [] | Some n \<Rightarrow> n)" "j3 \<le> length ?app"
    using feat_step [OF s2(3) bits(4) s2(4)] by blast
  have s4: "advert_name ?f ?app (j3, m4) = (case av_name a of
      Some n \<Rightarrow> m4\<lparr> mc_has_name := True, mc_node_name := map (\<lambda>c. char_of (unat c)) n \<rparr> | None \<Rightarrow> m4)"
  proof (cases "av_name a")
    case None
    then show ?thesis using bits(5) by (simp add: advert_name_def)
  next
    case (Some n)
    moreover have "0 \<notin> set n" "length n < 40" using assms Some by (simp_all add: advert_ok_def)
    ultimately show ?thesis using bits(5) s3(3,4) by (simp add: advert_name_def copy_printable_all)
  qed
  have "advert_app_data ?app m = advert_name ?f ?app (j3, m4)"
    using kind s1(1) s2(1) s3(1) by (simp add: advert_app_data_def advert_app_def m1_def)
  also have "\<dots> = advert_meaning a m"
    unfolding s4 advert_meaning_def Let_def m1_def [symmetric] s1(2) [symmetric] s2(2) [symmetric] s3(2) [symmetric] ..
  finally show ?thesis .
qed



end
