(* ===== verification/Meshcore_Hashtag.thy ===== *)
theory Meshcore_Hashtag
  imports Meshcore_Decoders
begin

text \<open>
  The background search for hashtag channels of \<^verbatim>\<open>src/meshcore_hashtag_dict.c\<close>: the word list, the
  queue of undecrypted group frames, and the loop that tries every candidate name in its case
  variants against a frame and installs the first that opens it in the live channel table.
  A configured word list is the list of its \<^verbatim>\<open>fgets\<close> pieces.  Thread start and stop, the mutex and the
  printed report are left out; the report is the returned channel hash and name.
\<close>

definition MC_DICT_QUEUE_SIZE :: nat where "MC_DICT_QUEUE_SIZE = 128"
definition MC_DICT_FRAME_MAX_BYTES :: nat where "MC_DICT_FRAME_MAX_BYTES = 256"
definition MC_DICT_MAX_CANDIDATES :: nat where "MC_DICT_MAX_CANDIDATES = 500000"

record mc_dict_frame =
  hf_bytes :: bytes
  hf_radio :: radio

record hashtag_dict =
  hq_started :: bool
  hq_candidates :: "string list"
  hq_queue :: "mc_dict_frame ring"

subsection \<open>Candidates\<close>

definition dict_line :: "string list \<Rightarrow> string \<Rightarrow> string list" where
  "dict_line cands line =
     (if \<not> length cands < MC_DICT_MAX_CANDIDATES then cands
      else let stripped = rev (dropWhile (\<lambda>ch. ch = CHR 0x0A \<or> ch = CHR 0x0D) (rev line));
               start = dropWhile (\<lambda>ch. ch = CHR '' '' \<or> ch = CHR 0x09) stripped
           in if start = [] \<or> hd start = CHR ''#'' then cands
              else cands @ [take (MC_CHANNEL_MAX_NAME - 1) start])"

definition append_wordlist :: "string list \<Rightarrow> string list \<Rightarrow> string list" where
  "append_wordlist cands file = foldl dict_line cands file"

definition append_builtin :: "string list \<Rightarrow> string list" where
  "append_builtin cands =
     cands @ take (MC_DICT_MAX_CANDIDATES - length cands)
       (map (take (MC_CHANNEL_MAX_NAME - 1)) (meshcore_builtin_hashtag_candidates 256))"

text \<open>The optional second file is the bundled list of extra names; a file that cannot be opened is None.\<close>

definition meshcore_hashtag_dict_init :: "hashtag_dict \<Rightarrow> string list option \<Rightarrow> string list option \<Rightarrow> bool \<times> hashtag_dict" where
  "meshcore_hashtag_dict_init d file extras =
     (if hq_started d then (True, d)
      else let cands = append_builtin (append_wordlist [] (case file of None \<Rightarrow> [] | Some ls \<Rightarrow> ls));
               cands = append_wordlist cands (case extras of None \<Rightarrow> [] | Some ls \<Rightarrow> ls)
           in if cands = [] then (False, d) else (True, d\<lparr> hq_started := True, hq_candidates := cands \<rparr>))"

subsection \<open>Queue and search\<close>

definition meshcore_hashtag_dict_enqueue :: "hashtag_dict \<Rightarrow> bytes \<Rightarrow> radio \<Rightarrow> hashtag_dict" where
  "meshcore_hashtag_dict_enqueue d frame r =
     (if \<not> hq_started d \<or> frame = [] then d
      else d\<lparr> hq_queue := ring_put MC_DICT_QUEUE_SIZE
                \<lparr> hf_bytes = take MC_DICT_FRAME_MAX_BYTES frame, hf_radio = r \<rparr> (hq_queue d) \<rparr>)"

text \<open>One case variant against a frame: the variant and the reported channel name.\<close>

definition try_variant ::
  "digest \<Rightarrow> block_decoder \<Rightarrow> keyed \<Rightarrow> keyed \<Rightarrow> meshcore_packet \<Rightarrow> string \<Rightarrow> (string \<times> string) option" where
  "try_variant sha block hmac ecb pkt v =
     (case meshcore_channelset_add_hashtag sha block meshcore_channelset_create v of
        (None, _) \<Rightarrow> None
      | (Some _, trial) \<Rightarrow>
          if ch_hash (trial ! 0) \<noteq> hd (pk_payload pkt) then None
          else case (if pk_payload_type pkt = MC_PAYLOAD_GRP_TXT
                     then meshcore_decode_grp_txt hmac ecb pkt (Some trial) mesh_event0
                     else meshcore_decode_grp_data hmac ecb pkt (Some trial) mesh_event0) of
                 (decoded, ev) \<Rightarrow> if \<not> decoded \<or> \<not> ev_decrypted ev then None else Some (v, ev_channel_name ev))"

text \<open>The report, if a channel was found, and the live channel table.\<close>

definition hashtag_try_candidates ::
  "digest \<Rightarrow> block_decoder \<Rightarrow> keyed \<Rightarrow> keyed \<Rightarrow> string list \<Rightarrow> mc_dict_frame \<Rightarrow> channelset option \<Rightarrow>
     (byte \<times> string) option \<times> channelset option" where
  "hashtag_try_candidates sha block hmac ecb cands f live =
     (case meshcore_packet_parse (hf_bytes f) of
        None \<Rightarrow> (None, live)
      | Some pkt \<Rightarrow>
          if pk_payload_type pkt \<noteq> MC_PAYLOAD_GRP_TXT \<and> pk_payload_type pkt \<noteq> MC_PAYLOAD_GRP_DATA then (None, live)
          else if length (pk_payload pkt) < 1 then (None, live)
          else case first_some (try_variant sha block hmac ecb pkt) (concat (map meshcore_name_case_variants cands)) of
                 None \<Rightarrow> (None, live)
               | Some (v, name) \<Rightarrow>
                   (Some (hd (pk_payload pkt), if name \<noteq> [] then name else v),
                    map_option (\<lambda>cs. snd (meshcore_channelset_add_hashtag sha block cs v)) live))"

text \<open>One turn of the worker; None while it waits.\<close>

definition mc_dict_thread ::
  "digest \<Rightarrow> block_decoder \<Rightarrow> keyed \<Rightarrow> keyed \<Rightarrow> hashtag_dict \<Rightarrow> channelset option \<Rightarrow>
     ((byte \<times> string) option \<times> hashtag_dict \<times> channelset option) option" where
  "mc_dict_thread sha block hmac ecb d live =
     (case ring_get MC_DICT_QUEUE_SIZE (hq_queue d) of
        None \<Rightarrow> None
      | Some (f, q) \<Rightarrow>
          (case hashtag_try_candidates sha block hmac ecb (hq_candidates d) f live of
             (report, live) \<Rightarrow> Some (report, d\<lparr> hq_queue := q \<rparr>, live)))"

subsection \<open>What adding a hashtag channel stores\<close>

definition hashtag_target :: "digest \<Rightarrow> block_decoder \<Rightarrow> string \<Rightarrow> (string \<times> bytes) option" where
  "hashtag_target sha block v =
     (let name = (if v \<noteq> [] \<and> hd v = CHR ''#'' then tl v else v)
      in if name = [] then None
         else if strcasematch name ''public'' then map_option (\<lambda>s. (''Public'', s)) (meshcore_decode_psk block ''izOH6cXN6mrJ5e26oRXNcg=='')
         else Some (take 31 (CHR ''#'' # name), meshcore_channel_hashtag_secret sha name))"

lemma add_hashtag_target:
  "meshcore_channelset_add_hashtag sha block cs v =
     (case hashtag_target sha block v of None \<Rightarrow> (None, cs) | Some (n, s) \<Rightarrow> add_channel_locked sha cs n s)"
proof -
  have "meshcore_channelset_add_default_public sha block cs =
      (case meshcore_decode_psk block ''izOH6cXN6mrJ5e26oRXNcg=='' of None \<Rightarrow> (None, cs) | Some s \<Rightarrow> add_channel_locked sha cs ''Public'' s)"
    by (simp add: meshcore_channelset_add_default_public_def meshcore_channelset_add_spec_def MC_CHANNEL_MAX_NAME_def Let_def split: option.split)
  then show ?thesis
    by (simp add: meshcore_channelset_add_hashtag_def hashtag_target_def MC_CHANNEL_MAX_NAME_def Let_def split: option.split)
qed

lemma hashtag_target_ok: "hashtag_target sha block v = Some (n, s) \<Longrightarrow> length n < MC_CHANNEL_MAX_NAME \<and> secret_len_ok s"
  by (auto simp: hashtag_target_def Let_def MC_CHANNEL_MAX_NAME_def hashtag_secret_len dest: decode_psk_len split: if_splits)

lemma add_channel_empty: "add_channel_locked sha [] n s = (Some (meshcore_channel_hash sha s, take 31 n), [channel_entry sha n s])"
  by (simp add: add_channel_locked_def channel_entry_def MC_CHANNEL_MAX_ENTRIES_def MC_CHANNEL_MAX_NAME_def Let_def)

lemma add_channel_room:
  assumes "length cs < MC_CHANNEL_MAX_ENTRIES"
  shows "channel_entry sha n s \<in> set (snd (add_channel_locked sha cs n s))
    \<and> set (snd (add_channel_locked sha cs n s)) \<subseteq> insert (channel_entry sha n s) (set cs)"
proof (cases "find (\<lambda>i. ch_name (cs ! i) = n) [0..<length cs]")
  case None
  then show ?thesis using assms by (auto simp: add_channel_locked_def Let_def)
next
  case (Some i)
  then show ?thesis using find_name_Some [OF Some] set_update_subset_insert [of cs i "channel_entry sha n s"]
    by (auto simp: add_channel_locked_def Let_def set_update_memI)
qed

text \<open>A group decoder depends on the table only through the plaintext and the channel that opened it.\<close>

lemma decode_grp_cong:
  assumes "grp_decrypt hmac ecb pkt (Some cs) = Some (plain, i)" "grp_decrypt hmac ecb pkt (Some cs') = Some (plain, j)" "cs ! i = cs' ! j"
  shows "meshcore_decode_grp_txt hmac ecb pkt (Some cs) ev = meshcore_decode_grp_txt hmac ecb pkt (Some cs') ev"
    "meshcore_decode_grp_data hmac ecb pkt (Some cs) ev = meshcore_decode_grp_data hmac ecb pkt (Some cs') ev"
  using assms by (simp_all add: meshcore_decode_grp_txt_def meshcore_decode_grp_data_def Let_def)

definition decode_grp :: "keyed \<Rightarrow> keyed \<Rightarrow> meshcore_packet \<Rightarrow> channelset \<Rightarrow> mesh_event \<Rightarrow> bool \<times> mesh_event" where
  "decode_grp hmac ecb pkt cs ev =
     (if pk_payload_type pkt = MC_PAYLOAD_GRP_TXT then meshcore_decode_grp_txt hmac ecb pkt (Some cs) ev
      else meshcore_decode_grp_data hmac ecb pkt (Some cs) ev)"

lemma decode_grp_success:
  assumes "decode_grp hmac ecb pkt cs ev = (True, ev')" "ev_decrypted ev'"
  shows "\<exists>plain i. grp_decrypt hmac ecb pkt (Some cs) = Some (plain, i) \<and>
    (\<forall>cs2 j ev2. grp_decrypt hmac ecb pkt (Some cs2) = Some (plain, j) \<and> cs2 ! j = cs ! i \<longrightarrow>
       fst (decode_grp hmac ecb pkt cs2 ev2) \<and> ev_decrypted (snd (decode_grp hmac ecb pkt cs2 ev2)))"
proof -
  obtain plain i where g: "grp_decrypt hmac ecb pkt (Some cs) = Some (plain, i)"
    using assms grp_decrypted [of hmac ecb pkt "Some cs" ev ev']
    by (cases "grp_decrypt hmac ecb pkt (Some cs)")
      (auto simp: decode_grp_def meshcore_decode_grp_txt_def meshcore_decode_grp_data_def grp_undecrypted_def split: if_splits)
  have "fst (decode_grp hmac ecb pkt cs2 ev2) \<and> ev_decrypted (snd (decode_grp hmac ecb pkt cs2 ev2))"
    if "grp_decrypt hmac ecb pkt (Some cs2) = Some (plain, j)" "cs2 ! j = cs ! i" for cs2 j ev2
  proof -
    have "decode_grp hmac ecb pkt cs2 ev2 = decode_grp hmac ecb pkt cs ev2"
      unfolding decode_grp_def using decode_grp_cong [OF that(1) g that(2)] by simp
    then show ?thesis using assms g
      by (auto simp: decode_grp_def meshcore_decode_grp_txt_def meshcore_decode_grp_data_def Let_def split: if_splits)
  qed
  then show ?thesis using g by blast
qed

subsection \<open>The search teaches the live decoder\<close>

lemma try_variant_Some:
  assumes "try_variant sha block hmac ecb pkt v = Some r"
  shows "\<exists>n s ev. hashtag_target sha block v = Some (n, s) \<and> decode_grp hmac ecb pkt [channel_entry sha n s] mesh_event0 = (True, ev) \<and> ev_decrypted ev"
  using assms
  by (auto simp: try_variant_def add_hashtag_target meshcore_channelset_create_def add_channel_empty decode_grp_def
      split: option.splits prod.splits if_splits)

lemma grp_decrypt_single:
  assumes "grp_decrypt hmac ecb pkt (Some [e]) = Some (plain, i)"
  shows "i = 0 \<and> meshcore_verify_and_decrypt hmac ecb (ch_secret e) (tl (pk_payload pkt)) = Some plain
    \<and> pk_payload pkt = hd (pk_payload pkt) # tl (pk_payload pkt) \<and> 2 \<le> length (tl (pk_payload pkt))"
proof -
  have len: "\<not> length (pk_payload pkt) < 3" using assms by (auto simp: grp_decrypt_def MC_CIPHER_MAC_SIZE_def split: if_splits)
  obtain j where j: "j \<in> set (meshcore_channelset_lookup [e] (hd (pk_payload pkt)) MC_CHANNEL_MAX_ENTRIES)"
      "map_option (\<lambda>plain. (plain, j)) (meshcore_verify_and_decrypt hmac ecb (ch_secret ([e] ! j)) (tl (pk_payload pkt))) = Some (plain, i)"
    using assms by (auto simp: grp_decrypt_def Let_def split: if_splits dest!: first_some_Some)
  have "j = 0" using lookup_range [OF j(1)] by simp
  then have "i = 0 \<and> meshcore_verify_and_decrypt hmac ecb (ch_secret e) (tl (pk_payload pkt)) = Some plain"
    using j(2) by auto
  then show ?thesis using len by (cases "pk_payload pkt") auto
qed

lemma hashtag_installed:
  assumes inv: "channel_inv sha cs" and room: "length cs < MC_CHANNEL_MAX_ENTRIES"
    and unknown: "\<forall>c \<in> set cs. meshcore_verify_and_decrypt hmac ecb (ch_secret c) (tl (pk_payload pkt)) = None"
    and hit: "try_variant sha block hmac ecb pkt v = Some r"
  defines "cs' \<equiv> snd (meshcore_channelset_add_hashtag sha block cs v)"
  shows "channel_inv sha cs'" "fst (decode_grp hmac ecb pkt cs' ev)" "ev_decrypted (snd (decode_grp hmac ecb pkt cs' ev))"
proof -
  obtain n s ev0 where t: "hashtag_target sha block v = Some (n, s)"
      "decode_grp hmac ecb pkt [channel_entry sha n s] mesh_event0 = (True, ev0)" "ev_decrypted ev0"
    using try_variant_Some [OF hit] by blast
  define e where "e = channel_entry sha n s"
  note ok = hashtag_target_ok [OF t(1)]
  have cs': "cs' = snd (add_channel_locked sha cs n s)" by (simp add: cs'_def add_hashtag_target t(1))
  show inv': "channel_inv sha cs'" unfolding cs' using channels.keeps [OF inv] ok by blast
  obtain plain i where g: "grp_decrypt hmac ecb pkt (Some [e]) = Some (plain, i)"
      and all: "\<And>cs2 j ev2. grp_decrypt hmac ecb pkt (Some cs2) = Some (plain, j) \<Longrightarrow> cs2 ! j = [e] ! i \<Longrightarrow>
         fst (decode_grp hmac ecb pkt cs2 ev2) \<and> ev_decrypted (snd (decode_grp hmac ecb pkt cs2 ev2))"
    using decode_grp_success [OF t(2,3)] unfolding e_def [symmetric] by blast
  note single = grp_decrypt_single [OF g]
  note mem = add_channel_room [OF room, of sha n s, folded cs' e_def]
  have "\<And>e'. e' \<in> set cs' \<Longrightarrow> e' \<noteq> e \<Longrightarrow> meshcore_verify_and_decrypt hmac ecb (ch_secret e') (tl (pk_payload pkt)) = None"
    using mem unknown by auto
  then obtain j where "cs' ! j = e" "grp_decrypt hmac ecb pkt (Some cs') = Some (plain, j)"
    using grp_decrypt_found [OF inv', of e pkt "hd (pk_payload pkt)" "tl (pk_payload pkt)" hmac ecb plain] mem single by auto
  then show "fst (decode_grp hmac ecb pkt cs' ev)" "ev_decrypted (snd (decode_grp hmac ecb pkt cs' ev))"
    using all single by auto
qed

text \<open>
  C32: a discovered hashtag channel is decoded from then on.  Take a waiting group frame that no channel
  of the live table opens, while the table has room, and assume some case variant of a word
  of the list opens it.  One turn of the search reports a channel and installs it; the table
  keeps its invariant, and decoding the very same frame with it now emits one decrypted event
  and no longer queues the frame.
\<close>

theorem hashtag_learned:
  assumes inv: "channel_inv sha cs" and room: "length cs < MC_CHANNEL_MAX_ENTRIES"
    and queue: "ring_ok 128 (hq_queue d)" "ring_abs 128 (hq_queue d) = f # rest"
    and pkt: "meshcore_packet_parse (hf_bytes f) = Some pkt" "pk_payload_type pkt = MC_PAYLOAD_GRP_TXT \<or> pk_payload_type pkt = MC_PAYLOAD_GRP_DATA"
    and unknown: "\<forall>c \<in> set cs. meshcore_verify_and_decrypt hmac ecb (ch_secret c) (tl (pk_payload pkt)) = None"
    and known: "w \<in> set (hq_candidates d)" "v \<in> set (meshcore_name_case_variants w)" "try_variant sha block hmac ecb pkt v \<noteq> None"
  shows "\<exists>report d' cs' ev rd'. mc_dict_thread sha block hmac ecb d (Some cs) = Some (Some report, d', Some cs')
    \<and> ring_abs 128 (hq_queue d') = rest \<and> channel_inv sha cs'
    \<and> meshcore_packet_decode_with_radio sig hmac ecb (hf_bytes f) (hf_radio f) (Some cs') True rd = (0, [ev], rd', []) \<and> ev_decrypted ev"
proof -
  obtain q where q: "ring_get 128 (hq_queue d) = Some (f, q)"
    using queue128.get_none [OF queue(1)] queue128.get_some [OF queue(1)] queue(2) by (cases "ring_get 128 (hq_queue d)") auto
  have rest: "ring_abs 128 q = rest" using queue128.get_some [OF queue(1) q] queue(2) by simp
  have "first_some (try_variant sha block hmac ecb pkt) (concat (map meshcore_name_case_variants (hq_candidates d))) \<noteq> None"
    using known by (auto simp: first_some_None)
  then obtain v' name where found: "first_some (try_variant sha block hmac ecb pkt) (concat (map meshcore_name_case_variants (hq_candidates d))) = Some (v', name)"
    by auto
  then obtain u where u: "try_variant sha block hmac ecb pkt u = Some (v', name)" using first_some_Some by fast
  have "u = v'" using u by (auto simp: try_variant_def split: option.splits prod.splits if_splits)
  then have hit: "try_variant sha block hmac ecb pkt v' = Some (v', name)" using u by simp
  define cs' where "cs' = snd (meshcore_channelset_add_hashtag sha block cs v')"
  note inst = hashtag_installed [OF inv room unknown hit, folded cs'_def]
  obtain n s ev0 where "decode_grp hmac ecb pkt [channel_entry sha n s] mesh_event0 = (True, ev0)" "ev_decrypted ev0"
    using try_variant_Some [OF hit] by blast
  then obtain plain i where "grp_decrypt hmac ecb pkt (Some [channel_entry sha n s]) = Some (plain, i)"
    using decode_grp_success by blast
  then have "2 \<le> length (tl (pk_payload pkt))" using grp_decrypt_single by blast
  then have len: "\<not> length (pk_payload pkt) < 1" by (cases "pk_payload pkt") auto
  obtain ev1 rd' where scope: "meshcore_region_scope hmac pkt (meshcore_base_event (hf_bytes f) (hf_radio f) pkt) rd = (ev1, rd')" by fastforce
  obtain ev where ev: "decode_grp hmac ecb pkt cs' ev1 = (True, ev)" "ev_decrypted ev"
    using inst(2,3) [of ev1] by (cases "decode_grp hmac ecb pkt cs' ev1") auto
  then have "meshcore_packet_decode_with_radio sig hmac ecb (hf_bytes f) (hf_radio f) (Some cs') True rd = (0, [ev], rd', [])"
    using pkt scope by (auto simp: meshcore_packet_decode_with_radio_def meshcore_dispatch_def decode_grp_def)
  moreover have "mc_dict_thread sha block hmac ecb d (Some cs) =
      Some (Some (hd (pk_payload pkt), if name \<noteq> [] then name else v'), d\<lparr> hq_queue := q \<rparr>, Some cs')"
    using q pkt len found by (auto simp: mc_dict_thread_def hashtag_try_candidates_def MC_DICT_QUEUE_SIZE_def cs'_def)
  ultimately show ?thesis using ev(2) inst(1) rest by auto
qed

text \<open>A frame on the channel of the word \<^verbatim>\<open>test\<close>, for toy instances of the digests and the cipher.\<close>

definition toy_sha :: digest where "toy_sha bs = Some (replicate 32 9)"
definition toy_hmac :: keyed where "toy_hmac key msg = Some (replicate 32 (of_nat (length msg)))"
definition toy_ecb :: keyed where "toy_ecb key msg = Some (rev msg)"

definition toy_packet :: meshcore_packet where
  "toy_packet = \<lparr> pk_route_type = 1, pk_payload_type = 5, pk_payload_ver = 0, pk_has_transport_codes = False,
     pk_transport_code1 = 0, pk_transport_code2 = 0, pk_path = [], pk_path_hash_count = 0, pk_path_hash_size = 1,
     pk_payload = 9 # mc_encrypt toy_hmac (\<lambda>key msg. rev msg) (replicate 16 9) (group_text 77 0 [72, 105]) \<rparr>"

lemma toy_crypto: "crypto_ok toy_hmac (\<lambda>key msg. rev msg) toy_ecb"
  by (simp add: crypto_ok_def toy_hmac_def toy_ecb_def)

lemma toy_packet_ok: "packet_ok toy_packet"
  using length_mc_encrypt [OF toy_crypto, of "replicate 16 9" "group_text 77 0 [72, 105]"]
  by (simp add: toy_packet_def packet_ok_def mc_route_has_transport_codes_def MC_ROUTE_TRANSPORT_FLOOD_def MC_ROUTE_TRANSPORT_DIRECT_def
      group_text_def padded_len_def MC_CIPHER_BLOCK_SIZE_def secret_len_ok_def)

lemma toy_try: "try_variant toy_sha (\<lambda>s. None) toy_hmac toy_ecb toy_packet ''test'' \<noteq> None"
proof -
  have target: "hashtag_target toy_sha (\<lambda>s. None) ''test'' = Some (''#test'', replicate 16 9)"
    by (simp add: hashtag_target_def toy_sha_def meshcore_channel_hashtag_secret_def Let_def to_lower_def)
  define e where "e = channel_entry toy_sha ''#test'' (replicate 16 9)"
  have nines: "replicate 32 (9 :: byte) = 9 # replicate 31 9" using replicate_Suc [of 31 "9 :: byte"] by simp
  have e: "ch_secret e = replicate 16 9" "ch_name e = ''#test''" "ch_hash e = 9"
    by (simp_all add: e_def channel_entry_def meshcore_channel_hash_def toy_sha_def nines MC_CHANNEL_MAX_NAME_def)
  let ?msg = "group_text 77 0 [72, 105]"
  have "meshcore_verify_and_decrypt toy_hmac toy_ecb (ch_secret e) (tl (pk_payload toy_packet)) = Some (zero_pad (padded_len (length ?msg)) ?msg)"
    unfolding toy_packet_def e by (simp add: decrypt_encrypt [OF toy_crypto] secret_len_ok_def group_text_def)
  moreover have "meshcore_channelset_lookup [e] 9 MC_CHANNEL_MAX_ENTRIES = [0]"
    by (simp add: meshcore_channelset_lookup_def e MC_CHANNEL_MAX_ENTRIES_def)
  moreover have "length (pk_payload toy_packet) = 19" "hd (pk_payload toy_packet) = 9"
    using length_mc_encrypt [OF toy_crypto, of "replicate 16 9" ?msg]
    by (simp_all add: toy_packet_def group_text_def padded_len_def MC_CIPHER_BLOCK_SIZE_def secret_len_ok_def)
  ultimately have dec: "grp_decrypt toy_hmac toy_ecb toy_packet (Some [e]) = Some (zero_pad (padded_len (length ?msg)) ?msg, 0)"
    by (simp add: grp_decrypt_def MC_CIPHER_MAC_SIZE_def)
  obtain ev where "meshcore_decode_grp_txt toy_hmac toy_ecb toy_packet (Some [e]) mesh_event0 = (True, ev)" "ev_decrypted ev"
    using decode_group_text [OF dec, of mesh_event0] e by auto
  then show ?thesis
    using e \<open>hd (pk_payload toy_packet) = 9\<close>
    by (simp add: try_variant_def add_hashtag_target target meshcore_channelset_create_def add_channel_empty e_def [symmetric] toy_packet_def)
qed

theorem hashtag_learned_witness:
  "\<exists>report d' cs' ev rd'. mc_dict_thread toy_sha (\<lambda>s. None) toy_hmac toy_ecb
      \<lparr> hq_started = True, hq_candidates = [''test''],
        hq_queue = \<lparr> rg_slots = replicate 128 \<lparr> hf_bytes = packet_bytes toy_packet, hf_radio = radio0 \<rparr>, rg_head = 1, rg_tail = 0 \<rparr> \<rparr> (Some [])
      = Some (Some report, d', Some cs')
    \<and> ring_abs 128 (hq_queue d') = [] \<and> channel_inv toy_sha cs'
    \<and> meshcore_packet_decode_with_radio (\<lambda>k m g. False) toy_hmac toy_ecb (packet_bytes toy_packet) radio0 (Some cs') True
        \<lparr> rr_confirmed = [], rr_queue = \<lparr> rg_slots = [], rg_head = 0, rg_tail = 0 \<rparr> \<rparr> = (0, [ev], rd', []) \<and> ev_decrypted ev"
proof -
  define f where "f = \<lparr> hf_bytes = packet_bytes toy_packet, hf_radio = radio0 \<rparr>"
  define d where "d = \<lparr> hq_started = True, hq_candidates = [''test''], hq_queue = \<lparr> rg_slots = replicate 128 f, rg_head = 1, rg_tail = 0 \<rparr> \<rparr>"
  have "\<exists>report d' cs' ev rd'. mc_dict_thread toy_sha (\<lambda>s. None) toy_hmac toy_ecb d (Some []) = Some (Some report, d', Some cs')
    \<and> ring_abs 128 (hq_queue d') = [] \<and> channel_inv toy_sha cs'
    \<and> meshcore_packet_decode_with_radio (\<lambda>k m g. False) toy_hmac toy_ecb (hf_bytes f) (hf_radio f) (Some cs') True
        \<lparr> rr_confirmed = [], rr_queue = \<lparr> rg_slots = [], rg_head = 0, rg_tail = 0 \<rparr> \<rparr> = (0, [ev], rd', []) \<and> ev_decrypted ev"
  proof (rule hashtag_learned [where pkt = toy_packet and w = "''test''" and v = "''test''"])
    show "ring_ok 128 (hq_queue d)" "ring_abs 128 (hq_queue d) = [f]" "''test'' \<in> set (hq_candidates d)"
      by (simp_all add: d_def ring_ok_def ring_abs_def ring_len_def)
    show "meshcore_packet_parse (hf_bytes f) = Some toy_packet"
      using packet_parse_bytes [OF toy_packet_ok, of "[]"] by (simp add: f_def)
    show "try_variant toy_sha (\<lambda>s. None) toy_hmac toy_ecb toy_packet ''test'' \<noteq> None" by (rule toy_try)
  qed (simp_all add: channel_inv_def MC_CHANNEL_MAX_ENTRIES_def toy_packet_def meshcore_name_case_variants_def Let_def MC_CHANNEL_MAX_NAME_def)
  then show ?thesis by (simp add: d_def f_def)
qed

end
