(* ===== verification/Iq_Ring.thy ===== *)
theory Iq_Ring
  imports Prelude
begin

text \<open>
  The ring buffer of raw radio samples of \<^verbatim>\<open>src/iq_ring.c\<close>, addressed by absolute sample numbers.
  A sample pair of the ring's format is one value of type \<^verbatim>\<open>'a\<close>, so that a \<^verbatim>\<open>memcpy\<close> of
  whole pairs moves list segments.  Absolute sample numbers are 64-bit words; sizes are
  natural numbers.  The mutex and the format tag are left out; the contents of fresh memory
  are an argument of the constructor.
\<close>

record 'a iq_ring =
  iq_capacity :: nat
  iq_data :: "'a list"
  iq_total_written :: u64

definition iq_ring_create :: "nat \<Rightarrow> 'a list \<Rightarrow> 'a iq_ring option" where
  "iq_ring_create capacity_samples mem =
     (if capacity_samples = 0 then None
      else Some \<lparr> iq_capacity = capacity_samples, iq_data = mem, iq_total_written = 0 \<rparr>)"

definition memcpy_at :: "nat \<Rightarrow> 'a list \<Rightarrow> 'a list \<Rightarrow> 'a list" where
  "memcpy_at pos src dst = take pos dst @ src @ drop (pos + length src) dst"

definition iq_ring_append :: "'a iq_ring \<Rightarrow> 'a list \<Rightarrow> u64 \<times> 'a iq_ring" where
  "iq_ring_append r samples =
     (let nsamp = length samples; start_idx = iq_total_written r; capacity = iq_capacity r
      in if nsamp = 0 then (start_idx, r)
         else let src_skip = (if nsamp > capacity then nsamp - capacity else 0);
                  to_store = (if nsamp > capacity then capacity else nsamp);
                  src = drop src_skip samples;
                  store_first = start_idx + of_nat src_skip;
                  pos = unat store_first mod capacity;
                  first_chunk = (if capacity - pos > to_store then to_store else capacity - pos);
                  data1 = memcpy_at pos (take first_chunk src) (iq_data r);
                  data2 = (if to_store > first_chunk then memcpy_at 0 (drop first_chunk src) data1 else data1)
              in (start_idx, r\<lparr> iq_data := data2, iq_total_written := start_idx + of_nat nsamp \<rparr>))"

text \<open>The oldest live sample and the number after the newest.\<close>

definition iq_ring_live_range :: "'a iq_ring \<Rightarrow> u64 \<times> u64" where
  "iq_ring_live_range r =
     (let total = iq_total_written r
      in (if total > of_nat (iq_capacity r) then total - of_nat (iq_capacity r) else 0, total))"

definition iq_ring_get_window :: "'a iq_ring \<Rightarrow> u64 \<Rightarrow> nat \<Rightarrow> 'a list" where
  "iq_ring_get_window r start_sample nsamp =
     (if nsamp = 0 then []
      else let total = iq_total_written r;
               oldest = (if total > of_nat (iq_capacity r) then total - of_nat (iq_capacity r) else 0);
               stop = start_sample + of_nat nsamp;
               stop = (if stop > total then total else stop);
               start_sample = (if start_sample < oldest then oldest else start_sample)
           in if stop \<le> start_sample then []
              else let copy_n = unat (stop - start_sample);
                       pos = unat start_sample mod iq_capacity r;
                       first_chunk = (if iq_capacity r - pos > copy_n then copy_n else iq_capacity r - pos)
                   in take first_chunk (drop pos (iq_data r))
                      @ (if copy_n > first_chunk then take (copy_n - first_chunk) (iq_data r) else []))"

subsection \<open>Writing and reading around the end of the array\<close>

text \<open>The slot of the array that lies \<^verbatim>\<open>k\<close> places behind \<^verbatim>\<open>pos\<close>.\<close>

definition wrap_write :: "nat \<Rightarrow> nat \<Rightarrow> 'a list \<Rightarrow> 'a list \<Rightarrow> 'a list" where
  "wrap_write c pos src mem =
     (let f = min (c - pos) (length src)
      in if length src > f then memcpy_at 0 (drop f src) (memcpy_at pos (take f src) mem) else memcpy_at pos (take f src) mem)"

lemma nth_memcpy_at:
  assumes "pos + length src \<le> length dst" "j < length dst"
  shows "memcpy_at pos src dst ! j = (if pos \<le> j \<and> j < pos + length src then src ! (j - pos) else dst ! j)"
  using assms by (auto simp: memcpy_at_def nth_append min_def)

lemma length_memcpy_at: "pos + length src \<le> length dst \<Longrightarrow> length (memcpy_at pos src dst) = length dst"
  by (simp add: memcpy_at_def)

lemma wrap_write:
  assumes "length mem = c" "pos < c" "length src \<le> c" "j < c"
  shows "length (wrap_write c pos src mem) = c"
    "wrap_write c pos src mem ! j =
       (if pos \<le> j \<and> j < pos + length src then src ! (j - pos)
        else if j + c < pos + length src then src ! (j + c - pos) else mem ! j)"
proof -
  let ?f = "min (c - pos) (length src)"
  have one: "length (memcpy_at pos (take ?f src) mem) = c" using assms by (simp add: length_memcpy_at)
  show "length (wrap_write c pos src mem) = c"
    using assms one by (auto simp: wrap_write_def Let_def length_memcpy_at)
  show "wrap_write c pos src mem ! j =
       (if pos \<le> j \<and> j < pos + length src then src ! (j - pos)
        else if j + c < pos + length src then src ! (j + c - pos) else mem ! j)"
  proof (cases "length src > c - pos")
    case True
    then have "wrap_write c pos src mem = memcpy_at 0 (drop (c - pos) src) (memcpy_at pos (take (c - pos) src) mem)"
      by (simp add: wrap_write_def min_def Let_def)
    moreover have "memcpy_at 0 (drop (c - pos) src) (memcpy_at pos (take (c - pos) src) mem) ! j =
        (if j < length src - (c - pos) then drop (c - pos) src ! j
         else if pos \<le> j then src ! (j - pos) else mem ! j)"
      using True assms by (subst nth_memcpy_at; simp add: length_memcpy_at)+
    moreover have "drop (c - pos) src ! j = src ! (j + c - pos)" using True assms by (simp add: add.commute)
    ultimately show ?thesis using True assms by auto
  next
    case False
    then have "wrap_write c pos src mem = memcpy_at pos src mem" by (auto simp: wrap_write_def min_def Let_def)
    then show ?thesis using False assms by (auto simp: nth_memcpy_at)
  qed
qed

lemma wrap_slot: "pos < c \<Longrightarrow> k < c \<Longrightarrow> (pos + k) mod c = (if pos + k < c then pos + k else pos + k - c)" for c :: nat
  by (simp add: mod_if)

lemma wrap_write_hit:
  assumes "length mem = c" "pos < c" "length src \<le> c" "k < length src"
  shows "wrap_write c pos src mem ! ((pos + k) mod c) = src ! k"
proof -
  have "k < c" using assms by simp
  then show ?thesis
    using wrap_write(2) [OF assms(1-3), of "(pos + k) mod c"] assms wrap_slot [OF assms(2) \<open>k < c\<close>] by (auto split: if_splits)
qed

lemma wrap_write_miss:
  assumes "length mem = c" "pos < c" "length src \<le> c" "j < c" and miss: "\<And>k. k < length src \<Longrightarrow> (pos + k) mod c \<noteq> j"
  shows "wrap_write c pos src mem ! j = mem ! j"
proof -
  have "\<not> (pos \<le> j \<and> j < pos + length src)"
  proof
    assume "pos \<le> j \<and> j < pos + length src"
    then have "j - pos < length src" "(pos + (j - pos)) mod c = j" using assms(4) by auto
    then show False using miss by blast
  qed
  moreover have "\<not> j + c < pos + length src"
  proof
    assume "j + c < pos + length src"
    then have "j + c - pos < length src" "(pos + (j + c - pos)) mod c = j" using assms(2-4) by auto
    then show False using miss by blast
  qed
  ultimately show ?thesis using wrap_write(2) [OF assms(1-4)] by auto
qed

lemma wrap_read:
  assumes "length mem = c" "pos < c" "n \<le> c"
  shows "take (min (c - pos) n) (drop pos mem) @ take (n - min (c - pos) n) mem = map (\<lambda>k. mem ! ((pos + k) mod c)) [0..<n]"
proof (rule nth_equalityI)
  fix k assume "k < length (take (min (c - pos) n) (drop pos mem) @ take (n - min (c - pos) n) mem)"
  then have k: "k < n" using assms by (auto simp: min_def split: if_splits)
  then have "k < c" using assms by simp
  then show "(take (min (c - pos) n) (drop pos mem) @ take (n - min (c - pos) n) mem) ! k = map (\<lambda>k. mem ! ((pos + k) mod c)) [0..<n] ! k"
    using k assms wrap_slot [OF assms(2) \<open>k < c\<close>] by (auto simp: nth_append min_def intro: arg_cong [of _ _ "(!) mem"])
qed (use assms in auto)

subsection \<open>The ring holds the newest part of the sample history\<close>

definition holds :: "'a iq_ring \<Rightarrow> 'a list \<Rightarrow> bool" where
  "holds r h \<longleftrightarrow> 0 < iq_capacity r \<and> iq_capacity r < 2 ^ 64 \<and> length (iq_data r) = iq_capacity r
     \<and> length h < 2 ^ 64 \<and> iq_total_written r = of_nat (length h)
     \<and> (\<forall>i < length h. length h \<le> i + iq_capacity r \<longrightarrow> iq_data r ! (i mod iq_capacity r) = h ! i)"

lemma unat_of_nat_64: "n < 2 ^ 64 \<Longrightarrow> unat (of_nat n :: u64) = n"
  by (simp add: unat_of_nat)

lemma append_data:
  assumes "holds r h" "s \<noteq> []" "length h + length s < 2 ^ 64"
  defines "c \<equiv> iq_capacity r" and "skip \<equiv> length s - iq_capacity r"
  shows "iq_ring_append r s = (of_nat (length h),
    r\<lparr> iq_data := wrap_write c ((length h + skip) mod c) (drop skip s) (iq_data r), iq_total_written := of_nat (length h + length s) \<rparr>)"
proof -
  have total: "iq_total_written r = of_nat (length h)" using assms(1) by (simp add: holds_def)
  have pos: "unat (of_nat (length h) + of_nat skip :: u64) = length h + skip"
    using assms(3) unat_of_nat_64 [of "length h + skip"] by (simp add: skip_def)
  have skip: "(if length s > c then length s - c else 0) = skip" by (simp add: skip_def c_def)
  have len: "length (drop skip s) = min (length s) c" by (simp add: skip_def c_def min_def)
  have chunk: "(if a > b then b else a) = min a b" for a b :: nat by (simp add: min_def)
  have nonempty: "length s = 0 \<longleftrightarrow> False" using assms(2) by simp
  show ?thesis
    unfolding iq_ring_append_def Let_def c_def [symmetric] skip nonempty total pos chunk wrap_write_def len if_False of_nat_add ..
qed

lemma append_holds:
  assumes h: "holds r h" and fits: "length h + length s < 2 ^ 64"
  shows "holds (snd (iq_ring_append r s)) (h @ s)" "fst (iq_ring_append r s) = of_nat (length h)"
proof -
  let ?c = "iq_capacity r" and ?skip = "length s - iq_capacity r"
  let ?b = "length h + ?skip" and ?src = "drop ?skip s"
  have c: "0 < ?c" "length (iq_data r) = ?c" "length ?src \<le> ?c" and live: "\<And>i. i < length h \<Longrightarrow> length h \<le> i + ?c \<Longrightarrow> iq_data r ! (i mod ?c) = h ! i"
    using h by (auto simp: holds_def)
  have p: "?b mod ?c < ?c" using c(1) by simp
  show "fst (iq_ring_append r s) = of_nat (length h)"
  proof (cases "s = []")
    case True
    moreover have "iq_total_written r = of_nat (length h)" using h by (simp add: holds_def)
    ultimately show ?thesis by (simp add: iq_ring_append_def)
  next
    case False
    show ?thesis unfolding append_data [OF h False fits] by simp
  qed
  have data: "wrap_write ?c (?b mod ?c) ?src (iq_data r) ! (i mod ?c) = (h @ s) ! i"
    if i: "i < length h + length s" "length h + length s \<le> i + ?c" for i
  proof (cases "i < ?b")
    case True
    have old: "i < length h" "?skip = 0" using True i by auto
    have "(?b mod ?c + k) mod ?c \<noteq> i mod ?c" if "k < length ?src" for k
    proof
      assume "(?b mod ?c + k) mod ?c = i mod ?c"
      then have "(i + (?b + k - i)) mod ?c = (i + 0) mod ?c" using old by (simp add: mod_add_left_eq)
      moreover have "?b + k - i < ?c" using that i old by simp
      ultimately have "?b + k - i = 0" using mod_add_inj c(1) by blast
      then show False using old by simp
    qed
    then have "wrap_write ?c (?b mod ?c) ?src (iq_data r) ! (i mod ?c) = iq_data r ! (i mod ?c)"
      using c p by (intro wrap_write_miss) auto
    then show ?thesis using live [of i] old i by (simp add: nth_append)
  next
    case False
    define k where "k = i - ?b"
    have k: "i = ?b + k" "k < length ?src" using False i by (auto simp: k_def)
    have "wrap_write ?c (?b mod ?c) ?src (iq_data r) ! ((?b mod ?c + k) mod ?c) = ?src ! k"
      using c p k by (intro wrap_write_hit) auto
    moreover have "(?b mod ?c + k) mod ?c = i mod ?c" by (simp add: k(1) mod_add_left_eq)
    ultimately show ?thesis using k by (simp add: nth_append)
  qed
  show "holds (snd (iq_ring_append r s)) (h @ s)"
  proof (cases "s = []")
    case True
    then show ?thesis using h by (simp add: iq_ring_append_def)
  next
    case False
    have "length (wrap_write ?c (?b mod ?c) ?src (iq_data r)) = ?c" using c p by (intro wrap_write(1)) auto
    moreover have "0 < ?c" "?c < 2 ^ 64" using h by (simp_all add: holds_def)
    ultimately show ?thesis unfolding append_data [OF h False fits] snd_conv holds_def using fits data by simp
  qed
qed

lemma of_nat_less_64: "a < 2 ^ 64 \<Longrightarrow> b < 2 ^ 64 \<Longrightarrow> (of_nat a :: u64) < of_nat b \<longleftrightarrow> a < b"
  by (simp only: word_less_nat_alt unat_of_nat_64)

lemma of_nat_diff_64: "b \<le> a \<Longrightarrow> (of_nat a :: u64) - of_nat b = of_nat (a - b)"
  by (simp add: of_nat_diff)

lemma live_range_holds:
  assumes "holds r h"
  shows "iq_ring_live_range r = (of_nat (length h - iq_capacity r), of_nat (length h))"
proof -
  have "iq_total_written r = of_nat (length h)" "length h < 2 ^ 64" "iq_capacity r < 2 ^ 64" using assms by (simp_all add: holds_def)
  then show ?thesis by (simp add: iq_ring_live_range_def Let_def of_nat_less_64)
qed

lemma window_holds:
  assumes h: "holds r h" and fits: "start + n < 2 ^ 64"
  shows "iq_ring_get_window r (of_nat start) n = drop (max start (length h - iq_capacity r)) (take (start + n) h)"
proof (cases "n = 0")
  case True
  then show ?thesis by (simp add: iq_ring_get_window_def)
next
  case n: False
  define c where "c = iq_capacity r"
  define first where "first = max start (length h - c)"
  define stop where "stop = min (start + n) (length h)"
  have c: "0 < c" "c < 2 ^ 64" "length (iq_data r) = c" and len: "length h < 2 ^ 64" and total: "iq_total_written r = of_nat (length h)"
    and live: "\<And>i. i < length h \<Longrightarrow> length h \<le> i + c \<Longrightarrow> iq_data r ! (i mod c) = h ! i"
    using h by (simp_all add: holds_def c_def)
  have small: "start < 2 ^ 64" "first < 2 ^ 64" "stop < 2 ^ 64" using fits len by (simp_all add: first_def stop_def)
  have oldest: "(if of_nat (length h) > (of_nat c :: u64) then of_nat (length h) - of_nat c else 0) = (of_nat (length h - c) :: u64)"
    using len c by (simp add: of_nat_less_64)
  have stop_eq: "(if of_nat start + of_nat n > (of_nat (length h) :: u64) then of_nat (length h) else of_nat start + of_nat n) = (of_nat stop :: u64)"
    using fits len of_nat_less_64 [of "length h" "start + n"] by (simp add: stop_def min_def)
  have first_eq: "(if (of_nat start :: u64) < of_nat (length h - c) then of_nat (length h - c) else of_nat start) = (of_nat first :: u64)"
    using small len by (simp add: first_def of_nat_less_64 max_def)
  have none: "(of_nat stop :: u64) \<le> of_nat first \<longleftrightarrow> stop \<le> first" using small by (simp only: word_le_nat_alt unat_of_nat_64)
  have stop_len: "stop \<le> length h" by (simp add: stop_def)
  let ?copy = "stop - first"
  have chunk: "(if a > b then b else a) = min a b" for a b :: nat by (simp add: min_def)
  have opt: "(if a > min b a then take (a - min b a) xs else []) = take (a - min b a) xs" for a b :: nat and xs :: "'a list" by simp
  have copy: "first < stop \<Longrightarrow> unat (of_nat stop - of_nat first :: u64) = ?copy"
    using small unat_of_nat_64 [of ?copy] by (simp only: of_nat_diff_64 less_imp_le)
  have "iq_ring_get_window r (of_nat start) n =
      (if stop \<le> first then []
       else take (min (c - first mod c) ?copy) (drop (first mod c) (iq_data r)) @ take (?copy - min (c - first mod c) ?copy) (iq_data r))"
    using n copy unfolding iq_ring_get_window_def Let_def c_def [symmetric] total oldest stop_eq first_eq none
    by (simp add: unat_of_nat_64 [OF small(2)] chunk)
  also have "\<dots> = drop first (take stop h)"
  proof (cases "stop \<le> first")
    case False
    have "take (min (c - first mod c) ?copy) (drop (first mod c) (iq_data r)) @ take (?copy - min (c - first mod c) ?copy) (iq_data r)
        = map (\<lambda>k. iq_data r ! ((first mod c + k) mod c)) [0..<?copy]"
      using c by (intro wrap_read) (auto simp: first_def stop_def)
    also have "\<dots> = map (\<lambda>k. h ! (first + k)) [0..<?copy]"
    proof (rule map_cong [OF refl])
      fix k assume "k \<in> set [0..<?copy]"
      then have "first + k < length h" "length h \<le> first + k + c" by (auto simp: first_def stop_def)
      then show "iq_data r ! ((first mod c + k) mod c) = h ! (first + k)" using live by (simp add: mod_add_left_eq)
    qed
    also have "\<dots> = drop first (take stop h)" using False stop_len by (intro nth_equalityI) (simp_all add: min_def)
    finally show ?thesis using False by simp
  qed simp
  also have "take stop h = take (start + n) h" by (simp add: stop_def min_def)
  finally show ?thesis by (simp add: first_def c_def)
qed

subsection \<open>A store of timed samples\<close>

text \<open>
  What the worker that re-reads a time span relies on: one operation appends a batch and reports
  the number of its first sample, the other returns a span of sample numbers; a relation ties
  the state to the whole history, of which the newest \<^verbatim>\<open>cap\<close> samples stay readable.
\<close>

locale sample_store =
  fixes append :: "'s \<Rightarrow> 'a list \<Rightarrow> u64 \<times> 's" and window :: "'s \<Rightarrow> u64 \<Rightarrow> nat \<Rightarrow> 'a list"
    and hist :: "'s \<Rightarrow> 'a list \<Rightarrow> bool" and cap :: "'s \<Rightarrow> nat"
  assumes append_hist: "hist r h \<Longrightarrow> length h + length s < 2 ^ 64 \<Longrightarrow> hist (snd (append r s)) (h @ s)"
    and append_idx: "hist r h \<Longrightarrow> length h + length s < 2 ^ 64 \<Longrightarrow> fst (append r s) = of_nat (length h)"
    and hist_len: "hist r h \<Longrightarrow> length h < 2 ^ 64"
    and append_cap: "cap (snd (append r s)) = cap r"
    and window_hist: "hist r h \<Longrightarrow> start + n < 2 ^ 64 \<Longrightarrow> window r (of_nat start) n = drop (max start (length h - cap r)) (take (start + n) h)"
begin

lemma appends:
  "hist r h \<Longrightarrow> length (h @ concat batches) < 2 ^ 64 \<Longrightarrow>
     hist (foldl (\<lambda>r s. snd (append r s)) r batches) (h @ concat batches) \<and> cap (foldl (\<lambda>r s. snd (append r s)) r batches) = cap r"
proof (induction batches arbitrary: r h)
  case (Cons s batches)
  then have "hist (snd (append r s)) (h @ s)" by (intro append_hist) simp_all
  then show ?case using Cons.IH [of "snd (append r s)" "h @ s"] Cons.prems by (simp add: append_cap)
qed simp

text \<open>A span that is still live is returned completely, whatever came before and after it.\<close>

lemma live_span:
  assumes "hist r h" "start + n \<le> length h" "length h \<le> start + cap r"
  shows "window r (of_nat start) n = take n (drop start h)"
proof -
  have "start + n < 2 ^ 64" using hist_len [OF assms(1)] assms(2) by simp
  from window_hist [OF assms(1) this] show ?thesis using assms by (simp add: drop_take)
qed

end

interpretation iq: sample_store iq_ring_append iq_ring_get_window holds iq_capacity
proof
  fix r :: "'a iq_ring" and h s :: "'a list" and start n :: nat
  show "iq_capacity (snd (iq_ring_append r s)) = iq_capacity r" by (simp add: iq_ring_append_def Let_def)
  show "holds r h \<Longrightarrow> length h < 2 ^ 64" by (simp add: holds_def)
qed (fact append_holds window_holds)+

lemma create_holds: "iq_ring_create c mem = Some r \<Longrightarrow> length mem = c \<Longrightarrow> c < 2 ^ 64 \<Longrightarrow> holds r [] \<and> iq_capacity r = c"
  by (auto simp: iq_ring_create_def holds_def split: if_splits)

text \<open>
  C33: the sample ring returns exactly the samples of a time span that are still live.  After any
  sequence of batches, of any sizes, appended to a fresh ring, reading a span gives the part of
  the concatenated batches that lies in the span and in the last samples up to the capacity, in order;
  the live range is reported accordingly, and a further batch is numbered by the count of
  all samples before it.  (The sample counter stays below its 64-bit range.)
\<close>

theorem iq_window_exact:
  assumes "iq_ring_create c mem = Some r0" "length mem = c" "c < 2 ^ 64"
    and "length (concat batches) + length s < 2 ^ 64" "start + n < 2 ^ 64"
  shows "let h = concat batches; r = foldl (\<lambda>r s. snd (iq_ring_append r s)) r0 batches
    in iq_ring_get_window r (of_nat start) n = drop (max start (length h - c)) (take (start + n) h)
       \<and> iq_ring_live_range r = (of_nat (length h - c), of_nat (length h))
       \<and> fst (iq_ring_append r s) = of_nat (length h)"
proof -
  note r0 = create_holds [OF assms(1-3)]
  define r where "r = foldl (\<lambda>r s. snd (iq_ring_append r s)) r0 batches"
  have "length ([] @ concat batches) < 2 ^ 64" using assms(4) by simp
  then have r: "holds r (concat batches)" "iq_capacity r = c"
    using iq.appends [of r0 "[]" batches] r0 by (simp_all add: r_def)
  then show ?thesis
    using iq.window_hist [OF r(1) assms(5)] iq.append_idx [OF r(1) assms(4)] live_range_holds [OF r(1)]
    by (simp add: Let_def r_def [symmetric])
qed

theorem iq_window_exact_witness:
  "iq_ring_get_window (foldl (\<lambda>r s. snd (iq_ring_append r s)) \<lparr> iq_capacity = 4, iq_data = [0, 0, 0, 0], iq_total_written = 0 \<rparr>
      [[1, 2, 3], [4, 5, 6 :: nat]]) 1 4 = [3, 4, 5]"
  using iq_window_exact [of 4 "[0, 0, 0, 0 :: nat]" _ "[[1, 2, 3], [4, 5, 6]]" "[]" 1 4]
  by (simp add: iq_ring_create_def Let_def)

end
