(* ===== verification/Node_Db.thy ===== *)
theory Node_Db
  imports Prelude
begin

text \<open>
  The in-memory cache of node names of \<^verbatim>\<open>src/node_db.c\<close>: a bounded array in order of first
  sighting, where a new node in a full cache drops the oldest one.  A missing name is None;
  the call to the persistence backend is the second component of the result.  The mutex is
  left out.
\<close>

definition NODE_DB_CAP :: nat where "NODE_DB_CAP = 1024"
definition NODE_DB_LONG_NAME :: nat where "NODE_DB_LONG_NAME = 64"
definition NODE_DB_SHORT_NAME :: nat where "NODE_DB_SHORT_NAME = 8"

record node_record =
  nd_id :: u32
  nd_long_name :: string
  nd_short_name :: string
  nd_hw_model :: u32
  nd_role :: u32

type_synonym node_db = "node_record list"

definition find_locked :: "node_db \<Rightarrow> u32 \<Rightarrow> nat option" where
  "find_locked db i = find (\<lambda>k. nd_id (db ! k) = i) [0..<length db]"

text \<open>The fields a sighting overwrites: empty names and zero numbers carry no information.\<close>

definition sighting :: "string option \<Rightarrow> string option \<Rightarrow> u32 \<Rightarrow> u32 \<Rightarrow> node_record \<Rightarrow> node_record" where
  "sighting long_name short_name hw_model role n =
     (let n = (case long_name of Some l \<Rightarrow> if l \<noteq> [] then n\<lparr> nd_long_name := take (NODE_DB_LONG_NAME - 1) l \<rparr> else n | None \<Rightarrow> n);
          n = (case short_name of Some l \<Rightarrow> if l \<noteq> [] then n\<lparr> nd_short_name := take (NODE_DB_SHORT_NAME - 1) l \<rparr> else n | None \<Rightarrow> n);
          n = (if hw_model \<noteq> 0 then n\<lparr> nd_hw_model := hw_model \<rparr> else n)
      in if role \<noteq> 0 then n\<lparr> nd_role := role \<rparr> else n)"

definition node0 :: "u32 \<Rightarrow> node_record" where
  "node0 i = \<lparr> nd_id = i, nd_long_name = [], nd_short_name = [], nd_hw_model = 0, nd_role = 0 \<rparr>"

definition node_db_load :: "node_db \<Rightarrow> u32 \<Rightarrow> string option \<Rightarrow> string option \<Rightarrow> u32 \<Rightarrow> u32 \<Rightarrow> node_db" where
  "node_db_load db i long_name short_name hw_model role =
     (case find_locked db i of
        Some k \<Rightarrow> db[k := sighting long_name short_name hw_model role (db ! k)]
      | None \<Rightarrow>
          (let db = (if length db \<ge> NODE_DB_CAP then take (NODE_DB_CAP - 1) (drop 1 db) else db)
           in db @ [sighting long_name short_name hw_model role (node0 i)]))"

definition node_db_remember ::
  "node_db \<Rightarrow> u32 \<Rightarrow> string option \<Rightarrow> string option \<Rightarrow> u32 \<Rightarrow> u32 \<Rightarrow>
     node_db \<times> (u32 \<times> string option \<times> string option \<times> u32 \<times> u32)" where
  "node_db_remember db i long_name short_name hw_model role =
     (node_db_load db i long_name short_name hw_model role, (i, long_name, short_name, hw_model, role))"

definition node_db_lookup :: "node_db \<Rightarrow> u32 \<Rightarrow> node_record option" where
  "node_db_lookup db i = map_option ((!) db) (find_locked db i)"

subsection \<open>The cache as a map with bounded memory\<close>

definition node_inv :: "node_db \<Rightarrow> bool" where
  "node_inv db \<longleftrightarrow> length db \<le> NODE_DB_CAP \<and> distinct (map nd_id db)
     \<and> list_all (\<lambda>n. length (nd_long_name n) < NODE_DB_LONG_NAME \<and> length (nd_short_name n) < NODE_DB_SHORT_NAME) db"

lemma sighting_id [simp]: "nd_id (sighting l s h r n) = nd_id n"
  by (simp add: sighting_def Let_def split: option.split)

lemma sighting_names:
  "length (nd_long_name n) < 64 \<and> length (nd_short_name n) < 8 \<Longrightarrow>
   length (nd_long_name (sighting l s h r n)) < 64 \<and> length (nd_short_name (sighting l s h r n)) < 8"
  by (auto simp: sighting_def Let_def NODE_DB_LONG_NAME_def NODE_DB_SHORT_NAME_def split: option.split)

lemma find_locked_Some: "find_locked db i = Some k \<Longrightarrow> k < length db \<and> nd_id (db ! k) = i"
  by (auto simp: find_locked_def find_Some_iff)

lemma find_locked_None: "find_locked db i = None \<longleftrightarrow> i \<notin> set (map nd_id db)"
  by (force simp: find_locked_def find_None_iff in_set_conv_nth)

lemma lookup_iff:
  assumes "distinct (map nd_id db)"
  shows "node_db_lookup db i = Some n \<longleftrightarrow> n \<in> set db \<and> nd_id n = i"
proof
  assume "node_db_lookup db i = Some n"
  then show "n \<in> set db \<and> nd_id n = i" by (auto simp: node_db_lookup_def dest: find_locked_Some)
next
  assume n: "n \<in> set db \<and> nd_id n = i"
  then obtain k where k: "find_locked db i = Some k" by (cases "find_locked db i") (auto simp: find_locked_None)
  then have "db ! k \<in> set db" "nd_id (db ! k) = nd_id n" using find_locked_Some [OF k] n by auto
  then have "db ! k = n" using assms n by (auto simp: distinct_map dest: inj_onD)
  then show "node_db_lookup db i = Some n" by (simp add: node_db_lookup_def k)
qed

text \<open>The cache without its oldest node, when room for a new one is needed.\<close>

definition evicted :: "node_db \<Rightarrow> node_db" where
  "evicted db = (if length db = NODE_DB_CAP then tl db else db)"

lemma load_cases:
  assumes "node_inv db"
  shows "node_db_load db i l s h r = (case find_locked db i of
      Some k \<Rightarrow> db[k := sighting l s h r (db ! k)] | None \<Rightarrow> evicted db @ [sighting l s h r (node0 i)])"
proof -
  have "(if length db \<ge> NODE_DB_CAP then take (NODE_DB_CAP - 1) (drop 1 db) else db) = evicted db"
    using assms by (cases db) (auto simp: evicted_def node_inv_def)
  then show ?thesis unfolding node_db_load_def Let_def by (simp only:)
qed

lemma load_inv:
  assumes "node_inv db"
  shows "node_inv (node_db_load db i l s h r)"
proof (cases "find_locked db i")
  case None
  then have new: "i \<notin> nd_id ` set db" using find_locked_None [of db i] by simp
  have sub: "set (evicted db) \<subseteq> set db" by (cases db) (auto simp: evicted_def)
  have "length (evicted db) < NODE_DB_CAP" using assms by (auto simp: evicted_def node_inv_def NODE_DB_CAP_def)
  moreover have "distinct (map nd_id (evicted db))" using assms by (simp add: evicted_def node_inv_def distinct_tl map_tl)
  moreover have "nd_id (node0 i) = i" by (simp add: node0_def)
  ultimately show ?thesis
    using assms new sub sighting_names [of "node0 i" l s h r] unfolding load_cases [OF assms] node_inv_def
    by (auto simp: None list_all_iff NODE_DB_LONG_NAME_def NODE_DB_SHORT_NAME_def node0_def)
next
  case (Some k)
  note k = find_locked_Some [OF Some]
  have "map nd_id (db[k := sighting l s h r (db ! k)]) = map nd_id db"
    unfolding map_update sighting_id using k by (metis list_update_id nth_map)
  moreover have "list_all (\<lambda>n. length (nd_long_name n) < 64 \<and> length (nd_short_name n) < 8) (db[k := sighting l s h r (db ! k)])"
    using assms k sighting_names [of "db ! k" l s h r] set_update_subset_insert [of db k "sighting l s h r (db ! k)"]
    by (auto simp: node_inv_def list_all_iff NODE_DB_LONG_NAME_def NODE_DB_SHORT_NAME_def)
  ultimately show ?thesis using assms unfolding load_cases [OF assms] by (simp add: Some node_inv_def NODE_DB_LONG_NAME_def NODE_DB_SHORT_NAME_def)
qed

text \<open>
  C34: the node cache behaves like a map that forgets its oldest node when full.  After a sighting the
  node is known with the sighted names and numbers over what was known before, empty names
  and zero numbers changing nothing; every other node keeps its record, except that a new
  node in a full cache removes the one first seen longest ago; the cache never exceeds 1024
  nodes, one record per node, with names that fit their fields.
\<close>

theorem node_db_bounded_map:
  assumes inv: "node_inv db" and db': "node_db_remember db i l s h r = (db', saved)"
  shows "node_inv db' \<and> saved = (i, l, s, h, r)
    \<and> node_db_lookup db' i = Some (sighting l s h r (case node_db_lookup db i of Some n \<Rightarrow> n | None \<Rightarrow> node0 i))
    \<and> (\<forall>j. j \<noteq> i \<longrightarrow> node_db_lookup db' j =
          (if node_db_lookup db i = None \<and> length db = NODE_DB_CAP \<and> j = nd_id (hd db) then None else node_db_lookup db j))"
proof -
  have load: "db' = node_db_load db i l s h r" "saved = (i, l, s, h, r)" using db' by (auto simp: node_db_remember_def)
  have inv': "node_inv db'" unfolding load by (rule load_inv [OF inv])
  have d: "distinct (map nd_id db)" "distinct (map nd_id db')" using inv inv' by (simp_all add: node_inv_def)
  note look = lookup_iff [OF d(1)] and look' = lookup_iff [OF d(2)]
  show ?thesis
  proof (cases "find_locked db i")
    case None
    then have unknown: "node_db_lookup db i = None" by (simp add: node_db_lookup_def)
    have new: "i \<notin> nd_id ` set db" using None find_locked_None [of db i] by simp
    have eq: "db' = evicted db @ [sighting l s h r (node0 i)]" unfolding load load_cases [OF inv] None by simp
    have self: "node_db_lookup db' i = Some (sighting l s h r (node0 i))" unfolding look' by (simp add: eq node0_def)
    have other: "node_db_lookup db' j = (if length db = NODE_DB_CAP \<and> j = nd_id (hd db) then None else node_db_lookup db j)" if "j \<noteq> i" for j
    proof -
      have "n \<in> set db' \<and> nd_id n = j \<longleftrightarrow> n \<in> set (evicted db) \<and> nd_id n = j" for n using that by (auto simp: eq node0_def)
      moreover have "n \<in> set (evicted db) \<and> nd_id n = j \<longleftrightarrow> n \<in> set db \<and> nd_id n = j \<and> \<not> (length db = NODE_DB_CAP \<and> j = nd_id (hd db))" for n
      proof (cases db)
        case (Cons a as)
        then have "nd_id a \<notin> nd_id ` set as" using d(1) by simp
        then have "n \<in> set as \<Longrightarrow> nd_id n \<noteq> nd_id a" by (metis image_eqI)
        then show ?thesis unfolding evicted_def Cons by auto
      qed (simp add: evicted_def NODE_DB_CAP_def)
      ultimately have "node_db_lookup db' j = Some n \<longleftrightarrow> (if length db = NODE_DB_CAP \<and> j = nd_id (hd db) then None else node_db_lookup db j) = Some n" for n
        unfolding look' using look by auto
      then show ?thesis by (metis not_Some_eq)
    qed
    show ?thesis using inv' load(2) self other unknown by simp
  next
    case (Some k)
    note k = find_locked_Some [OF Some]
    have known: "node_db_lookup db i = Some (db ! k)" by (simp add: node_db_lookup_def Some)
    have eq: "db' = db[k := sighting l s h r (db ! k)]" unfolding load load_cases [OF inv] Some by simp
    have self: "node_db_lookup db' i = Some (sighting l s h r (db ! k))" unfolding look' using k by (simp add: eq set_update_memI)
    have other: "node_db_lookup db' j = node_db_lookup db j" if "j \<noteq> i" for j
    proof -
      have "nd_id (db' ! m) = nd_id (db ! m)" if "m < length db" for m using that k by (cases "m = k") (simp_all add: eq)
      then have "find_locked db' j = find_locked db j" unfolding find_locked_def by (intro find_cong) (simp_all add: eq)
      moreover have "m \<noteq> k" if "find_locked db j = Some m" for m using find_locked_Some [OF that] k \<open>j \<noteq> i\<close> by auto
      ultimately show ?thesis by (cases "find_locked db j") (auto simp: node_db_lookup_def eq)
    qed
    show ?thesis using inv' load(2) self other known by simp
  qed
qed

theorem node_db_bounded_map_witness:
  "let db = [node0 7]; db' = fst (node_db_remember db 9 (Some ''Alice'') None 3 0)
   in node_inv db' \<and> node_db_lookup db' 9 = Some ((node0 9)\<lparr> nd_long_name := ''Alice'', nd_hw_model := 3 \<rparr>) \<and> node_db_lookup db' 7 = Some (node0 7)"
proof -
  have inv: "node_inv [node0 7]"
    by (simp add: node_inv_def node0_def NODE_DB_CAP_def NODE_DB_LONG_NAME_def NODE_DB_SHORT_NAME_def)
  have look: "node_db_lookup [node0 7] 9 = None" "node_db_lookup [node0 7] 7 = Some (node0 7)"
    by (simp_all add: node_db_lookup_def find_locked_def node0_def)
  obtain db' saved where db': "node_db_remember [node0 7] 9 (Some ''Alice'') None 3 0 = (db', saved)" by (meson surj_pair)
  show ?thesis unfolding Let_def db' fst_conv using node_db_bounded_map [OF inv db'] look
    by (simp add: sighting_def node0_def NODE_DB_LONG_NAME_def NODE_DB_CAP_def)
qed

end
