(* ===== verification/Dedup.thy ===== *)
theory Dedup
  imports Lora_Frame Protobuf Floats "HOL-Library.Multiset"
begin

text \<open>
  The replica filter of \<^verbatim>\<open>dedup.c\<close>.  One transmission is decoded on many channelizer slots at
  once; the filter collects the replicas of a transmission in a cluster for 30 ms and keeps
  the best one.  Modelled: the payload fingerprint, the three tiers of matching, the
  tournament that picks the best replica, and the suppression of failed clusters by a later
  good one.  Floats are bit patterns of binary32, compared as C compares them; clock
  readings are arguments.  Proved: a replica with few bit errors never opens a second
  cluster, and a cluster always holds the best of its replicas.
\<close>

subsection \<open>The ring\<close>

abbreviation (input) DEDUP_RING_SIZE :: nat where "DEDUP_RING_SIZE \<equiv> 512"
abbreviation (input) DEDUP_WINDOW_US :: u64 where "DEDUP_WINDOW_US \<equiv> 30000"
abbreviation (input) DEDUP_FP_HAMMING_THRESH :: nat where "DEDUP_FP_HAMMING_THRESH \<equiv> 14"
abbreviation (input) DEDUP_FP_HAMMING_THRESH_CRCFAIL :: nat where "DEDUP_FP_HAMMING_THRESH_CRCFAIL \<equiv> 22"
abbreviation (input) DEDUP_MAX_PAYLOAD :: nat where "DEDUP_MAX_PAYLOAD \<equiv> 256"
abbreviation (input) DEDUP_SLOT_ADJACENCY_US :: u64 where "DEDUP_SLOT_ADJACENCY_US \<equiv> 500"
abbreviation (input) DEDUP_SLOT_PROXIMITY :: int where "DEDUP_SLOT_PROXIMITY \<equiv> 3"
abbreviation (input) DEDUP_TIER3_WINDOW_US :: u64 where "DEDUP_TIER3_WINDOW_US \<equiv> DEDUP_WINDOW_US"
abbreviation (input) INT16_MIN :: int where "INT16_MIN \<equiv> - 32768"
abbreviation (input) INT16_MAX :: int where "INT16_MAX \<equiv> 32767"

text \<open>The frame data with the measured values, as the decoder's callback hands it over.\<close>

record rx_meta = lora_frame_meta +
  m_rssi_db :: u32
  m_snr_db :: u32
  m_cfo_hz :: u32
  m_preamble_lock_sample_frac :: u32

definition rx_meta0 :: rx_meta where
  "rx_meta0 = \<lparr> m_sf = 0, m_cr = 0, m_bw_hz = 0, m_payload_len = 0, m_has_crc = False, m_header_crc_ok = False,
     m_payload_crc_ok = False, m_crc_corrected = False, m_crc_corrected_bits = 0,
     m_preamble_lock_sample_idx = 0, m_preamble_lock_t_ns = 0,
     m_rssi_db = 0, m_snr_db = 0, m_cfo_hz = 0, m_preamble_lock_sample_frac = 0 \<rparr>"

record dedup_entry =
  de_in_use :: bool
  de_fp :: u64
  de_sf :: int
  de_bw_hz :: int
  de_emit_at_us :: u64
  de_first_seen_t_ns :: u64
  de_best_snr_db :: u32
  de_best_payload_len :: nat
  de_best_payload :: bytes
  de_best_meta :: rx_meta
  de_best_user :: int
  de_replica_count :: int
  de_min_slot_id :: int
  de_max_slot_id :: int

text \<open>The ring and the two outcome counters.\<close>

record dedup_state =
  dd_ring :: "dedup_entry list"
  dd_suppressed_near_pass :: u64
  dd_admitted_no_pass :: u64

definition dedup_entry0 :: dedup_entry where
  "dedup_entry0 = \<lparr> de_in_use = False, de_fp = 0, de_sf = 0, de_bw_hz = 0, de_emit_at_us = 0, de_first_seen_t_ns = 0,
     de_best_snr_db = 0, de_best_payload_len = 0, de_best_payload = replicate DEDUP_MAX_PAYLOAD 0, de_best_meta = rx_meta0,
     de_best_user = 0, de_replica_count = 0, de_min_slot_id = 0, de_max_slot_id = 0 \<rparr>"

definition dedup_reset_for_test :: "dedup_state \<Rightarrow> dedup_state" where
  "dedup_reset_for_test d = d\<lparr> dd_ring := replicate DEDUP_RING_SIZE dedup_entry0 \<rparr>"

definition dedup_init :: dedup_state where
  "dedup_init = \<lparr> dd_ring = replicate DEDUP_RING_SIZE dedup_entry0, dd_suppressed_near_pass = 0, dd_admitted_no_pass = 0 \<rparr>"

subsection \<open>Fingerprint\<close>

definition popcount64 :: "u64 \<Rightarrow> nat" where
  "popcount64 w = length (filter (bit w) [0..<64])"

definition rotl1 :: "u64 \<Rightarrow> u64" where
  "rotl1 h = push_bit 1 h OR drop_bit 63 h"

text \<open>The loop over whole words: a little-endian load, an exclusive or and a rotation by one.\<close>

function fp_words :: "u64 \<Rightarrow> bytes \<Rightarrow> u64 \<times> bytes" where
  "fp_words h p =
     (if length p < 8 then (h, p)
      else let h = h XOR le_word (take 8 p)
           in fp_words (rotl1 h) (drop 8 p))"
  by pat_completeness auto
termination by (relation "measure (\<lambda>(h, p). length p)") auto

declare fp_words.simps [simp del]

definition dedup_payload_fingerprint :: "bytes \<Rightarrow> u64" where
  "dedup_payload_fingerprint p = (case fp_words 0 p of (h, tail) \<Rightarrow> h XOR le_word tail)"

subsection \<open>Matching\<close>

definition same_radio :: "int \<Rightarrow> int \<Rightarrow> dedup_entry \<Rightarrow> bool" where
  "same_radio f_sf f_bw e \<longleftrightarrow> de_in_use e \<and> de_sf e = f_sf \<and> de_bw_hz e = f_bw"

definition opened_within :: "u64 \<Rightarrow> u64 \<Rightarrow> dedup_entry \<Rightarrow> bool" where
  "opened_within now_us window e \<longleftrightarrow>
     (let cluster_open_us = de_emit_at_us e - DEDUP_WINDOW_US
      in \<not> now_us < cluster_open_us \<and> \<not> now_us - cluster_open_us > window)"

text \<open>Tier 1: the first cluster of a close fingerprint, and the first free slot seen on the way.\<close>

primrec tier1 :: "int \<Rightarrow> int \<Rightarrow> u64 \<Rightarrow> nat \<Rightarrow> dedup_entry list \<Rightarrow> nat option \<Rightarrow> nat list \<Rightarrow> nat option \<times> nat option" where
  "tier1 f_sf f_bw fp thresh ring free_slot [] = (None, free_slot)"
| "tier1 f_sf f_bw fp thresh ring free_slot (i # is) =
     (let e = ring ! i
      in if \<not> de_in_use e then tier1 f_sf f_bw fp thresh ring (if free_slot = None then Some i else free_slot) is
         else if de_sf e \<noteq> f_sf \<or> de_bw_hz e \<noteq> f_bw then tier1 f_sf f_bw fp thresh ring free_slot is
         else if popcount64 (de_fp e XOR fp) \<le> thresh then (Some i, free_slot)
         else tier1 f_sf f_bw fp thresh ring free_slot is)"

definition tier2_hit :: "int \<Rightarrow> int \<Rightarrow> u64 \<Rightarrow> int \<Rightarrow> dedup_entry \<Rightarrow> bool" where
  "tier2_hit f_sf f_bw now_us slot_id e \<longleftrightarrow>
     same_radio f_sf f_bw e \<and> de_min_slot_id e \<noteq> INT16_MIN \<and> opened_within now_us DEDUP_SLOT_ADJACENCY_US e
     \<and> \<not> de_min_slot_id e - slot_id > DEDUP_SLOT_PROXIMITY \<and> \<not> slot_id - de_max_slot_id e > DEDUP_SLOT_PROXIMITY"

definition tier3_hit :: "int \<Rightarrow> int \<Rightarrow> u64 \<Rightarrow> dedup_entry \<Rightarrow> bool" where
  "tier3_hit f_sf f_bw now_us e \<longleftrightarrow>
     same_radio f_sf f_bw e \<and> m_payload_crc_ok (de_best_meta e) \<and> opened_within now_us DEDUP_TIER3_WINDOW_US e"

definition reverse_hit :: "int \<Rightarrow> int \<Rightarrow> u64 \<Rightarrow> dedup_entry \<Rightarrow> bool" where
  "reverse_hit f_sf f_bw now_us e \<longleftrightarrow>
     same_radio f_sf f_bw e \<and> \<not> m_payload_crc_ok (de_best_meta e) \<and> opened_within now_us DEDUP_TIER3_WINDOW_US e"

subsection \<open>Replicas\<close>

text \<open>A replica: its payload, the frame data if the caller has them, and the slot it was decoded on.\<close>

type_synonym replica = "bytes \<times> rx_meta option \<times> int"

definition replica_sf :: "rx_meta option \<Rightarrow> int" where
  "replica_sf fm = (case fm of Some m \<Rightarrow> m_sf m | None \<Rightarrow> 0)"

definition replica_bw :: "rx_meta option \<Rightarrow> int" where
  "replica_bw fm = (case fm of Some m \<Rightarrow> m_bw_hz m | None \<Rightarrow> 0)"

definition replica_snr :: "rx_meta option \<Rightarrow> u32" where
  "replica_snr fm = (case fm of Some m \<Rightarrow> m_snr_db m | None \<Rightarrow> 0)"

definition crc_bad :: "rx_meta option \<Rightarrow> bool" where
  "crc_bad fm \<longleftrightarrow> (case fm of Some m \<Rightarrow> m_has_crc m \<and> \<not> m_payload_crc_ok m | None \<Rightarrow> False)"

definition fp_thresh :: "rx_meta option \<Rightarrow> nat" where
  "fp_thresh fm = (if crc_bad fm then DEDUP_FP_HAMMING_THRESH_CRCFAIL else DEDUP_FP_HAMMING_THRESH)"

definition slot_id_valid :: "int \<Rightarrow> bool" where
  "slot_id_valid user \<longleftrightarrow> 0 \<le> user \<and> user < INT16_MAX"

definition replica_good :: "rx_meta option \<Rightarrow> bool" where
  "replica_good fm \<longleftrightarrow> (case fm of Some m \<Rightarrow> m_payload_crc_ok m | None \<Rightarrow> False)"

definition tournament :: "rx_meta option \<Rightarrow> dedup_entry \<Rightarrow> bool" where
  "tournament fm e =
     (let new_good = replica_good fm; cur_good = m_payload_crc_ok (de_best_meta e)
      in if new_good \<and> \<not> cur_good then True
         else if \<not> new_good \<and> cur_good then False
         else f32_gt (replica_snr fm) (de_best_snr_db e))"

definition take_best :: "replica \<Rightarrow> dedup_entry \<Rightarrow> dedup_entry" where
  "take_best rep e = (case rep of (payload, fm, user) \<Rightarrow>
     e\<lparr> de_best_snr_db := replica_snr fm, de_best_payload_len := length payload,
        de_best_payload := overwrite payload (de_best_payload e),
        de_best_meta := (case fm of Some m \<Rightarrow> m | None \<Rightarrow> de_best_meta e),
        de_best_user := user, de_fp := dedup_payload_fingerprint payload \<rparr>)"

definition widen_slots :: "int \<Rightarrow> dedup_entry \<Rightarrow> dedup_entry" where
  "widen_slots user e =
     (if slot_id_valid user
      then e\<lparr> de_min_slot_id := (if de_min_slot_id e = INT16_MIN \<or> user < de_min_slot_id e then user else de_min_slot_id e),
              de_max_slot_id := (if de_max_slot_id e = INT16_MIN \<or> user > de_max_slot_id e then user else de_max_slot_id e) \<rparr>
      else e)"

definition dedup_fold :: "replica \<Rightarrow> dedup_entry \<Rightarrow> dedup_entry" where
  "dedup_fold rep e = (case rep of (payload, fm, user) \<Rightarrow>
     let e = e\<lparr> de_replica_count := de_replica_count e + 1 \<rparr>;
         e = (if tournament fm e then take_best rep e else e)
     in widen_slots user e)"

definition dedup_open :: "u64 \<Rightarrow> u64 \<Rightarrow> replica \<Rightarrow> dedup_entry \<Rightarrow> dedup_entry" where
  "dedup_open now_us realtime_ns rep e = (case rep of (payload, fm, user) \<Rightarrow>
     (take_best rep e)\<lparr> de_in_use := True, de_sf := replica_sf fm, de_bw_hz := replica_bw fm,
        de_emit_at_us := now_us + DEDUP_WINDOW_US, de_first_seen_t_ns := realtime_ns, de_replica_count := 1,
        de_min_slot_id := (if slot_id_valid user then user else INT16_MIN),
        de_max_slot_id := (if slot_id_valid user then user else INT16_MIN) \<rparr>)"

definition suppress_failed :: "rx_meta option \<Rightarrow> u64 \<Rightarrow> dedup_state \<Rightarrow> dedup_state" where
  "suppress_failed fm now_us d =
     (let hit = reverse_hit (replica_sf fm) (replica_bw fm) now_us
      in d\<lparr> dd_ring := map (\<lambda>e. if hit e then e\<lparr> de_in_use := False \<rparr> else e) (dd_ring d),
            dd_suppressed_near_pass := dd_suppressed_near_pass d + of_nat (length (filter hit (dd_ring d))) \<rparr>)"

text \<open>
  \<^verbatim>\<open>dedup_buffer\<close> after its length check: the search for a cluster in three tiers, then the
  fold into it, or the opening of a new one, or the drop on a full ring.
\<close>

definition find_cluster :: "replica \<Rightarrow> u64 \<Rightarrow> dedup_state \<Rightarrow> nat option \<times> nat option \<times> dedup_state" where
  "find_cluster rep now_us d = (case rep of (payload, fm, user) \<Rightarrow>
     let ring = dd_ring d; f_sf = replica_sf fm; f_bw = replica_bw fm;
         (m1, free_slot) = tier1 f_sf f_bw (dedup_payload_fingerprint payload) (fp_thresh fm) ring None [0..<DEDUP_RING_SIZE];
         m2 = (if m1 = None \<and> slot_id_valid user
               then find (\<lambda>i. tier2_hit f_sf f_bw now_us user (ring ! i)) [0..<DEDUP_RING_SIZE] else m1)
     in if m2 = None \<and> crc_bad fm
        then case find (\<lambda>i. tier3_hit f_sf f_bw now_us (ring ! i)) [0..<DEDUP_RING_SIZE] of
               Some i \<Rightarrow> (Some i, free_slot, d\<lparr> dd_suppressed_near_pass := dd_suppressed_near_pass d + 1 \<rparr>)
             | None \<Rightarrow> (None, free_slot, d)
        else (m2, free_slot, d))"

definition dedup_buffer :: "bytes option \<Rightarrow> rx_meta option \<Rightarrow> int \<Rightarrow> u64 \<Rightarrow> u64 \<Rightarrow> dedup_state \<Rightarrow> dedup_state" where
  "dedup_buffer payload fm user now_us realtime_ns d =
     (case payload of
        None \<Rightarrow> d
      | Some p \<Rightarrow>
          if length p < 14 \<or> DEDUP_MAX_PAYLOAD < length p then d
          else case find_cluster (p, fm, user) now_us d of
                 (Some i, _, d) \<Rightarrow> d\<lparr> dd_ring := (dd_ring d)[i := dedup_fold (p, fm, user) (dd_ring d ! i)] \<rparr>
               | (None, Some i, d) \<Rightarrow>
                   let d = (if \<not> crc_bad fm then suppress_failed fm now_us d else d)
                   in d\<lparr> dd_ring := (dd_ring d)[i := dedup_open now_us realtime_ns (p, fm, user) (dd_ring d ! i)],
                         dd_admitted_no_pass := dd_admitted_no_pass d + (if crc_bad fm then 1 else 0) \<rparr>
               | (None, None, d) \<Rightarrow> d)"

subsection \<open>The fingerprint as a code\<close>

text \<open>The number of bit positions in which two payloads of one length differ.\<close>

definition bit_errors :: "bytes \<Rightarrow> bytes \<Rightarrow> nat" where
  "bit_errors p q = length (filter (\<lambda>n. bit (p ! (n div 8)) (n mod 8) \<noteq> bit (q ! (n div 8)) (n mod 8)) [0..<8 * length p])"

lemma bit_errors_card:
  "bit_errors p q = card {n. n < 8 * length p \<and> bit (p ! (n div 8)) (n mod 8) \<noteq> bit (q ! (n div 8)) (n mod 8)}"
  by (simp add: bit_errors_def distinct_card [symmetric] del: upt_Suc)

lemma popcount64_card: "popcount64 w = card {n. bit w n}"
proof -
  have "set (filter (bit w) [0..<64]) = {n. bit w n}" by (auto dest: bit_imp_le_length)
  then show ?thesis by (simp add: popcount64_def distinct_card [symmetric] del: upt_Suc)
qed

lemma finite_bits [simp]: "finite {n. bit (w :: 'a::len word) n}"
  by (rule finite_subset [of _ "{..<LENGTH('a)}"]) (auto dest: bit_imp_le_length)

lemma popcount64_xor: "popcount64 (a XOR b) \<le> popcount64 a + popcount64 b"
proof -
  have "card {n. bit (a XOR b) n} \<le> card ({n. bit a n} \<union> {n. bit b n})"
    by (rule card_mono) (auto simp: bit_xor_iff)
  also have "\<dots> \<le> card {n. bit a n} + card {n. bit b n}" by (rule card_Un_le)
  finally show ?thesis by (simp add: popcount64_card)
qed

lemma bit_rotl1: "bit (rotl1 w) n \<longleftrightarrow> n < 64 \<and> bit w (if n = 0 then 63 else n - 1)"
proof -
  have "bit (push_bit 1 w) n \<longleftrightarrow> 0 < n \<and> n < 64 \<and> bit w (n - 1)"
    unfolding bit_push_bit_iff by (auto dest: bit_imp_le_length)
  moreover have "bit (drop_bit 63 w) n \<longleftrightarrow> n = 0 \<and> bit w 63"
    unfolding bit_drop_bit_eq by (cases n) (auto dest: bit_imp_le_length)
  ultimately show ?thesis by (auto simp: rotl1_def bit_or_iff)
qed

lemma popcount64_rotl1: "popcount64 (rotl1 w) = popcount64 w"
proof -
  let ?f = "\<lambda>n :: nat. if n = 63 then 0 else n + 1"
  have "{n. bit (rotl1 w) n} = ?f ` {n. bit w n}"
  proof (intro set_eqI iffI)
    fix n assume "n \<in> {n. bit (rotl1 w) n}"
    then have "n = ?f (if n = 0 then 63 else n - 1)" "bit w (if n = 0 then 63 else n - 1)" by (auto simp: bit_rotl1)
    then show "n \<in> ?f ` {n. bit w n}" by blast
  next
    fix n assume "n \<in> ?f ` {n. bit w n}"
    then obtain m where "bit w m" "n = ?f m" by blast
    then show "n \<in> {n. bit (rotl1 w) n}" by (auto simp: bit_rotl1 dest: bit_imp_le_length)
  qed
  moreover have "inj_on ?f {n. bit w n}" by (auto simp: inj_on_def split: if_splits)
  ultimately show ?thesis unfolding popcount64_card by (simp only: card_image)
qed

lemma rotl1_xor: "rotl1 a XOR rotl1 b = rotl1 (a XOR b)"
  by (rule bit_word_eqI) (auto simp: bit_xor_iff bit_rotl1)

lemma popcount64_le_word:
  assumes "length p = length q"
  shows "popcount64 (le_word p XOR le_word q) \<le> bit_errors p q"
  unfolding popcount64_card bit_errors_card
  by (rule card_mono) (use assms in \<open>auto simp: bit_xor_iff bit_le_word\<close>)

lemma bit_errors_split:
  assumes "length p = length q" "k \<le> length p"
  shows "bit_errors p q = bit_errors (take k p) (take k q) + bit_errors (drop k p) (drop k q)"
proof -
  let ?D = "\<lambda>p q. {n. n < 8 * length p \<and> bit (p ! (n div 8)) (n mod 8) \<noteq> bit (q ! (n div 8)) (n mod 8)}"
  have "?D p q = ?D (take k p) (take k q) \<union> (\<lambda>n. n + 8 * k) ` ?D (drop k p) (drop k q)"
  proof (intro set_eqI iffI)
    fix n assume n: "n \<in> ?D p q"
    show "n \<in> ?D (take k p) (take k q) \<union> (\<lambda>n. n + 8 * k) ` ?D (drop k p) (drop k q)"
    proof (cases "n < 8 * k")
      case True
      then show ?thesis using n assms by auto
    next
      case False
      then obtain m where m: "n = m + 8 * k" by (metis add.commute le_Suc_ex not_less)
      then have "n div 8 = k + m div 8" "n mod 8 = m mod 8" by simp_all
      then have "m \<in> ?D (drop k p) (drop k q)" using n m assms by auto
      then show ?thesis using m by blast
    qed
  qed (use assms in \<open>auto simp: add.commute\<close>)
  moreover have "?D (take k p) (take k q) \<inter> (\<lambda>n. n + 8 * k) ` ?D (drop k p) (drop k q) = {}" using assms by auto
  ultimately show ?thesis unfolding bit_errors_card by (simp add: card_Un_disjoint card_image)
qed

lemma fp_words_near:
  "length p = length q \<Longrightarrow> fp_words a p = (h, s) \<Longrightarrow> fp_words b q = (g, t) \<Longrightarrow>
     popcount64 ((h XOR le_word s) XOR (g XOR le_word t)) \<le> popcount64 (a XOR b) + bit_errors p q"
proof (induction a p arbitrary: b q rule: fp_words.induct)
  case (1 a p)
  show ?case
  proof (cases "length p < 8")
    case True
    then have "h = a" "s = p" "g = b" "t = q" using 1 by (auto simp: fp_words.simps [of _ p] fp_words.simps [of _ q])
    then have "(h XOR le_word s) XOR (g XOR le_word t) = (a XOR b) XOR (le_word p XOR le_word q)"
      by (simp add: xor.commute xor.left_commute)
    then show ?thesis using popcount64_xor [of "a XOR b" "le_word p XOR le_word q"] popcount64_le_word [OF 1(2)] by simp
  next
    case False
    let ?a = "a XOR le_word (take 8 p)" and ?b = "b XOR le_word (take 8 q)"
    have "popcount64 ((h XOR le_word s) XOR (g XOR le_word t))
        \<le> popcount64 (rotl1 ?a XOR rotl1 ?b) + bit_errors (drop 8 p) (drop 8 q)"
      using 1 False by (intro "1.IH") (auto simp: fp_words.simps [of _ p] fp_words.simps [of _ q] Let_def)
    also have "popcount64 (rotl1 ?a XOR rotl1 ?b) = popcount64 ((a XOR b) XOR (le_word (take 8 p) XOR le_word (take 8 q)))"
      unfolding rotl1_xor popcount64_rotl1 by (simp add: ac_simps)
    also have "\<dots> \<le> popcount64 (a XOR b) + bit_errors (take 8 p) (take 8 q)"
      using popcount64_xor [of "a XOR b" "le_word (take 8 p) XOR le_word (take 8 q)"] popcount64_le_word [of "take 8 p" "take 8 q"] 1(2) by simp
    finally show ?thesis using bit_errors_split [OF 1(2), of 8] False by simp
  qed
qed

lemma fingerprint_near:
  "length p = length q \<Longrightarrow> popcount64 (dedup_payload_fingerprint p XOR dedup_payload_fingerprint q) \<le> bit_errors p q"
  using fp_words_near [of p q 0 _ _ 0] by (auto simp: dedup_payload_fingerprint_def popcount64_def split: prod.split)

subsection \<open>The matching loops\<close>

lemma tier1_Some:
  assumes "tier1 s w fp th ring free xs = (Some i, free')"
  shows "i \<in> set xs \<and> same_radio s w (ring ! i) \<and> popcount64 (de_fp (ring ! i) XOR fp) \<le> th"
  using assms by (induction xs arbitrary: free) (auto simp: Let_def same_radio_def split: if_splits)

lemma tier1_None:
  assumes "tier1 s w fp th ring free xs = (None, free')"
  shows "(\<forall>i \<in> set xs. \<not> (same_radio s w (ring ! i) \<and> popcount64 (de_fp (ring ! i) XOR fp) \<le> th))
    \<and> free' = (if free = None then find (\<lambda>i. \<not> de_in_use (ring ! i)) xs else free)"
  using assms
proof (induction xs arbitrary: free)
  case (Cons i xs)
  then show ?case using Cons.IH [of "if \<not> de_in_use (ring ! i) \<and> free = None then Some i else free"]
    by (cases free) (auto simp: Let_def same_radio_def split: if_splits)
qed simp

lemma find_cluster_Some:
  assumes "find_cluster (p, fm, user) now d = (Some i, free, d')"
  shows "i < DEDUP_RING_SIZE \<and> same_radio (replica_sf fm) (replica_bw fm) (dd_ring d ! i) \<and> dd_ring d' = dd_ring d"
  using assms by (auto simp: find_cluster_def Let_def find_map_upt_Some tier2_hit_def tier3_hit_def
      dest: tier1_Some split: prod.splits if_splits option.splits simp del: upt_Suc)

lemma find_cluster_None:
  assumes "find_cluster (p, fm, user) now d = (None, free, d')"
  shows "d' = d \<and> free = find (\<lambda>i. \<not> de_in_use (dd_ring d ! i)) [0..<DEDUP_RING_SIZE]"
  using assms by (auto simp: find_cluster_def Let_def
      dest: tier1_None split: prod.splits if_splits option.splits simp del: upt_Suc)

subsection \<open>Reachable rings\<close>

text \<open>
  Histories of the ring: replicas arrive in any order and with any clock readings, and the
  drainer releases clusters at any time.
\<close>

definition release :: "nat \<Rightarrow> dedup_state \<Rightarrow> dedup_state" where
  "release i d = d\<lparr> dd_ring := (dd_ring d)[i := (dd_ring d ! i)\<lparr> de_in_use := False \<rparr>] \<rparr>"

inductive dedup_reach :: "replica list \<Rightarrow> dedup_state \<Rightarrow> bool" where
  start: "dedup_reach [] dedup_init"
| arrive: "dedup_reach h d \<Longrightarrow> dedup_reach (h @ [(p, fm, user)]) (dedup_buffer (Some p) fm user now_us realtime_ns d)"
| leave: "dedup_reach h d \<Longrightarrow> i < DEDUP_RING_SIZE \<Longrightarrow> dedup_reach h (release i d)"

definition best_frame :: "dedup_entry \<Rightarrow> bytes" where
  "best_frame e = take (de_best_payload_len e) (de_best_payload e)"

text \<open>The order of the tournament: a good frame outranks a failed one, then the stronger signal wins.\<close>

definition outranks :: "rx_meta \<Rightarrow> rx_meta \<Rightarrow> bool" where
  "outranks m' m \<longleftrightarrow> m_payload_crc_ok m' \<and> \<not> m_payload_crc_ok m
     \<or> m_payload_crc_ok m' = m_payload_crc_ok m \<and> f32_gt (m_snr_db m') (m_snr_db m)"

definition measured :: "replica \<Rightarrow> bool" where
  "measured rep \<longleftrightarrow> (case rep of (p, fm, u) \<Rightarrow> \<exists>m. fm = Some m \<and> \<not> f32_nan (m_snr_db m))"

definition keeps_best :: "replica list \<Rightarrow> dedup_entry \<Rightarrow> bool" where
  "keeps_best rs e \<longleftrightarrow> (best_frame e, Some (de_best_meta e), de_best_user e) \<in> set rs
     \<and> (\<forall>(p, fm, u) \<in> set rs. \<forall>m. fm = Some m \<longrightarrow> \<not> outranks m (de_best_meta e))"

definition same_modem :: "replica list \<Rightarrow> dedup_entry \<Rightarrow> bool" where
  "same_modem rs e \<longleftrightarrow> (\<forall>(p, fm, u) \<in> set rs. replica_sf fm = de_sf e \<and> replica_bw fm = de_bw_hz e)"

text \<open>What an open cluster remembers of the replicas folded into it.\<close>

definition cluster_of :: "replica list \<Rightarrow> dedup_entry \<Rightarrow> bool" where
  "cluster_of rs e \<longleftrightarrow> rs \<noteq> [] \<and> de_replica_count e = int (length rs) \<and> same_modem rs e
     \<and> (\<forall>(p, fm, u) \<in> set rs. 14 \<le> length p \<and> length p \<le> DEDUP_MAX_PAYLOAD)
     \<and> de_fp e = dedup_payload_fingerprint (best_frame e)
     \<and> (list_all measured rs \<longrightarrow> keeps_best rs e \<and> de_best_snr_db e = m_snr_db (de_best_meta e))"

definition ring_inv :: "replica list \<Rightarrow> (nat \<Rightarrow> replica list) \<Rightarrow> dedup_state \<Rightarrow> bool" where
  "ring_inv h g d \<longleftrightarrow> length (dd_ring d) = DEDUP_RING_SIZE
     \<and> (\<forall>e \<in> set (dd_ring d). length (de_best_payload e) = DEDUP_MAX_PAYLOAD)
     \<and> (\<forall>i < DEDUP_RING_SIZE. de_in_use (dd_ring d ! i) \<longrightarrow> cluster_of (g i) (dd_ring d ! i))
     \<and> (\<Sum>i < DEDUP_RING_SIZE. mset (g i)) \<subseteq># mset h"

lemma outranks_trans:
  "\<not> f32_nan (m_snr_db a) \<Longrightarrow> \<not> f32_nan (m_snr_db b) \<Longrightarrow> \<not> f32_nan (m_snr_db c) \<Longrightarrow> outranks a b \<Longrightarrow> \<not> outranks a c \<Longrightarrow> \<not> outranks b c"
  by (auto simp: outranks_def f32_gt_def)

lemma take_best_frame:
  "length p \<le> length (de_best_payload e) \<Longrightarrow> best_frame (take_best (p, fm, u) e) = p"
  by (simp add: take_best_def best_frame_def)

lemma best_frame_count [simp]: "best_frame (e\<lparr> de_replica_count := n \<rparr>) = best_frame e"
  by (simp add: best_frame_def)

lemma widen_slots_simps [simp]:
  "de_in_use (widen_slots u e) = de_in_use e" "de_fp (widen_slots u e) = de_fp e" "de_sf (widen_slots u e) = de_sf e"
  "de_bw_hz (widen_slots u e) = de_bw_hz e" "de_best_snr_db (widen_slots u e) = de_best_snr_db e"
  "de_best_payload (widen_slots u e) = de_best_payload e" "de_best_meta (widen_slots u e) = de_best_meta e"
  "de_best_user (widen_slots u e) = de_best_user e" "de_replica_count (widen_slots u e) = de_replica_count e"
  "de_emit_at_us (widen_slots u e) = de_emit_at_us e" "best_frame (widen_slots u e) = best_frame e"
  by (simp_all add: widen_slots_def best_frame_def)

lemma take_best_simps [simp]:
  "de_in_use (take_best r e) = de_in_use e" "de_sf (take_best r e) = de_sf e" "de_bw_hz (take_best r e) = de_bw_hz e"
  "de_replica_count (take_best r e) = de_replica_count e" "de_emit_at_us (take_best r e) = de_emit_at_us e"
  by (simp_all add: take_best_def split: prod.split)

lemma dedup_fold_simps [simp]:
  "de_in_use (dedup_fold r e) = de_in_use e" "de_sf (dedup_fold r e) = de_sf e" "de_bw_hz (dedup_fold r e) = de_bw_hz e"
  "de_replica_count (dedup_fold r e) = de_replica_count e + 1" "de_emit_at_us (dedup_fold r e) = de_emit_at_us e"
  by (simp_all add: dedup_fold_def Let_def split: prod.split)

lemma open_cluster:
  assumes "length p \<le> DEDUP_MAX_PAYLOAD" "14 \<le> length p" "length (de_best_payload e) = DEDUP_MAX_PAYLOAD"
  shows "cluster_of [(p, fm, u)] (dedup_open now rt (p, fm, u) e)"
  using assms take_best_frame [of p e fm u]
  by (auto simp: cluster_of_def dedup_open_def same_modem_def keeps_best_def measured_def best_frame_def take_best_def
      outranks_def f32_gt_def replica_snr_def)

lemma fold_cluster:
  assumes cl: "cluster_of rs e" and len: "length p \<le> DEDUP_MAX_PAYLOAD" "14 \<le> length p" "length (de_best_payload e) = DEDUP_MAX_PAYLOAD"
    and radio: "replica_sf fm = de_sf e" "replica_bw fm = de_bw_hz e"
  shows "cluster_of (rs @ [(p, fm, u)]) (dedup_fold (p, fm, u) e)"
proof -
  let ?e = "e\<lparr> de_replica_count := de_replica_count e + 1 \<rparr>"
  have "de_fp (dedup_fold (p, fm, u) e) = dedup_payload_fingerprint (best_frame (dedup_fold (p, fm, u) e))"
    using cl len take_best_frame [of p ?e fm u] by (auto simp: dedup_fold_def cluster_of_def Let_def) (auto simp: take_best_def best_frame_def)
  moreover have "keeps_best (rs @ [(p, fm, u)]) (dedup_fold (p, fm, u) e)
      \<and> de_best_snr_db (dedup_fold (p, fm, u) e) = m_snr_db (de_best_meta (dedup_fold (p, fm, u) e))"
    if meas: "list_all measured (rs @ [(p, fm, u)])"
  proof -
    obtain m where m: "fm = Some m" "\<not> f32_nan (m_snr_db m)" using meas by (auto simp: measured_def)
    have kb: "keeps_best rs e" and snr: "de_best_snr_db e = m_snr_db (de_best_meta e)" using cl meas by (auto simp: cluster_of_def)
    then have nn: "\<not> f32_nan (m_snr_db (de_best_meta e))" using meas by (force simp: keeps_best_def list_all_iff measured_def)
    have t: "tournament fm ?e \<longleftrightarrow> outranks m (de_best_meta e)"
      using m snr by (auto simp: tournament_def outranks_def replica_good_def replica_snr_def Let_def)
    show ?thesis
    proof (cases "outranks m (de_best_meta e)")
      case True
      have "\<not> outranks m' m" if "(p', Some m', u') \<in> set rs" for p' m' u'
      proof -
        have "\<not> outranks m' (de_best_meta e)" "\<not> f32_nan (m_snr_db m')"
          using that kb meas by (auto simp: keeps_best_def list_all_iff measured_def)
        then show ?thesis using True nn m by (auto simp: outranks_def f32_gt_def)
      qed
      moreover have "\<not> outranks m m" by (simp add: outranks_def f32_gt_def)
      ultimately show ?thesis using True t m len take_best_frame [of p ?e fm u]
        by (auto simp: dedup_fold_def keeps_best_def) (auto simp: take_best_def replica_snr_def)
    next
      case False
      then show ?thesis using t kb snr m by (auto simp: dedup_fold_def keeps_best_def)
    qed
  qed
  ultimately show ?thesis
    using cl len radio by (auto simp: cluster_of_def same_modem_def)
qed

lemma sum_mset_upd:
  assumes "i < (n :: nat)"
  shows "(\<Sum>j<n. mset ((g(i := xs)) j)) + mset (g i) = (\<Sum>j<n. mset (g j)) + mset xs"
proof -
  have "(\<Sum>j\<in>{..<n} - {i}. mset ((g(i := xs)) j)) = (\<Sum>j\<in>{..<n} - {i}. mset (g j))" by (rule sum.cong) auto
  moreover have "(\<Sum>j<n. mset ((g(i := xs)) j)) = mset xs + (\<Sum>j\<in>{..<n} - {i}. mset ((g(i := xs)) j))"
    using assms by (subst sum.remove [of _ i]) simp_all
  moreover have "(\<Sum>j<n. mset (g j)) = mset (g i) + (\<Sum>j\<in>{..<n} - {i}. mset (g j))"
    using assms by (subst sum.remove [of _ i]) simp_all
  ultimately show ?thesis by (simp only: ac_simps)
qed

lemma ring_inv_init: "ring_inv [] (\<lambda>i. []) dedup_init"
  by (simp add: ring_inv_def dedup_init_def dedup_entry0_def)

lemma ring_inv_more: "ring_inv h g d \<Longrightarrow> ring_inv (h @ r) g d"
  by (auto simp: ring_inv_def intro: subset_mset.order_trans)

text \<open>Freeing entries, by the drainer or by the reverse suppression, changes nothing else.\<close>

lemma ring_inv_free:
  assumes "ring_inv h g d" "length (dd_ring d') = length (dd_ring d)"
    and "\<And>i. i < DEDUP_RING_SIZE \<Longrightarrow> dd_ring d' ! i = dd_ring d ! i \<or> dd_ring d' ! i = (dd_ring d ! i)\<lparr> de_in_use := False \<rparr>"
  shows "ring_inv h g d'"
proof -
  have len: "length (dd_ring d') = DEDUP_RING_SIZE" using assms by (simp add: ring_inv_def)
  have "length (de_best_payload (dd_ring d' ! i)) = DEDUP_MAX_PAYLOAD" if "i < DEDUP_RING_SIZE" for i
    using assms(1) assms(3) [OF that] that by (auto simp: ring_inv_def)
  moreover have "cluster_of (g i) (dd_ring d' ! i)" if "i < DEDUP_RING_SIZE" "de_in_use (dd_ring d' ! i)" for i
    using assms(1) assms(3) [OF that(1)] that by (auto simp: ring_inv_def)
  ultimately show ?thesis using assms(1) len by (auto simp: ring_inv_def in_set_conv_nth)
qed

lemma ring_inv_update:
  assumes inv: "ring_inv h g d" and i: "i < DEDUP_RING_SIZE"
    and e: "cluster_of xs e" "length (de_best_payload e) = DEDUP_MAX_PAYLOAD" and xs: "mset xs \<subseteq># add_mset r (mset (g i))"
  shows "ring_inv (h @ [r]) (g(i := xs)) (d\<lparr> dd_ring := (dd_ring d)[i := e] \<rparr>)"
proof -
  have "(\<Sum>j<DEDUP_RING_SIZE. mset ((g(i := xs)) j)) + mset (g i) \<subseteq># mset h + add_mset r (mset (g i))"
    unfolding sum_mset_upd [OF i] by (rule subset_mset.add_mono) (use inv xs in \<open>auto simp: ring_inv_def\<close>)
  then have "(\<Sum>j<DEDUP_RING_SIZE. mset ((g(i := xs)) j)) \<subseteq># mset (h @ [r])"
    by (simp del: fun_upd_apply)
  then show ?thesis using inv e by (auto simp: ring_inv_def nth_list_update dest!: set_update_subset_insert [THEN subsetD])
qed

lemma fold_payload_len:
  "length p \<le> length (de_best_payload e) \<Longrightarrow> length (de_best_payload (dedup_fold (p, fm, u) e)) = length (de_best_payload e)"
  by (simp add: dedup_fold_def Let_def take_best_def)

lemma ring_inv_buffer:
  assumes inv: "ring_inv h g d"
  shows "\<exists>g'. ring_inv (h @ [(p, fm, u)]) g' (dedup_buffer (Some p) fm u now rt d)"
proof (cases "length p < 14 \<or> DEDUP_MAX_PAYLOAD < length p")
  case True
  then show ?thesis using ring_inv_more [OF inv] by (auto simp: dedup_buffer_def)
next
  case False
  obtain m free d1 where f: "find_cluster (p, fm, u) now d = (m, free, d1)" by (cases "find_cluster (p, fm, u) now d")
  have pay: "length (de_best_payload (dd_ring d ! i)) = DEDUP_MAX_PAYLOAD" if "i < DEDUP_RING_SIZE" for i using inv that by (auto simp: ring_inv_def)
  show ?thesis
  proof (cases m)
    case (Some i)
    from find_cluster_Some [OF f [unfolded Some]] have i: "i < DEDUP_RING_SIZE" and r: "dd_ring d1 = dd_ring d"
      and s: "same_radio (replica_sf fm) (replica_bw fm) (dd_ring d ! i)" by auto
    have inv1: "ring_inv h g d1" using inv r by (simp add: ring_inv_def)
    have "cluster_of (g i) (dd_ring d ! i)" using inv i s by (simp add: ring_inv_def same_radio_def)
    then have "cluster_of (g i @ [(p, fm, u)]) (dedup_fold (p, fm, u) (dd_ring d ! i))"
      using False s pay [OF i] by (intro fold_cluster) (auto simp: same_radio_def)
    from ring_inv_update [OF inv1 i this, of "(p, fm, u)"] show ?thesis
      using False f Some r pay [OF i] by (auto simp: dedup_buffer_def fold_payload_len)
  next
    case None
    note free = find_cluster_None [OF f [unfolded None]]
    show ?thesis
    proof (cases free)
      case None
      then show ?thesis using f \<open>m = None\<close> free ring_inv_more [OF inv] False by (auto simp: dedup_buffer_def)
    next
      case (Some i)
      have found: "find_cluster (p, fm, u) now d = (None, Some i, d)" using f \<open>m = None\<close> free Some by metis
      let ?d = "if \<not> crc_bad fm then suppress_failed fm now d else d"
      have i: "i < DEDUP_RING_SIZE" using free Some find_map_upt_Some by metis
      have inv1: "ring_inv h g ?d" using inv
        by (auto simp: suppress_failed_def Let_def ring_inv_def [of h g d] intro!: ring_inv_free [OF inv])
      then have "length (de_best_payload (dd_ring ?d ! i)) = DEDUP_MAX_PAYLOAD" using i by (simp add: ring_inv_def)
      note e = this open_cluster [of p "dd_ring ?d ! i" fm u now rt]
      have "ring_inv (h @ [(p, fm, u)]) (g(i := [(p, fm, u)])) (?d\<lparr> dd_ring := (dd_ring ?d)[i := dedup_open now rt (p, fm, u) (dd_ring ?d ! i)] \<rparr>)"
        using e False by (intro ring_inv_update [OF inv1 i]) (auto simp: dedup_open_def take_best_def)
      moreover have "dd_ring (dedup_buffer (Some p) fm u now rt d) = (dd_ring ?d)[i := dedup_open now rt (p, fm, u) (dd_ring ?d ! i)]"
        using False by (simp add: dedup_buffer_def Let_def found)
      ultimately have "ring_inv (h @ [(p, fm, u)]) (g(i := [(p, fm, u)])) (dedup_buffer (Some p) fm u now rt d)"
        by (simp add: ring_inv_def)
      then show ?thesis by blast
    qed
  qed
qed

lemma reach_inv: "dedup_reach h d \<Longrightarrow> \<exists>g. ring_inv h g d"
proof (induction rule: dedup_reach.induct)
  case (leave h d i)
  then obtain g where g: "ring_inv h g d" by blast
  then have "ring_inv h g (release i d)" using leave
    by (intro ring_inv_free [OF g]) (auto simp: release_def nth_list_update g [unfolded ring_inv_def] ring_inv_def)
  then show ?case by blast
qed (use ring_inv_init ring_inv_buffer in blast)+

subsection \<open>What the filter promises\<close>

lemma tier1_find:
  "fst (tier1 s w fp th ring free xs) = find (\<lambda>i. same_radio s w (ring ! i) \<and> popcount64 (de_fp (ring ! i) XOR fp) \<le> th) xs"
  by (induction xs arbitrary: free) (auto simp: Let_def same_radio_def)

lemma buffer_near:
  assumes "i < DEDUP_RING_SIZE" "same_radio (replica_sf fm) (replica_bw fm) (dd_ring d ! i)"
    and "popcount64 (de_fp (dd_ring d ! i) XOR dedup_payload_fingerprint q) \<le> fp_thresh fm"
    and "14 \<le> length q" "length q \<le> DEDUP_MAX_PAYLOAD"
  shows "\<exists>j \<le> i. same_radio (replica_sf fm) (replica_bw fm) (dd_ring d ! j)
    \<and> dedup_buffer (Some q) fm user now rt d = d\<lparr> dd_ring := (dd_ring d)[j := dedup_fold (q, fm, user) (dd_ring d ! j)] \<rparr>"
proof -
  let ?P = "\<lambda>i. same_radio (replica_sf fm) (replica_bw fm) (dd_ring d ! i)
    \<and> popcount64 (de_fp (dd_ring d ! i) XOR dedup_payload_fingerprint q) \<le> fp_thresh fm"
  obtain j where "find ?P [0..<DEDUP_RING_SIZE] = Some j" using assms(1-3) find_upt_None [of ?P DEDUP_RING_SIZE]
    by (cases "find ?P [0..<DEDUP_RING_SIZE]") blast+
  then have "fst (tier1 (replica_sf fm) (replica_bw fm) (dedup_payload_fingerprint q) (fp_thresh fm) (dd_ring d) None [0..<DEDUP_RING_SIZE]) = Some j"
    and j: "?P j" "\<forall>k<j. \<not> ?P k"
    by (simp_all add: tier1_find find_map_upt_Some del: upt_Suc)
  then obtain free where t: "tier1 (replica_sf fm) (replica_bw fm) (dedup_payload_fingerprint q) (fp_thresh fm) (dd_ring d) None [0..<DEDUP_RING_SIZE] = (Some j, free)"
    by (metis prod.collapse)
  have "find_cluster (q, fm, user) now d = (Some j, free, d)" by (simp add: find_cluster_def t)
  moreover have "j \<le> i" using j assms(2,3) not_le by blast
  ultimately show ?thesis using j assms(4,5) by (auto simp: dedup_buffer_def)
qed

lemma buffer_fresh:
  assumes "14 \<le> length p" "length p \<le> DEDUP_MAX_PAYLOAD" "\<not> crc_bad fm"
  shows "dedup_buffer (Some p) fm u now rt dedup_init = dedup_init\<lparr> dd_ring := (dd_ring dedup_init)[0 := dedup_open now rt (p, fm, u) dedup_entry0] \<rparr>"
proof -
  have free: "\<not> de_in_use (dd_ring dedup_init ! i)" if "i < DEDUP_RING_SIZE" for i using that by (simp add: dedup_init_def dedup_entry0_def)
  obtain m f d where c: "find_cluster (p, fm, u) now dedup_init = (m, f, d)" by (cases "find_cluster (p, fm, u) now dedup_init")
  have m: "m = None" using find_cluster_Some [of p fm u now dedup_init] c free by (cases m) (auto simp: same_radio_def)
  have "find (\<lambda>i. \<not> de_in_use (dd_ring dedup_init ! i)) [0..<DEDUP_RING_SIZE] = Some 0" using free [of 0] by (simp add: find_map_upt_Some)
  then have "f = Some 0" "d = dedup_init" using find_cluster_None [OF c [unfolded m]] by simp_all
  moreover have "suppress_failed fm now dedup_init = dedup_init"
    by (simp add: suppress_failed_def reverse_hit_def same_radio_def dedup_init_def dedup_entry0_def)
  moreover have "dd_ring dedup_init ! 0 = dedup_entry0" by (simp add: dedup_init_def)
  ultimately show ?thesis using assms c m by (simp add: dedup_buffer_def Let_def)
qed

text \<open>
  C9: an open cluster always holds the best of its replicas.  Whatever the order in which
  replicas arrive and clusters are released, every replica counts for at most one cluster;
  all replicas of a cluster have its spreading factor and bandwidth; and the
  frame a cluster will hand on is one of its replicas, and none of them outranks it: a frame whose CRC failed
  never displaces or hides a good one, and among equals the strongest signal is kept.
\<close>

theorem cluster_keeps_best:
  assumes "dedup_reach h d" "list_all measured h"
  shows "\<exists>g. (\<Sum>i < DEDUP_RING_SIZE. mset (g i)) \<subseteq># mset h
    \<and> (\<forall>i < DEDUP_RING_SIZE. de_in_use (dd_ring d ! i) \<longrightarrow>
         de_replica_count (dd_ring d ! i) = int (length (g i)) \<and> same_modem (g i) (dd_ring d ! i) \<and> keeps_best (g i) (dd_ring d ! i))"
proof -
  obtain g where g: "ring_inv h g d" using reach_inv [OF assms(1)] by blast
  have "list_all measured (g i)" if "i < DEDUP_RING_SIZE" for i
  proof -
    have "mset (g i) \<subseteq># (\<Sum>i < DEDUP_RING_SIZE. mset (g i))" using that by (subst sum.remove [of _ i]) simp_all
    also have "\<dots> \<subseteq># mset h" using g by (simp add: ring_inv_def)
    finally have "set (g i) \<subseteq> set h" by (auto dest!: set_mset_mono)
    then show ?thesis using assms(2) by (auto simp: list_all_iff)
  qed
  then show ?thesis using g by (intro exI [of _ g]) (auto simp: ring_inv_def cluster_of_def)
qed

definition sample_meta :: rx_meta where
  "sample_meta = rx_meta0\<lparr> m_sf := 11, m_bw_hz := 250000, m_has_crc := True, m_payload_crc_ok := True, m_snr_db := 0x40A00000 \<rparr>"

lemma sample_reach: "dedup_reach [(replicate 14 7, Some sample_meta, 3)]
    (dedup_init\<lparr> dd_ring := (dd_ring dedup_init)[0 := dedup_open 9 8 (replicate 14 7, Some sample_meta, 3) dedup_entry0] \<rparr>)"
  using dedup_reach.arrive [OF dedup_reach.start, of "replicate 14 7" "Some sample_meta" 3 9 8]
  by (simp add: buffer_fresh crc_bad_def sample_meta_def)

theorem cluster_keeps_best_witness:
  "\<exists>d g. dedup_reach [(replicate 14 7, Some sample_meta, 3)] d \<and> de_in_use (dd_ring d ! 0) \<and> keeps_best (g (0 :: nat)) (dd_ring d ! 0)"
proof -
  let ?e = "dedup_open 9 8 (replicate 14 7, Some sample_meta, 3) dedup_entry0"
  let ?d = "dedup_init\<lparr> dd_ring := (dd_ring dedup_init)[0 := ?e] \<rparr>"
  have "list_all measured [(replicate 14 7, Some sample_meta, 3)]"
    by (simp add: measured_def sample_meta_def f32_nan_def take_bit_eq_mod)
  from cluster_keeps_best [OF sample_reach this] obtain g
    where "\<forall>i < DEDUP_RING_SIZE. de_in_use (dd_ring ?d ! i) \<longrightarrow> keeps_best (g i) (dd_ring ?d ! i)" by blast
  moreover have "de_in_use (dd_ring ?d ! 0)" by (simp add: dedup_init_def dedup_open_def)
  ultimately have "keeps_best (g 0) (dd_ring ?d ! 0)" by simp
  with \<open>de_in_use (dd_ring ?d ! 0)\<close> show ?thesis using sample_reach by blast
qed

text \<open>
  C10: a replica with few bit errors never opens a second cluster.  If it has the spreading factor
  and bandwidth of an open cluster and differs from the frame kept there in at most 14 bit positions, or
  22 when its own CRC failed, it is folded into that cluster or one before it in the ring, and nothing
  else of the filter changes.
\<close>

theorem near_replica_folds:
  assumes "dedup_reach h d" "i < DEDUP_RING_SIZE" "same_radio (replica_sf fm) (replica_bw fm) (dd_ring d ! i)"
    and "length q = length (best_frame (dd_ring d ! i))" "14 \<le> length q" "length q \<le> DEDUP_MAX_PAYLOAD"
    and "bit_errors (best_frame (dd_ring d ! i)) q \<le> (if crc_bad fm then 22 else 14)"
  shows "\<exists>j \<le> i. same_radio (replica_sf fm) (replica_bw fm) (dd_ring d ! j)
    \<and> dedup_buffer (Some q) fm user now rt d = d\<lparr> dd_ring := (dd_ring d)[j := dedup_fold (q, fm, user) (dd_ring d ! j)] \<rparr>"
proof -
  have "de_fp (dd_ring d ! i) = dedup_payload_fingerprint (best_frame (dd_ring d ! i))"
    using reach_inv [OF assms(1)] assms(2,3) by (auto simp: ring_inv_def cluster_of_def same_radio_def)
  then show ?thesis using assms fingerprint_near [of "best_frame (dd_ring d ! i)" q]
    by (intro buffer_near) (auto simp: fp_thresh_def)
qed

theorem near_replica_folds_witness:
  "\<exists>d j. dedup_reach [(replicate 14 7, Some sample_meta, 3)] d
     \<and> dedup_buffer (Some (5 # replicate 13 7)) (Some sample_meta) 60 5000 0 d
         = d\<lparr> dd_ring := (dd_ring d)[j := dedup_fold (5 # replicate 13 7, Some sample_meta, 60) (dd_ring d ! j)] \<rparr>"
proof -
  let ?e = "dedup_open 9 8 (replicate 14 7, Some sample_meta, 3) dedup_entry0"
  let ?d = "dedup_init\<lparr> dd_ring := (dd_ring dedup_init)[0 := ?e] \<rparr>"
  have e: "dd_ring ?d ! 0 = ?e" by (simp add: dedup_init_def)
  have f: "best_frame ?e = replicate 14 7"
    by (simp add: best_frame_def dedup_open_def take_best_def overwrite_def)
  have "bit_errors (replicate 14 7) (5 # replicate 13 7) = 1" by code_simp
  moreover have "same_radio (replica_sf (Some sample_meta)) (replica_bw (Some sample_meta)) ?e" by (simp add: same_radio_def dedup_open_def)
  moreover have "\<not> crc_bad (Some sample_meta)" by (simp add: crc_bad_def sample_meta_def)
  ultimately have "\<exists>j \<le> 0. dedup_buffer (Some (5 # replicate 13 7)) (Some sample_meta) 60 5000 0 ?d
      = ?d\<lparr> dd_ring := (dd_ring ?d)[j := dedup_fold (5 # replicate 13 7, Some sample_meta, 60) (dd_ring ?d ! j)] \<rparr>"
    using near_replica_folds [OF sample_reach, of 0 "Some sample_meta" "5 # replicate 13 7" 60 5000 0]
    unfolding e f by (simp only: length_replicate list.size) simp
  with sample_reach show ?thesis by blast
qed

end
