(* ===== verification/Publish.thy ===== *)
theory Publish
  imports Dedup Meshcore_Decoders
begin

text \<open>
  From a received frame to a published event: the glue of \<^verbatim>\<open>main.c\<close> between the replica filter
  and the feed.  Modelled: the drainer that takes expired clusters out of the ring, the
  emission of a cluster (counters, per-channel statistics with the signal history, packet
  capture, choice of the decoder), the stamping of decoded events with the CRC gate, and
  the replay detector.  The outputs are a trace: events handed to the feed, replay alerts and
  captured frames.  A running sum of signal strengths in double precision is the list of its
  summands.  Proved: what reaches the feed as decrypted or as CRC-correct has earned it, every
  cluster is emitted exactly once and without delay, and when the replay alarm goes off.
\<close>

subsection \<open>Replay detection\<close>

abbreviation (input) REPLAY_RING_SIZE :: nat where "REPLAY_RING_SIZE \<equiv> 2048"
abbreviation (input) REPLAY_FRESH_WINDOW_S :: u64 where "REPLAY_FRESH_WINDOW_S \<equiv> 10"

record replay_entry =
  re_from :: u32
  re_packet_id :: u32
  re_first_seen_us :: u64
  re_alerted :: bool
  re_in_use :: bool

record replay_state =
  rp_ring :: "replay_entry list"
  rp_next_slot :: nat

text \<open>The new state and the alert, if one is raised: sender, packet and the delay in microseconds.\<close>

definition replay_check :: "u64 \<Rightarrow> u32 \<Rightarrow> u32 \<Rightarrow> replay_state \<Rightarrow> replay_state \<times> (u32 \<times> u32 \<times> u64) list" where
  "replay_check now src pid r =
     (case find (\<lambda>i. let e = rp_ring r ! i in re_in_use e \<and> re_from e = src \<and> re_packet_id e = pid) [0..<REPLAY_RING_SIZE] of
        Some i \<Rightarrow>
          let e = rp_ring r ! i; delta_us = now - re_first_seen_us e
          in if \<not> re_alerted e \<and> delta_us > REPLAY_FRESH_WINDOW_S * 1000000
             then (r\<lparr> rp_ring := (rp_ring r)[i := e\<lparr> re_alerted := True \<rparr>] \<rparr>, [(src, pid, delta_us)])
             else (r, [])
      | None \<Rightarrow>
          (r\<lparr> rp_ring := (rp_ring r)[rp_next_slot r :=
                \<lparr> re_from = src, re_packet_id = pid, re_first_seen_us = now, re_alerted = False, re_in_use = True \<rparr>],
              rp_next_slot := (rp_next_slot r + 1) mod REPLAY_RING_SIZE \<rparr>, []))"

subsection \<open>State of the pipeline\<close>

abbreviation (input) CHANNELIZER_MAX_CHANNELS :: int where "CHANNELIZER_MAX_CHANNELS \<equiv> 1024"
abbreviation (input) CHAN_SNR_HISTORY_BUCKETS :: nat where "CHAN_SNR_HISTORY_BUCKETS \<equiv> 288"
abbreviation (input) CHAN_SNR_BUCKET_SECS :: u64 where "CHAN_SNR_BUCKET_SECS \<equiv> 300"

record chan_stat =
  cs_frames :: u64
  cs_decrypted :: u64
  cs_snr_db_sum :: "u32 list"
  cs_snr_db_count :: int
  cs_bytes :: u64
  cs_sf :: int
  cs_cr :: int
  cs_bw_hz :: int
  cs_freq_hz :: u64
  cs_preset_name :: string
  cs_snr_history_sum :: "u32 list list"
  cs_snr_history_count :: "u16 list"
  cs_snr_history_head :: nat
  cs_snr_history_last_bucket :: u64

record frame_emit_ctx =
  fx_channel_id :: int
  fx_has_crc :: bool
  fx_payload_crc_ok :: bool
  fx_crc_corrected :: bool
  fx_crc_corrected_bits :: int
  fx_cfo_hz :: u32
  fx_station_t_ns :: u64
  fx_station_t_acc_ns :: u32
  fx_preamble_lock_sample_idx :: u64
  fx_preamble_lock_sample_frac :: u32
  fx_preamble_lock_t_ns :: u64

text \<open>The configuration the path reads, with the cryptographic library as functions.\<close>

record publish_config =
  pc_meshcore :: bool
  pc_sample_rate_sps :: u64
  pc_station_t_acc_ns :: u32
  pc_keys :: "keyset option"
  pc_channels :: "channelset option"
  pc_ctr :: cipher
  pc_sig :: verifier
  pc_hmac :: keyed
  pc_ecb :: keyed

text \<open>One set of clock readings per emission.\<close>

record clocks =
  ck_monotonic_us :: u64
  ck_time :: u64
  ck_sec :: u64
  ck_nsec :: u64

datatype feed_output = Published mesh_event | Replay_Suspected u32 u32 u64 | Captured bytes u32 u32

record pipeline =
  pl_frames_total :: u64
  pl_crc_pass_total :: u64
  pl_crc_fail_total :: u64
  pl_decrypts_total :: u64
  pl_stragglers :: u64
  pl_chan_stats :: "chan_stat list"
  pl_replay :: replay_state
  pl_regions :: region_dict
  pl_search :: "(bytes \<times> radio) list"
  pl_out :: "feed_output list"

definition channel_in_range :: "int \<Rightarrow> bool" where
  "channel_in_range c \<longleftrightarrow> 0 \<le> c \<and> c < CHANNELIZER_MAX_CHANNELS"

definition with_channel :: "int \<Rightarrow> (chan_stat \<Rightarrow> chan_stat) \<Rightarrow> pipeline \<Rightarrow> pipeline" where
  "with_channel c f p =
     (if channel_in_range c then p\<lparr> pl_chan_stats := (pl_chan_stats p)[nat c := f (pl_chan_stats p ! nat c)] \<rparr> else p)"

subsection \<open>Stamping and gating an event\<close>

definition stamp_event :: "publish_config \<Rightarrow> pipeline \<Rightarrow> frame_emit_ctx option \<Rightarrow> mesh_event \<Rightarrow> mesh_event" where
  "stamp_event cfg p ctx ev =
     (let channel_id = (case ctx of Some c \<Rightarrow> fx_channel_id c | None \<Rightarrow> -1);
          ev = ev\<lparr> ev_slot_id := (if channel_in_range channel_id then channel_id else -1) \<rparr>;
          ev = (if channel_in_range channel_id then ev\<lparr> ev_freq_hz := cs_freq_hz (pl_chan_stats p ! nat channel_id) \<rparr> else ev)
      in case ctx of
           None \<Rightarrow> ev
         | Some c \<Rightarrow>
             let ev = ev\<lparr> ev_has_crc := fx_has_crc c, ev_payload_crc_ok := fx_payload_crc_ok c,
                          ev_crc_corrected := fx_crc_corrected c, ev_crc_corrected_bits := fx_crc_corrected_bits c,
                          ev_cfo_hz := fx_cfo_hz c, ev_station_t_ns := fx_station_t_ns c,
                          ev_station_t_acc_ns := fx_station_t_acc_ns c,
                          ev_preamble_lock_sample_idx := fx_preamble_lock_sample_idx c,
                          ev_sample_rate_sps := pc_sample_rate_sps cfg,
                          ev_preamble_lock_sample_frac := fx_preamble_lock_sample_frac c,
                          ev_preamble_lock_t_ns := fx_preamble_lock_t_ns c \<rparr>
             in if ev_has_crc ev \<and> \<not> ev_payload_crc_ok ev then ev\<lparr> ev_decrypted := False \<rparr> else ev)"

definition crc_recovery_authable :: "mesh_event \<Rightarrow> bool" where
  "crc_recovery_authable ev \<longleftrightarrow> is_meshcore (ev_mc ev)
     \<and> (mc_payload_type (ev_mc ev) = MC_PAYLOAD_GRP_TXT \<or> mc_payload_type (ev_mc ev) = MC_PAYLOAD_GRP_DATA
        \<or> mc_payload_type (ev_mc ev) = MC_PAYLOAD_ADVERT)"

definition crc_recovery_needs_gate :: "mesh_event \<Rightarrow> bool" where
  "crc_recovery_needs_gate ev \<longleftrightarrow>
     2 \<le> ev_crc_corrected_bits ev \<or> ev_crc_corrected_bits ev = 1 \<and> crc_recovery_authable ev"

definition gate_event :: "mesh_event \<Rightarrow> mesh_event" where
  "gate_event ev =
     (if crc_recovery_needs_gate ev \<and> \<not> mesh_event_crc2bit_trusted ev
      then ev\<lparr> ev_payload_crc_ok := False, ev_crc_corrected := False, ev_crc_corrected_bits := 0, ev_decrypted := False \<rparr>
      else ev)"

definition on_mesh_event :: "publish_config \<Rightarrow> u64 \<Rightarrow> frame_emit_ctx option \<Rightarrow> mesh_event \<Rightarrow> pipeline \<Rightarrow> pipeline" where
  "on_mesh_event cfg now ctx ev p =
     (let channel_id = (case ctx of Some c \<Rightarrow> fx_channel_id c | None \<Rightarrow> -1);
          stamped = gate_event (stamp_event cfg p ctx ev);
          p = (if ev_decrypted stamped
               then with_channel channel_id (\<lambda>cs. cs\<lparr> cs_decrypted := cs_decrypted cs + 1 \<rparr>)
                      (p\<lparr> pl_decrypts_total := pl_decrypts_total p + 1 \<rparr>)
               else p);
          p = (if is_meshcore (ev_mc stamped) then p
               else case replay_check now (hd_from (ev_header stamped)) (hd_packet_id (ev_header stamped)) (pl_replay p) of
                      (r, alerts) \<Rightarrow> p\<lparr> pl_replay := r, pl_out := pl_out p @ map (\<lambda>(a, b, t). Replay_Suspected a b t) alerts \<rparr>)
      in p\<lparr> pl_out := pl_out p @ [Published stamped] \<rparr>)"

subsection \<open>Emitting a cluster\<close>

text \<open>The head moves one bucket per elapsed five minutes and clears what it skips.\<close>

definition snr_history_step :: "chan_stat \<Rightarrow> chan_stat" where
  "snr_history_step cs =
     (let h = (cs_snr_history_head cs + 1) mod CHAN_SNR_HISTORY_BUCKETS
      in cs\<lparr> cs_snr_history_head := h, cs_snr_history_sum := (cs_snr_history_sum cs)[h := []],
             cs_snr_history_count := (cs_snr_history_count cs)[h := 0] \<rparr>)"

definition snr_history_advance :: "u64 \<Rightarrow> chan_stat \<Rightarrow> chan_stat" where
  "snr_history_advance now_bucket cs =
     (if cs_snr_history_last_bucket cs = 0 then cs\<lparr> cs_snr_history_last_bucket := now_bucket \<rparr>
      else if now_bucket > cs_snr_history_last_bucket cs
           then let skipped = now_bucket - cs_snr_history_last_bucket cs;
                    cs = (if CHAN_SNR_HISTORY_BUCKETS \<le> unat skipped
                          then cs\<lparr> cs_snr_history_sum := replicate CHAN_SNR_HISTORY_BUCKETS [],
                                   cs_snr_history_count := replicate CHAN_SNR_HISTORY_BUCKETS 0, cs_snr_history_head := 0 \<rparr>
                          else (snr_history_step ^^ unat skipped) cs)
                in cs\<lparr> cs_snr_history_last_bucket := now_bucket \<rparr>
      else cs)"

definition snr_history_add :: "u64 \<Rightarrow> u32 \<Rightarrow> chan_stat \<Rightarrow> chan_stat" where
  "snr_history_add time_s snr cs =
     (let cs = snr_history_advance (time_s div CHAN_SNR_BUCKET_SECS) cs; h = cs_snr_history_head cs
      in cs\<lparr> cs_snr_history_sum := (cs_snr_history_sum cs)[h := cs_snr_history_sum cs ! h @ [snr]],
             cs_snr_history_count := (cs_snr_history_count cs)[h := cs_snr_history_count cs ! h + 1] \<rparr>)"

definition channel_frame :: "u64 \<Rightarrow> dedup_entry \<Rightarrow> chan_stat \<Rightarrow> chan_stat" where
  "channel_frame time_s e cs =
     (let m = de_best_meta e;
          cs = cs\<lparr> cs_frames := cs_frames cs + 1, cs_bytes := cs_bytes cs + of_nat (de_best_payload_len e),
                   cs_snr_db_sum := cs_snr_db_sum cs @ [m_snr_db m], cs_snr_db_count := cs_snr_db_count cs + 1 \<rparr>
      in if \<not> m_has_crc m \<or> m_payload_crc_ok m then snr_history_add time_s (m_snr_db m) cs else cs)"

definition emit_ctx :: "publish_config \<Rightarrow> dedup_entry \<Rightarrow> frame_emit_ctx" where
  "emit_ctx cfg e =
     (let m = de_best_meta e
      in \<lparr> fx_channel_id = sint (word_of_int (de_best_user e) :: u32), fx_has_crc = m_has_crc m,
           fx_payload_crc_ok = m_payload_crc_ok m, fx_crc_corrected = m_crc_corrected m,
           fx_crc_corrected_bits = m_crc_corrected_bits m, fx_cfo_hz = m_cfo_hz m,
           fx_station_t_ns = de_first_seen_t_ns e, fx_station_t_acc_ns = pc_station_t_acc_ns cfg,
           fx_preamble_lock_sample_idx = m_preamble_lock_sample_idx m,
           fx_preamble_lock_sample_frac = m_preamble_lock_sample_frac m,
           fx_preamble_lock_t_ns = m_preamble_lock_t_ns m \<rparr>)"

definition best_radio :: "dedup_entry \<Rightarrow> radio" where
  "best_radio e = (let m = de_best_meta e
     in \<lparr> rd_rssi_db = m_rssi_db m, rd_snr_db = m_snr_db m, rd_sf = m_sf m, rd_cr = m_cr m, rd_bw_hz = m_bw_hz m \<rparr>)"

text \<open>The decoder of the configured protocol: its events, the region cache and the frames for the key search.\<close>

definition decode_best :: "publish_config \<Rightarrow> dedup_entry \<Rightarrow> region_dict \<Rightarrow> mesh_event list \<times> region_dict \<times> (bytes \<times> radio) list" where
  "decode_best cfg e d =
     (if pc_meshcore cfg
      then snd (meshcore_packet_decode_with_radio (pc_sig cfg) (pc_hmac cfg) (pc_ecb cfg) (best_frame e) (best_radio e)
                  (pc_channels cfg) True d)
      else case mesh_packet_decode_with_radio (pc_ctr cfg) (best_frame e) (best_radio e) (pc_keys cfg) True of
             (_, evs, search) \<Rightarrow> (evs, d, search))"

definition dedup_emit_locked :: "publish_config \<Rightarrow> clocks \<Rightarrow> dedup_entry \<Rightarrow> pipeline \<Rightarrow> pipeline" where
  "dedup_emit_locked cfg ck e p =
     (let m = de_best_meta e;
          p = p\<lparr> pl_frames_total := pl_frames_total p + 1,
                 pl_crc_pass_total := pl_crc_pass_total p + (if m_has_crc m \<and> m_payload_crc_ok m then 1 else 0),
                 pl_crc_fail_total := pl_crc_fail_total p + (if m_has_crc m \<and> \<not> m_payload_crc_ok m then 1 else 0) \<rparr>;
          p = with_channel (de_best_user e) (channel_frame (ck_time ck) e) p;
          p = p\<lparr> pl_out := pl_out p @ [Captured (best_frame e) (ucast (ck_sec ck)) (ucast (ck_nsec ck div 1000))] \<rparr>
      in case decode_best cfg e (pl_regions p) of
           (evs, d, search) \<Rightarrow>
             foldl (\<lambda>p ev. on_mesh_event cfg (ck_monotonic_us ck) (Some (emit_ctx cfg e)) ev p)
               (p\<lparr> pl_regions := d, pl_search := pl_search p @ search \<rparr>) evs)"

subsection \<open>The drainer\<close>

abbreviation (input) DEDUP_DRAIN_BATCH :: nat where "DEDUP_DRAIN_BATCH \<equiv> 64"

text \<open>One pass over the ring with \<^verbatim>\<open>n\<close> clusters taken so far: the ring left, the batch and the stragglers.\<close>

primrec drain_pass :: "u64 \<Rightarrow> nat \<Rightarrow> dedup_entry list \<Rightarrow> dedup_entry list \<times> dedup_entry list \<times> nat" where
  "drain_pass now_us n [] = ([], [], 0)"
| "drain_pass now_us n (e # es) =
     (if \<not> n < DEDUP_DRAIN_BATCH then (e # es, [], 0)
      else if de_in_use e \<and> now_us \<ge> de_emit_at_us e
      then case drain_pass now_us (n + 1) es of
             (ring, batch, late) \<Rightarrow>
               (e\<lparr> de_in_use := False \<rparr> # ring, e # batch,
                (if now_us > de_emit_at_us e + 2 * DEDUP_WINDOW_US then 1 else 0) + late)
      else case drain_pass now_us n es of (ring, batch, late) \<Rightarrow> (e # ring, batch, late))"

definition emit_batch :: "publish_config \<Rightarrow> (nat \<Rightarrow> clocks) \<Rightarrow> dedup_entry list \<Rightarrow> pipeline \<Rightarrow> pipeline" where
  "emit_batch cfg cks batch p = foldl (\<lambda>p (i, e). dedup_emit_locked cfg (cks i) e p) p (zip [0..<length batch] batch)"

definition drainer_tick :: "publish_config \<Rightarrow> u64 \<Rightarrow> (nat \<Rightarrow> clocks) \<Rightarrow> dedup_state \<times> pipeline \<Rightarrow> dedup_state \<times> pipeline" where
  "drainer_tick cfg now_us cks s = (case s of (d, p) \<Rightarrow>
     case drain_pass now_us 0 (dd_ring d) of
       (ring, batch, late) \<Rightarrow>
         (d\<lparr> dd_ring := ring \<rparr>, emit_batch cfg cks batch (p\<lparr> pl_stragglers := pl_stragglers p + of_nat late \<rparr>)))"

definition dedup_drainer_stop :: "publish_config \<Rightarrow> (nat \<Rightarrow> clocks) \<Rightarrow> dedup_state \<times> pipeline \<Rightarrow> dedup_state \<times> pipeline" where
  "dedup_drainer_stop cfg cks s = (case s of (d, p) \<Rightarrow>
     (d\<lparr> dd_ring := map (\<lambda>e. if de_in_use e then e\<lparr> de_in_use := False \<rparr> else e) (dd_ring d) \<rparr>,
      emit_batch cfg cks (filter de_in_use (dd_ring d)) p))"

text \<open>The callback of every demodulator.\<close>

definition on_lora_frame :: "bytes option \<Rightarrow> rx_meta option \<Rightarrow> int \<Rightarrow> u64 \<Rightarrow> u64 \<Rightarrow> dedup_state \<Rightarrow> dedup_state" where
  "on_lora_frame payload fm user now_us realtime_ns d = dedup_buffer payload fm user now_us realtime_ns d"

subsection \<open>The outputs of an emission\<close>

definition events_of :: "feed_output list \<Rightarrow> mesh_event list" where
  "events_of xs = concat (map (\<lambda>x. case x of Published ev \<Rightarrow> [ev] | _ \<Rightarrow> []) xs)"

definition captures_of :: "feed_output list \<Rightarrow> bytes list" where
  "captures_of xs = concat (map (\<lambda>x. case x of Captured b s u \<Rightarrow> [b] | _ \<Rightarrow> []) xs)"

definition emitted_outputs :: "publish_config \<Rightarrow> clocks \<Rightarrow> dedup_entry \<Rightarrow> pipeline \<Rightarrow> feed_output list" where
  "emitted_outputs cfg ck e p = drop (length (pl_out p)) (pl_out (dedup_emit_locked cfg ck e p))"

lemma outputs_append [simp]: "events_of (xs @ ys) = events_of xs @ events_of ys" "captures_of (xs @ ys) = captures_of xs @ captures_of ys"
  by (simp_all add: events_of_def captures_of_def)

lemma outputs_Cons [simp]:
  "events_of (Published ev # xs) = ev # events_of xs" "events_of (Captured b s u # xs) = events_of xs" "events_of [] = []"
  "captures_of (Published ev # xs) = captures_of xs" "captures_of (Captured b s u # xs) = b # captures_of xs" "captures_of [] = []"
  by (simp_all add: events_of_def captures_of_def)

lemma outputs_alerts [simp]:
  "events_of (map (\<lambda>(a, b, t). Replay_Suspected a b t) xs) = []" "captures_of (map (\<lambda>(a, b, t). Replay_Suspected a b t) xs) = []"
  by (induction xs) (auto simp: events_of_def captures_of_def)

text \<open>What a step of the pipeline adds: its outputs, and the decrypt count that goes with them.\<close>

definition adds :: "pipeline \<Rightarrow> feed_output list \<Rightarrow> pipeline \<Rightarrow> bool" where
  "adds p xs p' \<longleftrightarrow> pl_out p' = pl_out p @ xs
     \<and> pl_decrypts_total p' = pl_decrypts_total p + of_nat (length (filter ev_decrypted (events_of xs)))"

lemma adds_trans: "adds p xs p' \<Longrightarrow> adds p' ys p'' \<Longrightarrow> adds p (xs @ ys) p''"
  by (simp add: adds_def)

lemma with_channel_simps [simp]:
  "pl_out (with_channel c f p) = pl_out p" "pl_decrypts_total (with_channel c f p) = pl_decrypts_total p"
  "pl_frames_total (with_channel c f p) = pl_frames_total p" "pl_regions (with_channel c f p) = pl_regions p"
  "pl_replay (with_channel c f p) = pl_replay p"
  by (simp_all add: with_channel_def)

lemma on_mesh_event_adds:
  "\<exists>xs. adds p xs (on_mesh_event cfg now ctx ev p) \<and> events_of xs = [gate_event (stamp_event cfg p ctx ev)] \<and> captures_of xs = []
     \<and> pl_frames_total (on_mesh_event cfg now ctx ev p) = pl_frames_total p"
proof -
  let ?ev = "gate_event (stamp_event cfg p ctx ev)"
  let ?al = "if is_meshcore (ev_mc ?ev) then [] else snd (replay_check now (hd_from (ev_header ?ev)) (hd_packet_id (ev_header ?ev)) (pl_replay p))"
  show ?thesis
    by (rule exI [of _ "map (\<lambda>(a, b, t). Replay_Suspected a b t) ?al @ [Published ?ev]"])
       (simp add: on_mesh_event_def adds_def Let_def split: prod.split)
qed

lemma events_adds:
  "\<exists>xs. adds p xs (foldl (\<lambda>p ev. on_mesh_event cfg now ctx ev p) p evs) \<and> captures_of xs = []
     \<and> list_all2 (\<lambda>ev0 ev. \<exists>p'. ev = gate_event (stamp_event cfg p' ctx ev0)) evs (events_of xs)
     \<and> pl_frames_total (foldl (\<lambda>p ev. on_mesh_event cfg now ctx ev p) p evs) = pl_frames_total p"
proof (induction evs arbitrary: p)
  case Nil
  then show ?case by (intro exI [of _ "[]"]) (simp add: adds_def)
next
  case (Cons ev evs)
  obtain xs where xs: "adds p xs (on_mesh_event cfg now ctx ev p)" "events_of xs = [gate_event (stamp_event cfg p ctx ev)]" "captures_of xs = []"
    "pl_frames_total (on_mesh_event cfg now ctx ev p) = pl_frames_total p" using on_mesh_event_adds by blast
  obtain ys where "adds (on_mesh_event cfg now ctx ev p) ys (foldl (\<lambda>p ev. on_mesh_event cfg now ctx ev p) (on_mesh_event cfg now ctx ev p) evs)"
    "captures_of ys = []" "list_all2 (\<lambda>ev0 ev. \<exists>p'. ev = gate_event (stamp_event cfg p' ctx ev0)) evs (events_of ys)"
    "pl_frames_total (foldl (\<lambda>p ev. on_mesh_event cfg now ctx ev p) (on_mesh_event cfg now ctx ev p) evs) = pl_frames_total (on_mesh_event cfg now ctx ev p)"
    using Cons.IH by blast
  with xs show ?case by (intro exI [of _ "xs @ ys"]) (auto intro: adds_trans)
qed

lemma emit_adds:
  "adds p (emitted_outputs cfg ck e p) (dedup_emit_locked cfg ck e p)
     \<and> captures_of (emitted_outputs cfg ck e p) = [best_frame e]
     \<and> list_all2 (\<lambda>ev0 ev. \<exists>p'. ev = gate_event (stamp_event cfg p' (Some (emit_ctx cfg e)) ev0))
          (fst (decode_best cfg e (pl_regions p))) (events_of (emitted_outputs cfg ck e p))
     \<and> pl_frames_total (dedup_emit_locked cfg ck e p) = pl_frames_total p + 1"
proof -
  define m where "m = de_best_meta e"
  define p1 where "p1 = (with_channel (de_best_user e) (channel_frame (ck_time ck) e)
    (p\<lparr> pl_frames_total := pl_frames_total p + 1,
        pl_crc_pass_total := pl_crc_pass_total p + (if m_has_crc m \<and> m_payload_crc_ok m then 1 else 0),
        pl_crc_fail_total := pl_crc_fail_total p + (if m_has_crc m \<and> \<not> m_payload_crc_ok m then 1 else 0) \<rparr>))"
  let ?c = "Captured (best_frame e) (ucast (ck_sec ck)) (ucast (ck_nsec ck div 1000))"
  obtain evs d srch where dec: "decode_best cfg e (pl_regions p) = (evs, d, srch)" by (cases "decode_best cfg e (pl_regions p)")
  let ?p = "p1\<lparr> pl_out := pl_out p1 @ [?c], pl_regions := d, pl_search := pl_search p1 @ srch \<rparr>"
  have p1: "pl_out p1 = pl_out p" "pl_regions p1 = pl_regions p" "pl_decrypts_total p1 = pl_decrypts_total p" "pl_frames_total p1 = pl_frames_total p + 1"
    by (simp_all add: p1_def)
  have emit: "dedup_emit_locked cfg ck e p = foldl (\<lambda>p ev. on_mesh_event cfg (ck_monotonic_us ck) (Some (emit_ctx cfg e)) ev p) ?p evs"
    unfolding dedup_emit_locked_def Let_def m_def [symmetric] p1_def [symmetric] by (simp add: p1 dec)
  obtain xs where "adds ?p xs (dedup_emit_locked cfg ck e p)" and xs: "captures_of xs = []"
    "list_all2 (\<lambda>ev0 ev. \<exists>p'. ev = gate_event (stamp_event cfg p' (Some (emit_ctx cfg e)) ev0)) evs (events_of xs)"
    "pl_frames_total (dedup_emit_locked cfg ck e p) = pl_frames_total p + 1"
    using events_adds [of ?p cfg "ck_monotonic_us ck" "Some (emit_ctx cfg e)" evs] unfolding emit by (auto simp: p1)
  then have adds: "adds p (?c # xs) (dedup_emit_locked cfg ck e p)" using p1 by (simp add: adds_def events_of_def)
  then have "emitted_outputs cfg ck e p = [?c] @ xs" by (simp add: emitted_outputs_def adds_def)
  then show ?thesis using adds xs dec by simp
qed

subsection \<open>What the feed may believe\<close>

text \<open>Independent evidence for a frame: a matching code under a configured secret, or a verified signature.\<close>

definition authentic :: "publish_config \<Rightarrow> bytes \<Rightarrow> bool" where
  "authentic cfg frame \<longleftrightarrow> pc_meshcore cfg \<and> (\<exists>pkt. meshcore_packet_parse frame = Some pkt
      \<and> ((\<exists>cs. pc_channels cfg = Some cs \<and> (\<exists>e \<in> set cs. mac_ok (pc_hmac cfg) (ch_secret e) (tl (pk_payload pkt))))
         \<or> pk_payload_type pkt = MC_PAYLOAD_ADVERT \<and> signature_ok (pc_sig cfg) (pk_payload pkt)))"

lemma decode_best_trusted:
  assumes "ev \<in> set (fst (decode_best cfg e d))" "mesh_event_crc2bit_trusted ev"
  shows "authentic cfg (best_frame e)"
proof (cases "pc_meshcore cfg")
  case True
  then show ?thesis using assms by (simp add: decode_best_def authentic_def mc_trusted_authentic)
next
  case False
  then show ?thesis using assms meshtastic_untrusted [of ev "pc_ctr cfg" "best_frame e" "best_radio e" "pc_keys cfg" True]
    by (auto simp: decode_best_def split: prod.splits)
qed

lemma stamp_event_simps:
  "ev_has_crc (stamp_event cfg p (Some c) ev) = fx_has_crc c" "ev_payload_crc_ok (stamp_event cfg p (Some c) ev) = fx_payload_crc_ok c"
  "ev_crc_corrected (stamp_event cfg p (Some c) ev) = fx_crc_corrected c"
  "ev_crc_corrected_bits (stamp_event cfg p (Some c) ev) = fx_crc_corrected_bits c"
  "ev_decrypted (stamp_event cfg p (Some c) ev) = (ev_decrypted ev \<and> (fx_has_crc c \<longrightarrow> fx_payload_crc_ok c))"
  "ev_mc (stamp_event cfg p (Some c) ev) = ev_mc ev" "ev_raw_hex (stamp_event cfg p (Some c) ev) = ev_raw_hex ev"
  by (simp_all add: stamp_event_def Let_def)

lemma stamp_trusted: "mesh_event_crc2bit_trusted (stamp_event cfg p (Some c) ev) \<Longrightarrow> mesh_event_crc2bit_trusted ev"
  by (auto simp: mesh_event_crc2bit_trusted_def stamp_event_simps Let_def split: if_splits)

lemma gate_event_mc [simp]: "ev_mc (gate_event ev) = ev_mc ev" "ev_raw_hex (gate_event ev) = ev_raw_hex ev"
  by (simp_all add: gate_event_def)

lemma emitted_event:
  assumes "ev \<in> set (events_of (emitted_outputs cfg ck e p))"
  obtains ev0 p' where "ev0 \<in> set (fst (decode_best cfg e (pl_regions p)))" "ev = gate_event (stamp_event cfg p' (Some (emit_ctx cfg e)) ev0)"
  using emit_adds [of p cfg ck e] assms by (fastforce simp: list_all2_conv_all_nth in_set_conv_nth)

subsection \<open>The drainer takes everything out once\<close>

definition expired :: "u64 \<Rightarrow> dedup_entry \<Rightarrow> bool" where
  "expired now_us e \<longleftrightarrow> de_in_use e \<and> now_us \<ge> de_emit_at_us e"

lemma drain_pass_batch:
  assumes "drain_pass now n es = (ring, batch, late)" "n \<le> DEDUP_DRAIN_BATCH"
  shows "batch = take (DEDUP_DRAIN_BATCH - n) (filter (expired now) es) \<and> length ring = length es
    \<and> mset batch + mset (filter de_in_use ring) = mset (filter de_in_use es)
    \<and> (length batch = DEDUP_DRAIN_BATCH - n \<or> (\<forall>e \<in> set ring. \<not> expired now e))"
  using assms
proof (induction es arbitrary: n ring batch late)
  case (Cons e es)
  show ?case
  proof (cases "n < DEDUP_DRAIN_BATCH")
    case room: True
    then obtain k where k: "DEDUP_DRAIN_BATCH - n = Suc k" "DEDUP_DRAIN_BATCH - (n + 1) = k" by (metis Suc_diff_Suc Suc_eq_plus1)
    show ?thesis
    proof (cases "expired now e")
      case True
      then obtain r b l where "drain_pass now (n + 1) es = (r, b, l)" "ring = e\<lparr> de_in_use := False \<rparr> # r" "batch = e # b"
        using Cons.prems room by (auto simp: expired_def split: prod.splits)
      then show ?thesis using Cons.IH [of "n + 1" r b l] True room k by (auto simp: expired_def)
    next
      case False
      then obtain r l where "drain_pass now n es = (r, batch, l)" "ring = e # r"
        using Cons.prems room by (auto simp: expired_def split: prod.splits)
      then show ?thesis using Cons.IH [of n r batch l] False room by (auto simp: expired_def)
    qed
  qed (use Cons.prems in auto)
qed simp

definition drainer_run :: "publish_config \<Rightarrow> (u64 \<times> (nat \<Rightarrow> clocks)) list \<Rightarrow> dedup_state \<times> pipeline \<Rightarrow> dedup_state \<times> pipeline" where
  "drainer_run cfg ts s = foldl (\<lambda>s (now_us, cks). drainer_tick cfg now_us cks s) s ts"

lemma emits_frames:
  "captures_of (pl_out (foldl (\<lambda>p (i, e). dedup_emit_locked cfg (cks i) e p) p xs)) = captures_of (pl_out p) @ map (best_frame \<circ> snd) xs
   \<and> pl_frames_total (foldl (\<lambda>p (i, e). dedup_emit_locked cfg (cks i) e p) p xs) = pl_frames_total p + of_nat (length xs)"
proof (induction xs arbitrary: p)
  case (Cons x xs)
  then show ?case using emit_adds [of p cfg "cks (fst x)" "snd x"] by (cases x) (simp add: adds_def)
qed simp

lemma emit_batch_frames:
  "captures_of (pl_out (emit_batch cfg cks batch p)) = captures_of (pl_out p) @ map best_frame batch"
  "pl_frames_total (emit_batch cfg cks batch p) = pl_frames_total p + of_nat (length batch)"
  using emits_frames [of cfg cks p "zip [0..<length batch] batch"] by (simp_all add: emit_batch_def flip: map_map)

text \<open>The clusters still to be emitted, and what has been emitted, in one account.\<close>

definition account :: "dedup_state \<times> pipeline \<Rightarrow> bytes multiset" where
  "account s = mset (captures_of (pl_out (snd s))) + mset (map best_frame (filter de_in_use (dd_ring (fst s))))"

lemma tick_account: "account (drainer_tick cfg now cks s) = account s"
proof -
  obtain d p where s: "s = (d, p)" by (cases s)
  obtain ring batch late where dr: "drain_pass now 0 (dd_ring d) = (ring, batch, late)" by (cases "drain_pass now 0 (dd_ring d)")
  have "mset batch + mset (filter de_in_use ring) = mset (filter de_in_use (dd_ring d))" using drain_pass_batch [OF dr] by blast
  then have "image_mset best_frame (mset batch + mset (filter de_in_use ring)) = image_mset best_frame (mset (filter de_in_use (dd_ring d)))"
    by (rule arg_cong)
  then show ?thesis by (simp add: account_def drainer_tick_def s dr emit_batch_frames)
qed

lemma drain_progress:
  assumes "drainer_tick cfg now cks (d, p) = (d', p')" "t \<le> now"
  shows "(\<forall>e \<in> set (dd_ring d'). \<not> expired t e)
    \<or> length (filter de_in_use (dd_ring d')) + DEDUP_DRAIN_BATCH \<le> length (filter de_in_use (dd_ring d))"
proof -
  obtain ring batch late where dr: "drain_pass now 0 (dd_ring d) = (ring, batch, late)" by (cases "drain_pass now 0 (dd_ring d)")
  note * = drain_pass_batch [OF dr]
  have "length batch + length (filter de_in_use ring) = length (filter de_in_use (dd_ring d))"
    using * by (metis le0 mset_append size_mset length_append)
  moreover have "\<not> expired now e \<Longrightarrow> \<not> expired t e" for e using assms(2) by (auto simp: expired_def)
  ultimately show ?thesis using * assms(1) dr by (auto simp: drainer_tick_def)
qed

lemma tick_keeps_calm:
  assumes "drainer_tick cfg now cks (d, p) = (d', p')" "\<forall>e \<in> set (dd_ring d). \<not> expired t e"
  shows "\<forall>e \<in> set (dd_ring d'). \<not> expired t e"
proof -
  obtain ring batch late where dr: "drain_pass now 0 (dd_ring d) = (ring, batch, late)" by (cases "drain_pass now 0 (dd_ring d)")
  have "set (filter de_in_use ring) \<subseteq> set (dd_ring d)"
    using drain_pass_batch [OF dr] by (metis filter_is_subset le0 mset_subset_eq_add_right set_mset_mono set_mset_mset subset_trans)
  then show ?thesis using assms dr by (auto simp: drainer_tick_def expired_def)
qed

lemma run_progress:
  assumes "drainer_run cfg ts (d, p) = (d', p')" "\<forall>(now, cks) \<in> set ts. t \<le> now"
    and "length (filter de_in_use (dd_ring d)) \<le> DEDUP_DRAIN_BATCH * length ts \<or> (\<forall>e \<in> set (dd_ring d). \<not> expired t e)"
  shows "\<forall>e \<in> set (dd_ring d'). \<not> expired t e"
  using assms
proof (induction ts arbitrary: d p)
  case Nil
  then show ?case by (auto simp: drainer_run_def filter_empty_conv expired_def)
next
  case (Cons x ts)
  obtain now cks where x: "x = (now, cks)" by (cases x)
  obtain d1 p1 where t: "drainer_tick cfg now cks (d, p) = (d1, p1)" by (cases "drainer_tick cfg now cks (d, p)")
  have "length (filter de_in_use (dd_ring d1)) \<le> DEDUP_DRAIN_BATCH * length ts \<or> (\<forall>e \<in> set (dd_ring d1). \<not> expired t e)"
    using drain_progress [OF t, of t] tick_keeps_calm [OF t, of t] Cons.prems x by auto
  then show ?case using Cons.IH [of d1 p1] Cons.prems t x by (auto simp: drainer_run_def)
qed

lemma run_account: "account (drainer_run cfg ts s) = account s"
  unfolding drainer_run_def by (induction ts arbitrary: s) (auto simp: tick_account)

text \<open>A configuration without keys, an idle pipeline and a cluster of one clean header-only frame.\<close>

definition sample_config :: publish_config where
  "sample_config = \<lparr> pc_meshcore = False, pc_sample_rate_sps = 1000000, pc_station_t_acc_ns = 0, pc_keys = None, pc_channels = None,
     pc_ctr = (\<lambda>k iv m. None), pc_sig = (\<lambda>k m g. False), pc_hmac = (\<lambda>k m. None), pc_ecb = (\<lambda>k m. None) \<rparr>"

definition sample_pipeline :: pipeline where
  "sample_pipeline = \<lparr> pl_frames_total = 0, pl_crc_pass_total = 0, pl_crc_fail_total = 0, pl_decrypts_total = 0, pl_stragglers = 0,
     pl_chan_stats = [], pl_replay = \<lparr> rp_ring = [], rp_next_slot = 0 \<rparr>,
     pl_regions = \<lparr> rr_confirmed = [], rr_queue = \<lparr> rg_slots = [], rg_head = 0, rg_tail = 0 \<rparr> \<rparr>, pl_search = [], pl_out = [] \<rparr>"

definition sample_clocks :: clocks where
  "sample_clocks = \<lparr> ck_monotonic_us = 0, ck_time = 0, ck_sec = 0, ck_nsec = 0 \<rparr>"

definition sample_entry :: dedup_entry where
  "sample_entry = dedup_open 9 8 (replicate 16 0, Some sample_meta, -1) dedup_entry0"

lemma sample_entry_simps:
  "best_frame sample_entry = replicate 16 0" "de_best_meta sample_entry = sample_meta" "de_in_use sample_entry"
  "de_emit_at_us sample_entry = 30009" "de_best_snr_db sample_entry = 0x40A00000" "length (de_best_payload sample_entry) = 256"
  by (simp_all add: sample_entry_def dedup_open_def take_best_def best_frame_def overwrite_def dedup_entry0_def replica_snr_def sample_meta_def)

lemma sample_emitted:
  "\<exists>ev. events_of (emitted_outputs sample_config sample_clocks sample_entry sample_pipeline) = [ev] \<and> ev_decrypted ev"
proof -
  let ?ev = "(radio_event (best_frame sample_entry) (best_radio sample_entry))\<lparr> ev_decrypted := True \<rparr>"
  have "fst (decode_best sample_config sample_entry (pl_regions sample_pipeline)) = [?ev]"
    by (simp add: decode_best_def sample_config_def mesh_packet_decode_with_radio_def sample_entry_simps MESH_HEADER_BYTES_def)
  then obtain ev p' where ev: "events_of (emitted_outputs sample_config sample_clocks sample_entry sample_pipeline) = [ev]"
    and g: "ev = gate_event (stamp_event sample_config p' (Some (emit_ctx sample_config sample_entry)) ?ev)"
    using emit_adds [of sample_pipeline sample_config sample_clocks sample_entry] by (auto simp: list_all2_Cons1)
  have "ev_decrypted ev" unfolding g
    by (simp add: gate_event_def crc_recovery_needs_gate_def stamp_event_simps emit_ctx_def sample_entry_simps sample_meta_def rx_meta0_def)
  with ev show ?thesis by blast
qed

text \<open>A cluster of one signed MeshCore advertisement that was repaired by two bits.\<close>

definition advert_entry :: dedup_entry where
  "advert_entry = dedup_open 9 8 (0x11 # 0 # replicate 100 7,
     Some (sample_meta\<lparr> m_crc_corrected := True, m_crc_corrected_bits := 2 \<rparr>), -1) dedup_entry0"

abbreviation (input) advert_config :: publish_config where
  "advert_config \<equiv> sample_config\<lparr> pc_meshcore := True, pc_sig := (\<lambda>k m g. True) \<rparr>"

lemma advert_entry_simps:
  "best_frame advert_entry = 0x11 # 0 # replicate 100 7" "de_best_meta advert_entry = sample_meta\<lparr> m_crc_corrected := True, m_crc_corrected_bits := 2 \<rparr>"
  by (simp_all add: advert_entry_def dedup_open_def take_best_def best_frame_def overwrite_def)

lemma advert_emitted:
  "\<exists>ev. events_of (emitted_outputs advert_config sample_clocks advert_entry sample_pipeline) = [ev] \<and> ev_payload_crc_ok ev"
proof -
  let ?sig = "\<lambda>(k :: bytes) (m :: bytes) (g :: bytes). True" and ?no = "\<lambda>(k :: bytes) (m :: bytes). None :: bytes option"
  let ?f = "0x11 # 0 # replicate 100 (7 :: byte)" and ?r = "best_radio advert_entry"
  define pkt where "pkt = \<lparr> pk_route_type = 1, pk_payload_type = 4, pk_payload_ver = 0, pk_has_transport_codes = False,
      pk_transport_code1 = 0, pk_transport_code2 = 0, pk_path = [], pk_path_hash_count = 0, pk_path_hash_size = 1, pk_payload = replicate 100 (7 :: byte) \<rparr>"
  have bytes: "?f = packet_bytes pkt" by (simp add: pkt_def packet_bytes_def header_byte_def path_byte_def)
  have "packet_ok pkt"
    by (simp add: pkt_def packet_ok_def mc_route_has_transport_codes_def MC_ROUTE_TRANSPORT_FLOOD_def MC_ROUTE_TRANSPORT_DIRECT_def)
  then have parse: "meshcore_packet_parse ?f = Some pkt" unfolding bytes using packet_parse_bytes [of pkt "[]"] by simp
  obtain ev where ev: "meshcore_decode_advert ?sig pkt (meshcore_base_event ?f ?r pkt) = (True, ev)" "mc_sig_valid (ev_mc ev)"
    by (simp add: meshcore_decode_advert_def pkt_def Let_def size_defs meshcore_advert_verify_signature_def advert_app_data_def)
  then have dispatch: "meshcore_dispatch ?sig ?no ?no pkt None (meshcore_base_event ?f ?r pkt) = (True, ev)"
    by (simp add: meshcore_dispatch_def pkt_def)
  have "same_kind (meshcore_base_event ?f ?r pkt) ev"
    using dispatch_same_kind [of "meshcore_base_event ?f ?r pkt" ?sig ?no ?no pkt None] dispatch by simp
  then have kind: "is_meshcore (ev_mc ev)" "mc_payload_type (ev_mc ev) = MC_PAYLOAD_ADVERT"
    by (simp_all add: same_kind_def meshcore_base_event_def pkt_def)
  have "fst (decode_best advert_config advert_entry (pl_regions sample_pipeline)) = [ev]" using dispatch
    by (simp add: decode_best_def sample_config_def advert_entry_simps meshcore_packet_decode_with_radio_def parse meshcore_region_scope_def)
       (simp add: pkt_def)
  then obtain ev' p' where ev': "events_of (emitted_outputs advert_config sample_clocks advert_entry sample_pipeline) = [ev']"
    and g: "ev' = gate_event (stamp_event advert_config p' (Some (emit_ctx advert_config advert_entry)) ev)"
    using emit_adds [of sample_pipeline advert_config sample_clocks advert_entry] by (auto simp: list_all2_Cons1)
  have "ev_payload_crc_ok ev'" unfolding g using kind ev(2)
    by (simp add: gate_event_def mesh_event_crc2bit_trusted_def stamp_event_simps emit_ctx_def advert_entry_simps sample_meta_def Let_def)
  with ev' show ?thesis by blast
qed

text \<open>
  C5: what the feed presents as genuine has earned it.  For every event published when a
  cluster is emitted: if it is shown as decrypted, the frame had no CRC or its CRC was correct; if
  the CRC is correct only after flipping two bits, or one bit in a frame of a kind that can be authenticated, the
  event is shown as decrypted, as CRC-correct or as repaired only when the frame
  carries a matching authentication code of a configured channel or a valid signature.  The
  decrypt counter grows by exactly the number of events shown as decrypted.
\<close>

theorem publish_gate:
  assumes "ev \<in> set (events_of (emitted_outputs cfg ck e p))"
  shows "(ev_decrypted ev \<longrightarrow> \<not> m_has_crc (de_best_meta e) \<or> m_payload_crc_ok (de_best_meta e))
    \<and> ((2 \<le> m_crc_corrected_bits (de_best_meta e) \<or> m_crc_corrected_bits (de_best_meta e) = 1 \<and> crc_recovery_authable ev)
        \<and> (ev_decrypted ev \<or> ev_payload_crc_ok ev \<or> ev_crc_corrected ev) \<longrightarrow> authentic cfg (best_frame e))
    \<and> pl_decrypts_total (dedup_emit_locked cfg ck e p)
        = pl_decrypts_total p + of_nat (length (filter ev_decrypted (events_of (emitted_outputs cfg ck e p))))"
proof -
  obtain ev0 p' where ev0: "ev0 \<in> set (fst (decode_best cfg e (pl_regions p)))"
    and ev: "ev = gate_event (stamp_event cfg p' (Some (emit_ctx cfg e)) ev0)" using emitted_event [OF assms] .
  let ?s = "stamp_event cfg p' (Some (emit_ctx cfg e)) ev0"
  have "authentic cfg (best_frame e)" if "mesh_event_crc2bit_trusted ?s"
    using decode_best_trusted [OF ev0] stamp_trusted [OF that] .
  moreover have "crc_recovery_authable ev = crc_recovery_authable ?s" by (simp add: ev crc_recovery_authable_def)
  ultimately show ?thesis using emit_adds [of p cfg ck e]
    by (auto simp: ev gate_event_def crc_recovery_needs_gate_def stamp_event_simps emit_ctx_def Let_def adds_def split: if_splits)
qed

theorem publish_gate_witness:
  "(\<exists>ev. ev \<in> set (events_of (emitted_outputs sample_config sample_clocks sample_entry sample_pipeline)) \<and> ev_decrypted ev
      \<and> (\<not> m_has_crc (de_best_meta sample_entry) \<or> m_payload_crc_ok (de_best_meta sample_entry)))
   \<and> (\<exists>ev. ev \<in> set (events_of (emitted_outputs advert_config sample_clocks advert_entry sample_pipeline)) \<and> ev_payload_crc_ok ev
      \<and> authentic advert_config (best_frame advert_entry))"
proof
  obtain ev where ev: "events_of (emitted_outputs sample_config sample_clocks sample_entry sample_pipeline) = [ev]" "ev_decrypted ev"
    using sample_emitted by blast
  then have "ev \<in> set (events_of (emitted_outputs sample_config sample_clocks sample_entry sample_pipeline))" by simp
  from publish_gate [OF this] this ev
  show "\<exists>ev. ev \<in> set (events_of (emitted_outputs sample_config sample_clocks sample_entry sample_pipeline)) \<and> ev_decrypted ev
      \<and> (\<not> m_has_crc (de_best_meta sample_entry) \<or> m_payload_crc_ok (de_best_meta sample_entry))" by blast
next
  obtain ev where ev: "events_of (emitted_outputs advert_config sample_clocks advert_entry sample_pipeline) = [ev]" "ev_payload_crc_ok ev"
    using advert_emitted by blast
  then have "ev \<in> set (events_of (emitted_outputs advert_config sample_clocks advert_entry sample_pipeline))" by simp
  from publish_gate [OF this] this ev
  show "\<exists>ev. ev \<in> set (events_of (emitted_outputs advert_config sample_clocks advert_entry sample_pipeline)) \<and> ev_payload_crc_ok ev
      \<and> authentic advert_config (best_frame advert_entry)" by (auto simp: advert_entry_simps)
qed

text \<open>
  C12: a doubtful repair can hide a clean frame.  The tournament of the replica filter ranks a frame
  whose CRC matches after flipping two bits like one whose CRC matched at once.  So a
  stronger replica of that kind displaces a clean frame of the same transmission; with the Meshtastic protocol,
  where nothing can confirm the repair, the publication gate then rejects what is left, and the
  cluster is published as a failed frame although the clean replica alone would
  have been published as CRC-correct.
\<close>

theorem repaired_replica_hides_clean:
  assumes "\<not> pc_meshcore cfg" "m_payload_crc_ok (de_best_meta e)" "m_crc_corrected_bits (de_best_meta e) = 0"
    and "m_payload_crc_ok m" "2 \<le> m_crc_corrected_bits m" "f32_gt (m_snr_db m) (de_best_snr_db e)"
  shows "(\<forall>ev \<in> set (events_of (emitted_outputs cfg ck e p)). ev_payload_crc_ok ev)
    \<and> (\<forall>ev \<in> set (events_of (emitted_outputs cfg ck (dedup_fold (q, Some m, u) e) p)). \<not> ev_payload_crc_ok ev \<and> \<not> ev_decrypted ev)"
proof (intro conjI ballI)
  fix ev assume "ev \<in> set (events_of (emitted_outputs cfg ck e p))"
  then obtain ev0 p' where "ev = gate_event (stamp_event cfg p' (Some (emit_ctx cfg e)) ev0)" by (rule emitted_event)
  then show "ev_payload_crc_ok ev" using assms(2,3)
    by (simp add: gate_event_def crc_recovery_needs_gate_def stamp_event_simps emit_ctx_def Let_def)
next
  fix ev assume ev: "ev \<in> set (events_of (emitted_outputs cfg ck (dedup_fold (q, Some m, u) e) p))"
  let ?e = "dedup_fold (q, Some m, u) e"
  have m: "de_best_meta ?e = m" using assms
    by (simp add: dedup_fold_def tournament_def Let_def replica_good_def replica_snr_def take_best_def)
  obtain ev0 p' where ev0: "ev0 \<in> set (fst (decode_best cfg ?e (pl_regions p)))"
    and g: "ev = gate_event (stamp_event cfg p' (Some (emit_ctx cfg ?e)) ev0)" using emitted_event [OF ev] .
  have "\<not> mesh_event_crc2bit_trusted (stamp_event cfg p' (Some (emit_ctx cfg ?e)) ev0)"
    using decode_best_trusted [OF ev0] stamp_trusted [of cfg p' _ ev0] assms(1) by (auto simp: authentic_def)
  then show "\<not> ev_payload_crc_ok ev" "\<not> ev_decrypted ev" using assms(5)
    by (simp_all add: g gate_event_def crc_recovery_needs_gate_def stamp_event_simps emit_ctx_def m Let_def)
qed

theorem repaired_replica_hides_clean_witness:
  "let m = sample_meta\<lparr> m_crc_corrected := True, m_crc_corrected_bits := 2, m_snr_db := 0x40C00000 \<rparr>;
       e' = dedup_fold (1 # replicate 15 0, Some m, -1) sample_entry
   in (\<exists>ev. events_of (emitted_outputs sample_config sample_clocks sample_entry sample_pipeline) = [ev] \<and> ev_decrypted ev \<and> ev_payload_crc_ok ev)
      \<and> (\<forall>ev \<in> set (events_of (emitted_outputs sample_config sample_clocks e' sample_pipeline)). \<not> ev_payload_crc_ok ev \<and> \<not> ev_decrypted ev)"
proof -
  let ?m = "sample_meta\<lparr> m_crc_corrected := True, m_crc_corrected_bits := 2, m_snr_db := 0x40C00000 \<rparr>"
  have "f32_gt 0x40C00000 0x40A00000" by (simp add: f32_gt_def f32_nan_def f32_key_def take_bit_eq_mod bit_iff_odd)
  then show ?thesis
    using repaired_replica_hides_clean [of sample_config sample_entry ?m sample_clocks sample_pipeline "1 # replicate 15 0" "-1"] sample_emitted
    by (auto simp: Let_def sample_entry_simps sample_config_def sample_meta_def rx_meta0_def)
qed

text \<open>
  C11: no cluster waits for ever, and none is emitted twice or lost.  After eight turns of the
  drainer at or after some time, every cluster that was due at that time has left the ring, although
  one turn emits at most 64; and over any turns the frames written out together with
  the frames still in the ring are exactly those there were before.
\<close>

theorem drainer_complete:
  assumes "length (dd_ring d) = DEDUP_RING_SIZE" "drainer_run cfg ts (d, p) = (d', p')"
    and "8 \<le> length ts" "\<forall>(now_us, cks) \<in> set ts. t \<le> now_us"
  shows "(\<forall>e \<in> set (dd_ring d'). de_in_use e \<longrightarrow> t < de_emit_at_us e)
    \<and> mset (captures_of (pl_out p')) + mset (map best_frame (filter de_in_use (dd_ring d')))
        = mset (captures_of (pl_out p)) + mset (map best_frame (filter de_in_use (dd_ring d)))"
proof
  have "length (filter de_in_use (dd_ring d)) \<le> DEDUP_DRAIN_BATCH * length ts"
    using assms(1,3) length_filter_le [of de_in_use "dd_ring d"] by linarith
  then have "\<forall>e \<in> set (dd_ring d'). \<not> expired t e" using run_progress [OF assms(2,4)] by blast
  then show "\<forall>e \<in> set (dd_ring d'). de_in_use e \<longrightarrow> t < de_emit_at_us e" by (auto simp: expired_def not_le)
  show "mset (captures_of (pl_out p')) + mset (map best_frame (filter de_in_use (dd_ring d')))
      = mset (captures_of (pl_out p)) + mset (map best_frame (filter de_in_use (dd_ring d)))"
    using run_account [of cfg ts "(d, p)"] assms(2) by (simp add: account_def)
qed

theorem drainer_complete_witness:
  "\<exists>d' p'. drainer_run sample_config (replicate 8 (40000, \<lambda>i. sample_clocks))
       (dedup_init\<lparr> dd_ring := sample_entry # replicate 511 dedup_entry0 \<rparr>, sample_pipeline) = (d', p')
     \<and> (\<forall>e \<in> set (dd_ring d'). de_in_use e \<longrightarrow> 40000 < de_emit_at_us e)
     \<and> {# replicate 16 0 #} = mset (captures_of (pl_out p')) + mset (map best_frame (filter de_in_use (dd_ring d')))"
proof -
  let ?d = "dedup_init\<lparr> dd_ring := sample_entry # replicate 511 dedup_entry0 \<rparr>"
  obtain d' p' where r: "drainer_run sample_config (replicate 8 (40000, \<lambda>i. sample_clocks)) (?d, sample_pipeline) = (d', p')"
    by (cases "drainer_run sample_config (replicate 8 (40000, \<lambda>i. sample_clocks)) (?d, sample_pipeline)")
  have "filter de_in_use (dd_ring ?d) = [sample_entry]" by (simp add: sample_entry_simps dedup_entry0_def)
  then show ?thesis using drainer_complete [OF _ r, of 40000] r
    by (auto simp: sample_entry_simps sample_pipeline_def)
qed

end
