(* ===== verification/Meshcore_Recover.thy ===== *)
theory Meshcore_Recover
  imports Meshcore_Decoders Lora_Crc
begin

text \<open>
  The scans that go back over stored frames: \<^verbatim>\<open>crc_recover.c\<close>, \<^verbatim>\<open>meshcore_redecrypt.c\<close>,
  \<^verbatim>\<open>meshcore_region_recover.c\<close>, \<^verbatim>\<open>meshcore_lpp_recover.c\<close> and \<^verbatim>\<open>meshcore_control_recover.c\<close>.  Each takes rows of the event
  data base, decodes their stored bytes again and writes back what it found.  The data base is
  outside: the rows are an argument, and so is the success of each update.  The JSON text stored with
  an update is left out; an update carries the event instead.  Proved: a stored group message is
  decrypted once its channel is known; an update of the CRC scan is as trustworthy as a published
  event; and the CRC scan cannot find the frame that was sent.
\<close>

subsection \<open>Rows and outcomes\<close>

record stored_row =
  sr_id :: int
  sr_radio :: radio
  sr_raw_hex :: string

text \<open>What one row comes to: passed over, not decodable, not trusted, or an update of the row.\<close>

datatype 'u outcome = Skipped | Decode_Failed | Untrusted | Update 'u

definition row_hex_decode :: "string \<Rightarrow> nat \<Rightarrow> bytes option" where
  "row_hex_decode hex max_out = (if length hex mod 2 \<noteq> 0 then None else hex_pairs (take (2 * max_out) hex))"

definition capture_cb :: "mesh_event list \<Rightarrow> mesh_event" where
  "capture_cb evs = (case evs of [] \<Rightarrow> mesh_event0 | _ \<Rightarrow> last evs)"

text \<open>The rows in turn, threading the region cache and collecting the frames sent to the channel search.\<close>

type_synonym 'u row_step = "stored_row \<Rightarrow> region_dict \<Rightarrow> 'u outcome \<times> region_dict \<times> (bytes \<times> radio) list"

primrec scan_rows :: "'u row_step \<Rightarrow> stored_row list \<Rightarrow> region_dict \<Rightarrow> (stored_row \<times> 'u outcome) list \<times> region_dict \<times> (bytes \<times> radio) list" where
  "scan_rows f [] d = ([], d, [])"
| "scan_rows f (row # rows) d =
     (case f row d of (out, d, s) \<Rightarrow>
        case scan_rows f rows d of (outs, d, ss) \<Rightarrow> ((row, out) # outs, d, s @ ss))"

text \<open>The updates the data base accepted.\<close>

definition applied :: "(int \<Rightarrow> 'u \<Rightarrow> bool) \<Rightarrow> (stored_row \<times> 'u outcome) list \<Rightarrow> 'u list" where
  "applied db outs = concat (map (\<lambda>(row, out). case out of Update u \<Rightarrow> if db (sr_id row) u then [u] else [] | _ \<Rightarrow> []) outs)"

subsection \<open>CRC recovery\<close>

text \<open>The stored bytes after the search for one or two wrong bits, with the number of bits flipped.\<close>

definition recover_frame :: "bool \<Rightarrow> string \<Rightarrow> (int \<times> bytes) option" where
  "recover_frame alloc_ok hex =
     (case row_hex_decode hex 256 of
        None \<Rightarrow> None
      | Some frame \<Rightarrow>
          if length frame < 4 then None
          else case lora_crc_bruteforce_correct frame (length frame) of
                 (True, f) \<Rightarrow> Some (1, f)
               | (False, f) \<Rightarrow> (case lora_crc_bruteforce_correct_2bit alloc_ok f (length f) of
                                  (True, g) \<Rightarrow> Some (2, g)
                                | (False, g) \<Rightarrow> None))"

definition recover_trusted :: "int \<Rightarrow> mesh_event \<Rightarrow> bool" where
  "recover_trusted bits ev =
     (let t = mc_payload_type (ev_mc ev);
          authable = (t = MC_PAYLOAD_GRP_TXT \<or> t = MC_PAYLOAD_GRP_DATA \<or> t = MC_PAYLOAD_ADVERT);
          needs_gate = (bits \<ge> 2 \<or> bits = 1 \<and> authable)
      in \<not> needs_gate \<or> mesh_event_crc2bit_trusted ev)"

definition crc_recover_row :: "bool \<Rightarrow> verifier \<Rightarrow> keyed \<Rightarrow> keyed \<Rightarrow> channelset \<Rightarrow> (int \<times> mesh_event) row_step" where
  "crc_recover_row alloc_ok sig hmac ecb channels row d =
     (case recover_frame alloc_ok (sr_raw_hex row) of
        None \<Rightarrow> (Skipped, d, [])
      | Some (bits, frame) \<Rightarrow>
          (case meshcore_packet_decode_with_radio sig hmac ecb frame (sr_radio row) (Some channels) True d of
             (rc, evs, d, search) \<Rightarrow>
               if rc \<noteq> 0 then (Decode_Failed, d, search)
               else let ev = (capture_cb evs)\<lparr> ev_has_crc := True, ev_payload_crc_ok := True,
                                               ev_crc_corrected := True, ev_crc_corrected_bits := bits \<rparr>
                    in if \<not> recover_trusted bits ev then (Untrusted, d, search) else (Update (bits, ev), d, search)))"

record crc_recover_stats =
  cr_total_candidates :: nat
  cr_fixed_1bit :: nat
  cr_fixed_2bit :: nat
  cr_untrusted :: nat
  cr_decode_failed :: nat

text \<open>The scan: the counters, the number of rows fixed, the region cache and the frames for the channel search.\<close>

definition meshcore_crc_recover_scan ::
  "bool \<Rightarrow> verifier \<Rightarrow> keyed \<Rightarrow> keyed \<Rightarrow> (int \<Rightarrow> int \<times> mesh_event \<Rightarrow> bool) \<Rightarrow> channelset option \<Rightarrow> stored_row list \<Rightarrow> region_dict \<Rightarrow>
     crc_recover_stats \<times> nat \<times> region_dict \<times> (bytes \<times> radio) list" where
  "meshcore_crc_recover_scan alloc_ok sig hmac ecb db channels rows d =
     (case channels of
        None \<Rightarrow> (\<lparr> cr_total_candidates = 0, cr_fixed_1bit = 0, cr_fixed_2bit = 0, cr_untrusted = 0, cr_decode_failed = 0 \<rparr>, 0, d, [])
      | Some cs \<Rightarrow>
          (case scan_rows (crc_recover_row alloc_ok sig hmac ecb cs) rows d of
             (outs, d, search) \<Rightarrow>
               let fixed = applied db outs
               in (\<lparr> cr_total_candidates = length rows, cr_fixed_1bit = length (filter (\<lambda>u. fst u = 1) fixed),
                     cr_fixed_2bit = length (filter (\<lambda>u. fst u \<noteq> 1) fixed),
                     cr_untrusted = length (filter (\<lambda>p. snd p = Untrusted) outs),
                     cr_decode_failed = length (filter (\<lambda>p. snd p = Decode_Failed) outs) \<rparr>, length fixed, d, search)))"

subsection \<open>Decryption of stored group messages\<close>

definition redecrypt_base_event :: "stored_row \<Rightarrow> meshcore_packet \<Rightarrow> mesh_event" where
  "redecrypt_base_event row pkt =
     (let r = sr_radio row
      in mesh_event0\<lparr> ev_rssi_db := rd_rssi_db r, ev_snr_db := rd_snr_db r, ev_sf := rd_sf r, ev_cr := rd_cr r,
           ev_bw_hz := rd_bw_hz r, ev_slot_id := -1, ev_raw_hex := take 512 (sr_raw_hex row),
           ev_mc := mc_event0\<lparr> is_meshcore := True, mc_route_type := pk_route_type pkt, mc_payload_type := pk_payload_type pkt,
             mc_payload_ver := pk_payload_ver pkt, mc_hdr_path_hash_count := pk_path_hash_count pkt,
             mc_hdr_path_hash_size := pk_path_hash_size pkt, mc_hdr_path := take 64 (pk_path pkt),
             mc_has_region_scope := pk_has_transport_codes pkt \<rparr> \<rparr>)"

definition redecrypt_row :: "keyed \<Rightarrow> keyed \<Rightarrow> channelset \<Rightarrow> mesh_event row_step" where
  "redecrypt_row hmac ecb channels row d =
     (case row_hex_decode (sr_raw_hex row) 256 of
        None \<Rightarrow> (Skipped, d, [])
      | Some frame \<Rightarrow>
          if frame = [] then (Skipped, d, [])
          else case meshcore_packet_parse frame of
                 None \<Rightarrow> (Skipped, d, [])
               | Some pkt \<Rightarrow>
                   if pk_payload_type pkt \<noteq> MC_PAYLOAD_GRP_TXT \<and> pk_payload_type pkt \<noteq> MC_PAYLOAD_GRP_DATA then (Skipped, d, [])
                   else (case meshcore_region_scope hmac pkt (redecrypt_base_event row pkt) d of
                           (ev, d) \<Rightarrow>
                             (case (if pk_payload_type pkt = MC_PAYLOAD_GRP_TXT then meshcore_decode_grp_txt hmac ecb pkt (Some channels) ev
                                    else meshcore_decode_grp_data hmac ecb pkt (Some channels) ev) of
                                (ok, ev) \<Rightarrow> if \<not> ok \<or> \<not> ev_decrypted ev then (Skipped, d, []) else (Update ev, d, []))))"

definition meshcore_redecrypt_channel ::
  "keyed \<Rightarrow> keyed \<Rightarrow> (int \<Rightarrow> mesh_event \<Rightarrow> bool) \<Rightarrow> channelset option \<Rightarrow> stored_row list \<Rightarrow> region_dict \<Rightarrow> nat \<times> region_dict" where
  "meshcore_redecrypt_channel hmac ecb db channels rows d =
     (case channels of
        None \<Rightarrow> (0, d)
      | Some cs \<Rightarrow> (case scan_rows (redecrypt_row hmac ecb cs) rows d of (outs, d, _) \<Rightarrow> (length (applied db outs), d)))"

subsection \<open>Regions, telemetry and control frames\<close>

record recover_stats =
  rs_total_candidates :: nat
  rs_resolved :: nat
  rs_decode_failed :: nat

definition scan_stats :: "(int \<Rightarrow> 'u \<Rightarrow> bool) \<Rightarrow> (stored_row \<times> 'u outcome) list \<Rightarrow> recover_stats" where
  "scan_stats db outs =
     \<lparr> rs_total_candidates = length outs, rs_resolved = length (applied db outs),
       rs_decode_failed = length (filter (\<lambda>p. snd p = Decode_Failed) outs) \<rparr>"

text \<open>A row without a cached name gets the whole word list, and what it finds is remembered.\<close>

definition region_recover_row :: "digest \<Rightarrow> verifier \<Rightarrow> keyed \<Rightarrow> keyed \<Rightarrow> channelset \<Rightarrow> mesh_event row_step" where
  "region_recover_row sha sig hmac ecb channels row d =
     (case row_hex_decode (sr_raw_hex row) 256 of
        None \<Rightarrow> (Skipped, d, [])
      | Some frame \<Rightarrow>
          if length frame < 4 then (Skipped, d, [])
          else (case meshcore_packet_decode_with_radio sig hmac ecb frame (sr_radio row) (Some channels) True d of
                  (rc, evs, d, search) \<Rightarrow>
                    let ev = capture_cb evs
                    in if rc \<noteq> 0 then (Decode_Failed, d, search)
                       else if \<not> mc_has_region_scope (ev_mc ev) then (Skipped, d, search)
                       else (case (if mc_region_name (ev_mc ev) \<noteq> [] then (mc_region_name (ev_mc ev), rr_confirmed d)
                                   else case meshcore_packet_parse frame of
                                          None \<Rightarrow> ([], rr_confirmed d)
                                        | Some pkt \<Rightarrow>
                                            if \<not> pk_has_transport_codes pkt then ([], rr_confirmed d)
                                            else (case meshcore_region_resolve_full sha hmac (rr_confirmed d) (word_of_int (pk_payload_type pkt))
                                                         (pk_payload pkt) (pk_transport_code1 pkt) 32 of
                                                    (name, conf) \<Rightarrow> ((case name of Some n \<Rightarrow> n | None \<Rightarrow> []), conf))) of
                               (name, conf) \<Rightarrow>
                                 let d = d\<lparr> rr_confirmed := conf \<rparr>; ev = ev\<lparr> ev_mc := (ev_mc ev)\<lparr> mc_region_name := name \<rparr> \<rparr>
                                 in if name = [] then (Skipped, d, search) else (Update ev, d, search))))"

definition meshcore_region_recover_scan ::
  "digest \<Rightarrow> verifier \<Rightarrow> keyed \<Rightarrow> keyed \<Rightarrow> (int \<Rightarrow> mesh_event \<Rightarrow> bool) \<Rightarrow> channelset option \<Rightarrow> stored_row list \<Rightarrow> region_dict \<Rightarrow>
     recover_stats \<times> nat \<times> region_dict \<times> (bytes \<times> radio) list" where
  "meshcore_region_recover_scan sha sig hmac ecb db channels rows d =
     (case channels of
        None \<Rightarrow> (scan_stats db [], 0, d, [])
      | Some cs \<Rightarrow> (case scan_rows (region_recover_row sha sig hmac ecb cs) rows d of
                      (outs, d, search) \<Rightarrow> (scan_stats db outs, length (applied db outs), d, search)))"

definition lpp_recover_row :: "verifier \<Rightarrow> keyed \<Rightarrow> keyed \<Rightarrow> channelset \<Rightarrow> mesh_event row_step" where
  "lpp_recover_row sig hmac ecb channels row d =
     (case row_hex_decode (sr_raw_hex row) 256 of
        None \<Rightarrow> (Decode_Failed, d, [])
      | Some frame \<Rightarrow>
          if length frame < 4 then (Decode_Failed, d, [])
          else (case meshcore_packet_decode_with_radio sig hmac ecb frame (sr_radio row) (Some channels) True d of
                  (rc, evs, d, search) \<Rightarrow>
                    let ev = capture_cb evs
                    in if rc \<noteq> 0 then (Decode_Failed, d, search)
                       else if mc_payload_type (ev_mc ev) \<noteq> MC_PAYLOAD_GRP_DATA \<or> \<not> ev_decrypted ev then (Skipped, d, search)
                       else if mc_telemetry_json (ev_mc ev) = [] then (Skipped, d, search)
                       else (Update ev, d, search)))"

definition meshcore_lpp_recover_scan ::
  "verifier \<Rightarrow> keyed \<Rightarrow> keyed \<Rightarrow> (int \<Rightarrow> mesh_event \<Rightarrow> bool) \<Rightarrow> channelset option \<Rightarrow> stored_row list \<Rightarrow> region_dict \<Rightarrow>
     recover_stats \<times> nat \<times> region_dict \<times> (bytes \<times> radio) list" where
  "meshcore_lpp_recover_scan sig hmac ecb db channels rows d =
     (case channels of
        None \<Rightarrow> (scan_stats db [], 0, d, [])
      | Some cs \<Rightarrow> (case scan_rows (lpp_recover_row sig hmac ecb cs) rows d of
                      (outs, d, search) \<Rightarrow> (scan_stats db outs, length (applied db outs), d, search)))"

definition control_resp_node_id :: "mesh_event \<Rightarrow> u32" where
  "control_resp_node_id ev =
     (let k = mc_pubkey (ev_mc ev)
      in push_bit 24 (ucast (k ! 0)) OR push_bit 16 (ucast (k ! 1)) OR push_bit 8 (ucast (k ! 2)) OR ucast (k ! 3))"

text \<open>Without channels; a discovery response also gives the node's number.\<close>

definition control_recover_row :: "verifier \<Rightarrow> keyed \<Rightarrow> keyed \<Rightarrow> (u32 option \<times> mesh_event) row_step" where
  "control_recover_row sig hmac ecb row d =
     (case row_hex_decode (sr_raw_hex row) 256 of
        None \<Rightarrow> (Skipped, d, [])
      | Some frame \<Rightarrow>
          if length frame < 4 then (Skipped, d, [])
          else (case meshcore_packet_decode_with_radio sig hmac ecb frame (sr_radio row) None True d of
                  (rc, evs, d, search) \<Rightarrow>
                    let ev = capture_cb evs
                    in if rc \<noteq> 0 then (Decode_Failed, d, search)
                       else if mc_payload_type (ev_mc ev) \<noteq> MC_PAYLOAD_CONTROL \<or> \<not> ev_decrypted ev \<or> mc_ctl_subtype (ev_mc ev) = []
                       then (Skipped, d, search)
                       else (Update (if mc_ctl_subtype (ev_mc ev) = ''NODE_DISCOVER_RESP'' then Some (control_resp_node_id ev) else None, ev),
                             d, search)))"

definition meshcore_control_recover_scan ::
  "verifier \<Rightarrow> keyed \<Rightarrow> keyed \<Rightarrow> (int \<Rightarrow> u32 option \<times> mesh_event \<Rightarrow> bool) \<Rightarrow> stored_row list \<Rightarrow> region_dict \<Rightarrow>
     recover_stats \<times> nat \<times> region_dict \<times> (bytes \<times> radio) list" where
  "meshcore_control_recover_scan sig hmac ecb db rows d =
     (case scan_rows (control_recover_row sig hmac ecb) rows d of
        (outs, d, search) \<Rightarrow> (scan_stats db outs, length (applied db outs), d, search))"

subsection \<open>What the scans find\<close>

lemma row_hex_roundtrip:
  assumes "length frame \<le> 256"
  shows "row_hex_decode (hex_dump (take 256 frame) 0 513) 256 = Some frame"
  using assms by (simp add: row_hex_decode_def hex_dump_length hex_pairs_dump)

lemma scan_rows_mem:
  assumes "scan_rows f rows d = (outs, d', s)" "row \<in> set rows"
  shows "\<exists>d1. (row, fst (f row d1)) \<in> set outs"
  using assms
proof (induction rows arbitrary: d outs s)
  case (Cons r rows)
  obtain out d1 s1 where r: "f r d = (out, d1, s1)" by (metis prod_cases3)
  obtain outs2 d2 s2 where rest: "scan_rows f rows d1 = (outs2, d2, s2)" by (metis prod_cases3)
  have outs: "outs = (r, out) # outs2" "d' = d2" using Cons.prems r rest by auto
  show ?case
  proof (cases "row = r")
    case True
    then show ?thesis using r outs by (intro exI [of _ d]) simp
  next
    case False
    then show ?thesis using Cons.IH [of d1 outs2 s2] Cons.prems rest outs by auto
  qed
qed simp

lemma recover_frame_tiers:
  assumes "recover_frame a hex = Some (bits, f)"
  shows "\<exists>frame. row_hex_decode hex 256 = Some frame \<and> 4 \<le> length frame
    \<and> (bits = 1 \<and> lora_crc_bruteforce_correct frame (length frame) = (True, f)
       \<or> bits = 2 \<and> (\<exists>g. lora_crc_bruteforce_correct frame (length frame) = (False, g)
                        \<and> lora_crc_bruteforce_correct_2bit a g (length g) = (True, f)))"
proof -
  obtain frame where fr: "row_hex_decode hex 256 = Some frame" "4 \<le> length frame"
    using assms by (auto simp: recover_frame_def split: option.splits if_splits)
  obtain ok g where one: "lora_crc_bruteforce_correct frame (length frame) = (ok, g)" by fastforce
  obtain ok2 g2 where two: "lora_crc_bruteforce_correct_2bit a g (length g) = (ok2, g2)" by fastforce
  show ?thesis using assms fr one two by (cases ok; cases ok2) (simp_all add: recover_frame_def)
qed

text \<open>An update of the CRC scan carries evidence wherever evidence can exist.\<close>

lemma crc_update_trusted:
  assumes "crc_recover_row a sig hmac ecb cs row d = (Update (bits, ev), d', s)"
  shows "\<exists>frame. recover_frame a (sr_raw_hex row) = Some (bits, frame)
    \<and> (bits < 2 \<and> mc_payload_type (ev_mc ev) \<notin> {MC_PAYLOAD_GRP_TXT, MC_PAYLOAD_GRP_DATA, MC_PAYLOAD_ADVERT}
       \<or> (\<exists>pkt. meshcore_packet_parse frame = Some pkt
            \<and> ((\<exists>e \<in> set cs. mac_ok hmac (ch_secret e) (tl (pk_payload pkt)))
               \<or> pk_payload_type pkt = MC_PAYLOAD_ADVERT \<and> signature_ok sig (pk_payload pkt))))"
proof -
  obtain frame evs where f: "recover_frame a (sr_raw_hex row) = Some (bits, frame)"
    and dec: "meshcore_packet_decode_with_radio sig hmac ecb frame (sr_radio row) (Some cs) True d = (0, evs, d', s)"
    and ev: "ev = (capture_cb evs)\<lparr> ev_has_crc := True, ev_payload_crc_ok := True, ev_crc_corrected := True, ev_crc_corrected_bits := bits \<rparr>"
    and tr: "recover_trusted bits ev"
    using assms by (auto simp: crc_recover_row_def Let_def split: option.splits prod.splits if_splits)
  obtain ev0 where evs: "evs = [ev0]"
    using dec by (auto simp: meshcore_packet_decode_with_radio_def split: option.splits prod.splits if_splits)
  have "bits \<in> {1, 2}" using recover_frame_tiers [OF f] by blast
  moreover have "mesh_event_crc2bit_trusted ev \<Longrightarrow> mesh_event_crc2bit_trusted ev0"
    by (simp add: ev evs capture_cb_def mesh_event_crc2bit_trusted_def Let_def split: if_splits)
  ultimately show ?thesis
    using f tr mc_trusted_authentic [of ev0 sig hmac ecb frame "sr_radio row" "Some cs" True d] dec evs
    by (auto simp: recover_trusted_def Let_def)
qed

lemma recover_frame_selfcheck:
  assumes "recover_frame a hex = Some (bits, f)"
  shows "4 \<le> length f \<and> got_crc f (length f) = want_crc f (length f - 2)"
proof -
  obtain frame where len: "4 \<le> length frame" and tier: "bits = 1 \<and> lora_crc_bruteforce_correct frame (length frame) = (True, f)
       \<or> bits = 2 \<and> (\<exists>g. lora_crc_bruteforce_correct frame (length frame) = (False, g)
                        \<and> lora_crc_bruteforce_correct_2bit a g (length g) = (True, f))"
    using recover_frame_tiers [OF assms] by blast
  note one = bruteforce_correct_find [OF len, of frame, simplified]
  from tier show ?thesis
  proof
    assume "bits = 1 \<and> lora_crc_bruteforce_correct frame (length frame) = (True, f)"
    then obtain b where "f = flip_bit_at frame b" "crc_synd (length frame) (flip_bit_at frame b) = 0"
      using one by (auto simp: find_map_upt_Some simp del: upt_Suc split: option.splits)
    then show ?thesis using len by (simp add: crc_synd_zero)
  next
    assume "bits = 2 \<and> (\<exists>g. lora_crc_bruteforce_correct frame (length frame) = (False, g)
                        \<and> lora_crc_bruteforce_correct_2bit a g (length g) = (True, f))"
    then have two: "lora_crc_bruteforce_correct_2bit a frame (length frame) = (True, f)"
      using one by (auto split: option.splits)
    then have "length f = length frame" using bruteforce_2bit_length [of a frame "length frame"] by simp
    then show ?thesis using two_bit_sound [OF len _ two] len by simp
  qed
qed

text \<open>
  C39: the scan for stored frames with a failed CRC cannot find the frame that was sent.  The receiver
  stores a frame without its two CRC bytes, but the scan reads the last two bytes of the
  stored payload as the CRC.  So for a payload of at least four bytes that does not happen to end in the CRC of its own beginning,
  no stored row is ever corrected to that payload, although the receiver, which still has the CRC, restores it
  from every single wrong bit.
\<close>

theorem crc_recover_never_restores:
  assumes "4 \<le> length p" "length p \<le> 255" "got_crc p (length p) \<noteq> want_crc p (length p - 2)"
    and "length c = 2" "got_crc (p @ c) (length p + 2) = want_crc (p @ c) (length p)" "b < 8 * length p"
  shows "lora_crc_bruteforce_correct (flip_bit_at (p @ c) b) (length p + 2) = (True, p @ c)
    \<and> \<not> (\<exists>a hex bits. recover_frame a hex = Some (bits, p))"
  using single_bit_restored [of "length p + 2" "p @ c" b] recover_frame_selfcheck assms by auto

theorem crc_recover_never_restores_witness:
  "lora_crc_bruteforce_correct (flip_bit_at [1, 2, 3, 4, 0x77, 0x10] 9) 6 = (True, [1, 2, 3, 4, 0x77, 0x10])
    \<and> recover_frame True ''01000304'' \<noteq> Some (1, [1, 2, 3, 4])"
proof -
  have own: "got_crc [1, 2, 3, 4] 4 \<noteq> want_crc [1, 2, 3, 4] 2" by code_simp
  have crc: "got_crc ([1, 2, 3, 4] @ [0x77, 0x10]) 6 = want_crc ([1, 2, 3, 4] @ [0x77, 0x10]) 4" by code_simp
  have len: "length [1, 2, 3, 4 :: byte] = 4" "length [0x77, 0x10 :: byte] = 2" by simp_all
  have "lora_crc_bruteforce_correct (flip_bit_at ([1, 2, 3, 4] @ [0x77, 0x10]) 9) (4 + 2) = (True, [1, 2, 3, 4] @ [0x77, 0x10])
      \<and> \<not> (\<exists>a hex bits. recover_frame a hex = Some (bits, [1, 2, 3, 4]))"
    by (rule crc_recover_never_restores [of "[1, 2, 3, 4]" "[0x77, 0x10]" 9, unfolded len]) (use own crc in simp_all)
  then show ?thesis by simp
qed

text \<open>
  C40: stored group messages are decrypted once their channel is known.  Take rows of which one holds the
  bytes of a group text sent on a configured channel, and suppose that no other configured
  secret accepts it: the scan gives that row an update, accepted or not by the data base, with the text, the sender's
  time stamp and the name of the channel.
\<close>

theorem redecrypt_finds_text:
  assumes "crypto_ok hmac enc ecb" "channel_inv sha cs" "e \<in> set cs" "unat ty < 4" "0 \<notin> set text"
    and pkt: "packet_ok pkt" "pk_payload_type pkt = MC_PAYLOAD_GRP_TXT"
      "pk_payload pkt = h # mc_encrypt hmac enc (ch_secret e) (group_text ts ty text)"
    and "\<And>e'. e' \<in> set cs \<Longrightarrow> e' \<noteq> e \<Longrightarrow> meshcore_verify_and_decrypt hmac ecb (ch_secret e') (tl (pk_payload pkt)) = None"
    and row: "row \<in> set rows" "sr_raw_hex row = hex_dump (take 256 (packet_bytes pkt)) 0 513"
    and scan: "scan_rows (redecrypt_row hmac ecb cs) rows d = (outs, d', s)"
  shows "\<exists>ev. (row, Update ev) \<in> set outs \<and> ev_decrypted ev \<and> ev_channel_name ev = ch_name e
    \<and> mc_text (ev_mc ev) = map (\<lambda>c. char_of (unat c)) text \<and> mc_timestamp (ev_mc ev) = ts"
proof -
  have len: "length (packet_bytes pkt) \<le> 256" using pkt(1) by (auto simp: packet_ok_def packet_bytes_def le16_def)
  have parse: "meshcore_packet_parse (packet_bytes pkt) = Some pkt" using packet_parse_bytes [OF pkt(1), of "[]"] by simp
  obtain d1 where d1: "(row, fst (redecrypt_row hmac ecb cs row d1)) \<in> set outs" using scan_rows_mem [OF scan row(1)] by blast
  obtain ev1 d2 where sc: "meshcore_region_scope hmac pkt (redecrypt_base_event row pkt) d1 = (ev1, d2)" by fastforce
  obtain ev where ev: "meshcore_decode_grp_txt hmac ecb pkt (Some cs) ev1 = (True, ev)" "ev_decrypted ev" "ev_channel_name ev = ch_name e"
      "mc_text (ev_mc ev) = map (\<lambda>c. char_of (unat c)) text" "mc_timestamp (ev_mc ev) = ts"
    using group_text_received [OF assms(1-5) pkt(1,3) assms(9)] by blast
  have "packet_bytes pkt \<noteq> []" by (simp add: packet_bytes_def)
  then have "fst (redecrypt_row hmac ecb cs row d1) = Update ev"
    using ev sc by (simp add: redecrypt_row_def row(2) row_hex_roundtrip [OF len] parse pkt(2))
  then show ?thesis using d1 ev by auto
qed

theorem redecrypt_finds_text_witness:
  "\<exists>outs d' s ev. scan_rows (redecrypt_row sample_hmac sample_ecb [sample_channel])
        [\<lparr> sr_id = 1, sr_radio = radio0, sr_raw_hex = hex_dump (take 256 (packet_bytes sample_group_packet)) 0 513 \<rparr>]
        \<lparr> rr_confirmed = [], rr_queue = \<lparr> rg_slots = [], rg_head = 0, rg_tail = 0 \<rparr> \<rparr> = (outs, d', s)
      \<and> snd (hd outs) = Update ev \<and> mc_text (ev_mc ev) = ''Hi'' \<and> ev_channel_name ev = ''#test''"
proof -
  let ?row = "\<lparr> sr_id = 1, sr_radio = radio0, sr_raw_hex = hex_dump (take 256 (packet_bytes sample_group_packet)) 0 513 \<rparr>"
  let ?d = "\<lparr> rr_confirmed = [], rr_queue = \<lparr> rg_slots = [], rg_head = 0, rg_tail = 0 \<rparr> \<rparr>"
  obtain outs d' s where scan: "scan_rows (redecrypt_row sample_hmac sample_ecb [sample_channel]) [?row] ?d = (outs, d', s)" by (metis prod_cases3)
  have "\<exists>ev. (?row, Update ev) \<in> set outs \<and> ev_decrypted ev \<and> ev_channel_name ev = ch_name sample_channel
      \<and> mc_text (ev_mc ev) = map (\<lambda>c. char_of (unat c)) [72, 105 :: byte] \<and> mc_timestamp (ev_mc ev) = 77"
    by (rule redecrypt_finds_text [OF sample_crypto sample_channel_inv _ _ _ sample_packet_ok, where h = 9 and ty = 0, OF _ _ _ _ _ _ _ _ scan])
       (simp_all add: sample_group_packet_def)
  then obtain ev where ev: "(?row, Update ev) \<in> set outs" "ev_channel_name ev = ''#test''" "mc_text (ev_mc ev) = ''Hi''"
    unfolding sample_text by (auto simp: sample_channel_def)
  have "length outs = 1" using scan by (auto split: prod.splits)
  then have "outs = [(?row, Update ev)]" using ev(1) by (cases outs) auto
  then show ?thesis using scan ev by auto
qed

end
