(* ===== verification/Json.thy ===== *)
theory Json
  imports Floats
begin

text \<open>
  JSON as a specification, independent of the program: values, a reader of compact texts
  and a printer, with the theorem that the reader inverts the printer.  Strings are byte
  strings; white space and number exponents, which the program never writes, are not read.
\<close>

datatype json = JStr string | JNum string | JBool bool | JArr "json list" | JObj "(string \<times> json) list"

subsection \<open>Strings\<close>

definition QUOTE :: char where "QUOTE = CHR 0x22"
definition BACKSLASH :: char where "BACKSLASH = CHR 0x5C"

definition hex_val :: "char \<Rightarrow> nat option" where
  "hex_val c =
     (let n = of_char c :: nat
      in if 48 \<le> n \<and> n \<le> 57 then Some (n - 48)
         else if 97 \<le> n \<and> n \<le> 102 then Some (n - 87)
         else if 65 \<le> n \<and> n \<le> 70 then Some (n - 55) else None)"

definition hex4 :: "string \<Rightarrow> char option" where
  "hex4 s =
     (case map hex_val (take 4 s) of
        [Some a, Some b, Some c, Some d] \<Rightarrow>
          (let n = ((a * 16 + b) * 16 + c) * 16 + d in if n < 128 then Some (char_of n) else None)
      | _ \<Rightarrow> None)"

definition unescape :: "char \<Rightarrow> char option" where
  "unescape e =
     (if e = QUOTE \<or> e = BACKSLASH \<or> e = CHR ''/'' then Some e
      else if e = CHR ''n'' then Some (char_of (10 :: nat))
      else if e = CHR ''r'' then Some (char_of (13 :: nat))
      else if e = CHR ''t'' then Some (char_of (9 :: nat))
      else if e = CHR ''b'' then Some (char_of (8 :: nat))
      else if e = CHR ''f'' then Some (char_of (12 :: nat))
      else None)"

definition cons_fst :: "'a \<Rightarrow> ('a list \<times> 'b) option \<Rightarrow> ('a list \<times> 'b) option" where
  "cons_fst x r = map_option (\<lambda>(xs, b). (x # xs, b)) r"

text \<open>The characters up to the closing quote, and what follows it.\<close>

function read_chars :: "string \<Rightarrow> (string \<times> string) option" where
  "read_chars s =
     (case s of
        [] \<Rightarrow> None
      | c # r \<Rightarrow>
          if c = QUOTE then Some ([], r)
          else if c = BACKSLASH then
            (case r of
               [] \<Rightarrow> None
             | e # r' \<Rightarrow>
                 if e = CHR ''u'' then
                   (case hex4 r' of None \<Rightarrow> None | Some x \<Rightarrow> cons_fst x (read_chars (drop 4 r')))
                 else (case unescape e of None \<Rightarrow> None | Some x \<Rightarrow> cons_fst x (read_chars r')))
          else if of_char c < (32 :: nat) then None
          else cons_fst c (read_chars r))"
  by pat_completeness auto
termination
  by (relation "measure length") auto

declare read_chars.simps [simp del]

subsection \<open>Values\<close>

definition digit_char :: "char \<Rightarrow> bool" where
  "digit_char c \<longleftrightarrow> 48 \<le> (of_char c :: nat) \<and> of_char c \<le> (57 :: nat)"

definition num_char :: "char \<Rightarrow> bool" where
  "num_char c \<longleftrightarrow> digit_char c \<or> c = CHR ''-'' \<or> c = CHR ''.''"

text \<open>A number token: an optional minus, digits without a superfluous zero, an optional fraction.\<close>

definition json_num :: "string \<Rightarrow> bool" where
  "json_num s =
     (let t = (case s of c # r \<Rightarrow> if c = CHR ''-'' then r else s | [] \<Rightarrow> []);
          i = takeWhile digit_char t; r = dropWhile digit_char t
      in i \<noteq> [] \<and> (hd i = CHR ''0'' \<longrightarrow> length i = 1)
         \<and> (r = [] \<or> hd r = CHR ''.'' \<and> tl r \<noteq> [] \<and> list_all digit_char (tl r)))"

fun json_value :: "nat \<Rightarrow> string \<Rightarrow> (json \<times> string) option"
  and json_members :: "nat \<Rightarrow> string \<Rightarrow> ((string \<times> json) list \<times> string) option"
  and json_elems :: "nat \<Rightarrow> string \<Rightarrow> (json list \<times> string) option" where
  "json_value 0 s = None"
| "json_value (Suc f) s =
     (case s of
        [] \<Rightarrow> None
      | c # r \<Rightarrow>
          if c = QUOTE then map_option (\<lambda>(x, r). (JStr x, r)) (read_chars r)
          else if c = CHR ''{'' then
            (if take 1 r = ''}'' then Some (JObj [], tl r) else map_option (\<lambda>(ms, r). (JObj ms, r)) (json_members f r))
          else if c = CHR ''['' then
            (if take 1 r = '']'' then Some (JArr [], tl r) else map_option (\<lambda>(vs, r). (JArr vs, r)) (json_elems f r))
          else if take 4 s = ''true'' then Some (JBool True, drop 4 s)
          else if take 5 s = ''false'' then Some (JBool False, drop 5 s)
          else (let t = takeWhile num_char s in if json_num t then Some (JNum t, drop (length t) s) else None))"
| "json_members 0 s = None"
| "json_members (Suc f) s =
     (case s of
        [] \<Rightarrow> None
      | c # r \<Rightarrow>
          if c \<noteq> QUOTE then None
          else (case read_chars r of
                  None \<Rightarrow> None
                | Some (n, r) \<Rightarrow>
                    if take 1 r \<noteq> '':'' then None
                    else (case json_value f (tl r) of
                            None \<Rightarrow> None
                          | Some (v, r) \<Rightarrow>
                              if take 1 r = '','' then cons_fst (n, v) (json_members f (tl r))
                              else if take 1 r = ''}'' then Some ([(n, v)], tl r) else None)))"
| "json_elems 0 s = None"
| "json_elems (Suc f) s =
     (case json_value f s of
        None \<Rightarrow> None
      | Some (v, r) \<Rightarrow>
          if take 1 r = '','' then cons_fst v (json_elems f (tl r))
          else if take 1 r = '']'' then Some ([v], tl r) else None)"

text \<open>The value at the front of a text and the rest of the text.\<close>

definition json_read :: "string \<Rightarrow> (json \<times> string) option" where
  "json_read s = json_value (length s) s"

subsection \<open>The printer\<close>

definition hex_lower :: "nat \<Rightarrow> char" where
  "hex_lower n = (if n < 10 then char_of (48 + n) else char_of (87 + n))"

text \<open>Control characters are escaped by name or by number.\<close>

definition esc_char :: "char \<Rightarrow> string" where
  "esc_char c =
     (let n = of_char c :: nat
      in if c = QUOTE \<or> c = BACKSLASH then [BACKSLASH, c]
         else if n = 10 then [BACKSLASH, CHR ''n'']
         else if n = 13 then [BACKSLASH, CHR ''r'']
         else if n = 9 then [BACKSLASH, CHR ''t'']
         else if n < 32 then [BACKSLASH, CHR ''u'', CHR ''0'', CHR ''0'', hex_lower (n div 16), hex_lower (n mod 16)]
         else [c])"

definition quoted :: "string \<Rightarrow> string" where
  "quoted s = QUOTE # concat (map esc_char s) @ [QUOTE]"

fun join_commas :: "string list \<Rightarrow> string" where
  "join_commas [] = []"
| "join_commas [x] = x"
| "join_commas (x # y # xs) = x @ CHR '','' # join_commas (y # xs)"

fun json_print :: "json \<Rightarrow> string" where
  "json_print (JStr s) = quoted s"
| "json_print (JNum s) = s"
| "json_print (JBool b) = (if b then ''true'' else ''false'')"
| "json_print (JArr vs) = CHR ''['' # join_commas (map json_print vs) @ '']''"
| "json_print (JObj ms) = CHR ''{'' # join_commas (map (\<lambda>m. quoted (fst m) @ CHR '':'' # json_print (snd m)) ms) @ ''}''"

abbreviation member_text :: "string \<times> json \<Rightarrow> string" where
  "member_text m \<equiv> quoted (fst m) @ CHR '':'' # json_print (snd m)"

fun json_ok :: "json \<Rightarrow> bool" where
  "json_ok (JNum s) = json_num s"
| "json_ok (JArr vs) = (\<forall>v \<in> set vs. json_ok v)"
| "json_ok (JObj ms) = (\<forall>m \<in> set ms. json_ok (snd m))"
| "json_ok _ = True"

subsection \<open>The reader inverts the printer\<close>

lemma hex_val_lower: "n < 16 \<Longrightarrow> hex_val (hex_lower n) = Some n"
  by (simp add: hex_val_def hex_lower_def)

lemma hex4_escape:
  assumes "n < 32"
  shows "hex4 (CHR ''0'' # CHR ''0'' # hex_lower (n div 16) # hex_lower (n mod 16) # s) = Some (char_of n)"
proof -
  have "hex_val CHR ''0'' = Some 0" by (simp add: hex_val_def)
  moreover have "hex_val (hex_lower (n div 16)) = Some (n div 16)" "hex_val (hex_lower (n mod 16)) = Some (n mod 16)"
    using assms by (intro hex_val_lower; simp)+
  moreover have "n div 16 * 16 + n mod 16 = n" by simp
  ultimately show ?thesis using assms by (simp add: hex4_def Let_def)
qed

lemma read_chars_esc [simp]: "read_chars (esc_char c @ s) = cons_fst c (read_chars s)"
proof -
  let ?n = "of_char c :: nat"
  have inv_ch: "?n = k \<Longrightarrow> char_of k = c" for k by auto
  have ne: "BACKSLASH \<noteq> QUOTE" by (simp add: BACKSLASH_def QUOTE_def)
  have un: "unescape QUOTE = Some QUOTE" "unescape BACKSLASH = Some BACKSLASH"
      "unescape CHR ''n'' = Some (char_of (10 :: nat))" "unescape CHR ''r'' = Some (char_of (13 :: nat))"
      "unescape CHR ''t'' = Some (char_of (9 :: nat))"
    by (simp_all add: unescape_def QUOTE_def BACKSLASH_def)
  have nu: "QUOTE \<noteq> CHR ''u''" "BACKSLASH \<noteq> CHR ''u''" by (simp_all add: QUOTE_def BACKSLASH_def)
  consider "c = QUOTE \<or> c = BACKSLASH" | "c \<noteq> QUOTE" "c \<noteq> BACKSLASH" "?n = 10 \<or> ?n = 13 \<or> ?n = 9"
    | "c \<noteq> QUOTE" "c \<noteq> BACKSLASH" "?n \<noteq> 10" "?n \<noteq> 13" "?n \<noteq> 9" "?n < 32" | "c \<noteq> QUOTE" "c \<noteq> BACKSLASH" "\<not> ?n < 32"
    by blast
  then show ?thesis
  proof cases
    case 1
    then show ?thesis by (subst read_chars.simps) (auto simp: esc_char_def ne un nu)
  next
    case 2
    then show ?thesis by (subst read_chars.simps) (auto simp: esc_char_def ne un inv_ch)
  next
    case 3
    then show ?thesis using hex4_escape [of ?n s] by (subst read_chars.simps) (simp add: esc_char_def ne Let_def)
  next
    case 4
    then show ?thesis by (subst read_chars.simps) (auto simp: esc_char_def Let_def)
  qed
qed

lemma read_chars_quote [simp]: "read_chars (QUOTE # r) = Some ([], r)"
  by (subst read_chars.simps) simp

lemma read_quoted [simp]: "read_chars (concat (map esc_char s) @ QUOTE # r) = Some (s, r)"
  by (induction s) (simp_all add: cons_fst_def)

definition ends_number :: "string \<Rightarrow> bool" where
  "ends_number r \<longleftrightarrow> r = [] \<or> \<not> num_char (hd r)"

lemma takeWhile_number:
  assumes "list_all num_char s" "ends_number r"
  shows "takeWhile num_char (s @ r) = s"
  using assms by (cases r) (auto simp: ends_number_def takeWhile_append2 list_all_iff takeWhile_append)

lemma json_num_chars:
  assumes "json_num s" shows "list_all num_char s" "s \<noteq> []"
proof -
  define t where "t = (case s of c # r \<Rightarrow> if c = CHR ''-'' then r else s | [] \<Rightarrow> [])"
  have s: "s = t \<or> s = CHR ''-'' # t" by (auto simp: t_def split: list.splits)
  have r: "dropWhile digit_char t = [] \<or> hd (dropWhile digit_char t) = CHR ''.'' \<and> list_all digit_char (tl (dropWhile digit_char t))"
    and i: "takeWhile digit_char t \<noteq> []"
    using assms by (auto simp: json_num_def Let_def t_def)
  have "list_all num_char (takeWhile digit_char t)"
    by (auto simp: list_all_iff num_char_def dest: set_takeWhileD)
  moreover have "list_all num_char (dropWhile digit_char t)"
    using r by (cases "dropWhile digit_char t") (auto simp: list_all_iff num_char_def simp del: dropWhile_eq_Nil_conv)
  ultimately have "list_all num_char t"
    using list_all_append [of num_char "takeWhile digit_char t" "dropWhile digit_char t"] by simp
  then show "list_all num_char s" using s by (auto simp: num_char_def)
  show "s \<noteq> []" using i s by auto
qed

lemma num_char_distinct:
  assumes "num_char c"
  shows "c \<noteq> QUOTE" "c \<noteq> CHR ''{''" "c \<noteq> CHR ''[''" "c \<noteq> CHR ''t''" "c \<noteq> CHR ''f''"
  using assms by (auto simp: num_char_def digit_char_def QUOTE_def)

lemma read_number:
  assumes "json_num s" "ends_number r"
  shows "json_value (Suc f) (s @ r) = Some (JNum s, r)"
proof -
  obtain c t where s: "s = c # t" using json_num_chars(2) [OF assms(1)] by (cases s) auto
  then have "num_char c" using json_num_chars(1) [OF assms(1)] by simp
  note n = num_char_distinct [OF this]
  have "takeWhile num_char (s @ r) = s" using json_num_chars(1) [OF assms(1)] assms(2) by (rule takeWhile_number)
  then show ?thesis using n assms(1) by (simp add: s)
qed

definition reads :: "json \<Rightarrow> bool" where
  "reads v \<longleftrightarrow> (\<forall>f r. length (json_print v) \<le> f \<and> ends_number r \<longrightarrow> json_value f (json_print v @ r) = Some (v, r))"

lemma ends_number_punct [simp]:
  "ends_number (CHR '','' # r)" "ends_number (CHR ''}'' # r)" "ends_number (CHR '']'' # r)"
  "ends_number [CHR ''\<newline>'']" "ends_number []"
  by (simp_all add: ends_number_def num_char_def digit_char_def)

lemma read_member:
  assumes "reads v" "length (member_text (n, v)) \<le> f" "ends_number r"
  shows "json_members (Suc f) (member_text (n, v) @ r) =
    (if take 1 r = '','' then cons_fst (n, v) (json_members f (tl r))
     else if take 1 r = ''}'' then Some ([(n, v)], tl r) else None)"
proof -
  have "json_value f (json_print v @ r) = Some (v, r)"
    using assms by (simp add: reads_def)
  then show ?thesis by (simp add: quoted_def)
qed

lemma read_members:
  assumes "\<forall>m \<in> set ms. reads (snd m)" "ms \<noteq> []" "length (join_commas (map member_text ms)) < f"
  shows "json_members f (join_commas (map member_text ms) @ CHR ''}'' # r) = Some (ms, r)"
  using assms
proof (induction ms arbitrary: f)
  case (Cons m ms)
  obtain g where f: "f = Suc g" using Cons.prems(3) by (cases f) auto
  obtain n v where m: "m = (n, v)" by (cases m)
  show ?case
  proof (cases ms)
    case Nil
    then show ?thesis using Cons.prems read_member [of v n g "CHR ''}'' # r"] by (simp add: f m)
  next
    case (Cons m' ms')
    have "json_members g (join_commas (map member_text ms) @ CHR ''}'' # r) = Some (ms, r)"
      using Cons.prems Cons f by (intro Cons.IH) auto
    then show ?thesis
      using Cons.prems read_member [of v n g "CHR '','' # join_commas (map member_text ms) @ CHR ''}'' # r"] Cons
      by (simp add: f m cons_fst_def)
  qed
qed simp

lemma read_elems:
  assumes "\<forall>v \<in> set vs. reads v" "vs \<noteq> []" "length (join_commas (map json_print vs)) < f"
    and "\<forall>v \<in> set vs. json_print v \<noteq> []"
  shows "json_elems f (join_commas (map json_print vs) @ CHR '']'' # r) = Some (vs, r)"
  using assms
proof (induction vs arbitrary: f)
  case (Cons v vs)
  obtain g where f: "f = Suc g" using Cons.prems(3) by (cases f) auto
  have v: "json_value g (json_print v @ r) = Some (v, r)" if "ends_number r" "length (json_print v) \<le> g" for r
    using Cons.prems(1) that by (simp add: reads_def)
  show ?case
  proof (cases vs)
    case Nil
    then show ?thesis using Cons.prems v [of "CHR '']'' # r"] by (simp add: f)
  next
    case (Cons v' vs')
    have "json_elems g (join_commas (map json_print vs) @ CHR '']'' # r) = Some (vs, r)"
      using Cons.prems Cons f by (intro Cons.IH) auto
    then show ?thesis
      using Cons.prems v [of "CHR '','' # join_commas (map json_print vs) @ CHR '']'' # r"] Cons
      by (simp add: f cons_fst_def)
  qed
qed simp

lemma json_print_ne: "json_ok v \<Longrightarrow> json_print v \<noteq> []"
  by (cases v) (auto simp: quoted_def json_num_chars(2))

lemma join_commas_hd:
  assumes "x \<noteq> []"
  obtains t where "join_commas (x # xs) = hd x # t"
  using assms by (cases xs; cases x) auto

lemma json_hd: "json_ok v \<Longrightarrow> hd (json_print v) \<noteq> CHR '']''"
proof (cases v)
  case (JNum s)
  assume "json_ok v"
  then have "json_num s" using JNum by simp
  then have "num_char (hd s)" using json_num_chars [of s] by (cases s) auto
  then show ?thesis using JNum by (auto simp: num_char_def digit_char_def)
qed (auto simp: quoted_def QUOTE_def)

lemma reads_print: "json_ok v \<Longrightarrow> reads v"
proof (induction v)
  case (JStr s)
  have "json_value f (quoted s @ r) = Some (JStr s, r)" if "length (quoted s) \<le> f" for f r
    using that by (cases f) (simp_all add: quoted_def)
  then show ?case by (simp add: reads_def)
next
  case (JNum s)
  have "json_value f (s @ r) = Some (JNum s, r)" if "length s \<le> f" "ends_number r" for f r
    using JNum that json_num_chars(2) [of s] read_number [of s r] by (cases f) auto
  then show ?case by (simp add: reads_def)
next
  case (JBool b)
  then show ?case by (auto simp: reads_def QUOTE_def dest!: Suc_le_D)
next
  case (JArr vs)
  show ?case unfolding reads_def
  proof (intro allI impI)
    fix f r assume a: "length (json_print (JArr vs)) \<le> f \<and> ends_number r"
    then obtain g where f: "f = Suc g" "length (join_commas (map json_print vs)) < g" by (cases f) auto
    show "json_value f (json_print (JArr vs) @ r) = Some (JArr vs, r)"
    proof (cases vs)
      case Nil
      then show ?thesis by (simp add: f QUOTE_def)
    next
      case (Cons v vs')
      have e: "json_elems g (join_commas (map json_print vs) @ CHR '']'' # r) = Some (vs, r)"
        using JArr f Cons json_print_ne by (intro read_elems) auto
      have "json_ok v" using JArr Cons by simp
      moreover obtain t where "join_commas (map json_print vs) = hd (json_print v) # t"
        using join_commas_hd [of "json_print v" "map json_print vs'"] json_print_ne [OF \<open>json_ok v\<close>] Cons by auto
      ultimately have "take 1 (join_commas (map json_print vs) @ CHR '']'' # r) \<noteq> '']''" using json_hd by simp
      then show ?thesis using e by (simp add: f QUOTE_def del: One_nat_def)
    qed
  qed
next
  case (JObj ms)
  show ?case unfolding reads_def
  proof (intro allI impI)
    fix f r assume a: "length (json_print (JObj ms)) \<le> f \<and> ends_number r"
    then obtain g where f: "f = Suc g" "length (join_commas (map member_text ms)) < g" by (cases f) auto
    show "json_value f (json_print (JObj ms) @ r) = Some (JObj ms, r)"
    proof (cases ms)
      case Nil
      then show ?thesis by (simp add: f QUOTE_def)
    next
      case (Cons m ms')
      have "\<forall>m \<in> set ms. reads (snd m)" using JObj by (metis json_ok.simps(3) snds.intros)
      then have e: "json_members g (join_commas (map member_text ms) @ CHR ''}'' # r) = Some (ms, r)"
        using f Cons by (intro read_members) auto
      obtain t where "join_commas (map member_text ms) = QUOTE # t"
        using join_commas_hd [of "member_text m" "map member_text ms'"] Cons by (auto simp: quoted_def)
      then have "take 1 (join_commas (map member_text ms) @ CHR ''}'' # r) \<noteq> ''}''" by (simp add: QUOTE_def)
      then show ?thesis using e by (simp add: f QUOTE_def del: One_nat_def)
    qed
  qed
qed

lemma json_read_print:
  assumes "json_ok v" "ends_number r"
  shows "json_read (json_print v @ r) = Some (v, r)"
  using reads_print [OF assms(1)] assms(2) by (simp add: reads_def json_read_def)

subsection \<open>Texts that are not JSON\<close>

text \<open>No value can be read from the front of the text, whatever the fuel.\<close>

definition unreadable :: "string \<Rightarrow> bool" where
  "unreadable s \<longleftrightarrow> (\<forall>f. json_value f s = None)"

lemma unreadable_token:
  "unreadable (CHR ''n'' # r)" "unreadable (CHR ''i'' # r)"
  "unreadable (CHR ''-'' # CHR ''n'' # r)" "unreadable (CHR ''-'' # CHR ''i'' # r)"
proof -
  have z: "json_num [] = False" "json_num ''-'' = False" by (simp_all add: json_num_def)
  have n: "\<not> num_char CHR ''n''" "\<not> num_char CHR ''i''" "num_char CHR ''-''"
    by (simp_all add: num_char_def digit_char_def)
  have v: "json_value f (c # q) = None"
    if "c \<in> {CHR ''n'', CHR ''i'', CHR ''-''}" "json_num (takeWhile num_char (c # q)) = False" for f c q
    using that by (cases f) (auto simp: QUOTE_def Let_def simp del: takeWhile.simps)
  show "unreadable (CHR ''n'' # r)" "unreadable (CHR ''i'' # r)"
    "unreadable (CHR ''-'' # CHR ''n'' # r)" "unreadable (CHR ''-'' # CHR ''i'' # r)"
    unfolding unreadable_def by (auto intro!: v simp: z n)
qed

definition fuel_le :: "nat \<Rightarrow> nat \<Rightarrow> bool" where
  "fuel_le f g \<longleftrightarrow> (\<forall>s x. json_value f s = Some x \<longrightarrow> json_value g s = Some x)
     \<and> (\<forall>s x. json_members f s = Some x \<longrightarrow> json_members g s = Some x)
     \<and> (\<forall>s x. json_elems f s = Some x \<longrightarrow> json_elems g s = Some x)"

lemma fuel_le_Suc:
  assumes "fuel_le f g" shows "fuel_le (Suc f) (Suc g)"
proof -
  have v: "json_value f s = Some x \<Longrightarrow> json_value g s = Some x"
    and m: "json_members f s = Some y \<Longrightarrow> json_members g s = Some y"
    and e: "json_elems f s = Some z \<Longrightarrow> json_elems g s = Some z" for s x y z
    using assms unfolding fuel_le_def by blast+
  have "json_value (Suc g) s = Some x" if "json_value (Suc f) s = Some x" for s x
    using that by (cases s) (auto split: if_splits dest: m e)
  moreover have "json_members (Suc g) s = Some x" if "json_members (Suc f) s = Some x" for s x
    using that by (cases s) (auto simp: cons_fst_def split: if_split_asm option.split_asm dest!: v m)
  moreover have "json_elems (Suc g) s = Some x" if "json_elems (Suc f) s = Some x" for s x
    using that by (auto simp: cons_fst_def split: if_split_asm option.split_asm dest!: v e)
  ultimately show ?thesis by (simp only: fuel_le_def) blast
qed

lemma fuel_mono: "f \<le> g \<Longrightarrow> fuel_le f g"
proof (induction f arbitrary: g)
  case (Suc f)
  then obtain h where "g = Suc h" "f \<le> h" by (cases g) auto
  then show ?case using Suc.IH fuel_le_Suc by blast
qed (simp add: fuel_le_def)

lemma reads_any_fuel:
  assumes "json_ok v" "ends_number r" "json_value f (json_print v @ r) = Some x"
  shows "x = (v, r)"
proof -
  define g where "g = f + length (json_print v)"
  have "fuel_le f g" by (rule fuel_mono) (simp add: g_def)
  then have "json_value g (json_print v @ r) = Some x" using assms(3) unfolding fuel_le_def by blast
  moreover have "json_value g (json_print v @ r) = Some (v, r)"
    using reads_print [OF assms(1)] assms(2) by (simp add: reads_def g_def)
  ultimately show ?thesis by simp
qed

lemma unreadable_array:
  assumes "unreadable s" "take 1 s \<noteq> '']''"
  shows "unreadable (CHR ''['' # s)"
proof -
  have e: "json_elems g s = None" for g using assms(1) by (cases g) (simp_all add: unreadable_def)
  have "json_value f (CHR ''['' # s) = None" for f using assms(2) e by (cases f) (simp_all add: QUOTE_def)
  then show ?thesis by (simp add: unreadable_def)
qed

lemma unreadable_members:
  assumes "unreadable s" "\<forall>m \<in> set fs. json_ok (snd m)"
  shows "json_members g (join_commas (map member_text fs @ [quoted n @ CHR '':'' # s])) = None"
  using assms(2)
proof (induction fs arbitrary: g)
  case Nil
  show ?case using assms(1) by (cases g) (simp_all add: quoted_def unreadable_def)
next
  case (Cons m fs)
  obtain k v where m: "m = (k, v)" by (cases m)
  let ?r = "join_commas (map member_text fs @ [quoted n @ CHR '':'' # s])"
  have j: "join_commas (map member_text (m # fs) @ [quoted n @ CHR '':'' # s]) = member_text m @ CHR '','' # ?r"
    by (cases fs) simp_all
  have r: "json_members g ?r = None" for g using Cons by simp
  show ?case
  proof (cases g)
    case (Suc h)
    have "json_value h (json_print v @ CHR '','' # ?r) \<in> {None, Some (v, CHR '','' # ?r)}"
      using reads_any_fuel [of v "CHR '','' # ?r" h] Cons.prems m by (cases "json_value h (json_print v @ CHR '','' # ?r)") auto
    then show ?thesis unfolding j using r by (auto simp: Suc m quoted_def cons_fst_def split: option.splits)
  qed simp
qed

lemma unreadable_object:
  assumes "unreadable s" "\<forall>m \<in> set fs. json_ok (snd m)"
  shows "unreadable (CHR ''{'' # join_commas (map member_text fs @ [quoted n @ CHR '':'' # s]))"
proof -
  obtain t where t: "join_commas (map member_text fs @ [quoted n @ CHR '':'' # s]) = QUOTE # t"
  proof (cases fs)
    case Nil
    then show ?thesis using that by (simp add: quoted_def)
  next
    case (Cons m ms)
    then show ?thesis using that join_commas_hd [of "member_text m" "map member_text ms @ [quoted n @ CHR '':'' # s]"]
      by (auto simp: quoted_def)
  qed
  have "json_value f (CHR ''{'' # join_commas (map member_text fs @ [quoted n @ CHR '':'' # s])) = None" for f
    using unreadable_members [OF assms, of _ n] t by (cases f) (simp_all add: QUOTE_def)
  then show ?thesis by (simp add: unreadable_def)
qed

end
