(* ===== verification/Jw.thy ===== *)
theory Jw
  imports Json
begin

text \<open>
  The direct-to-buffer JSON writer of \<^verbatim>\<open>src/jw.c\<close>.  The buffer is the text written so far;
  what does not fit is dropped by each primitive exactly as in the code: single characters
  one at a time, \<^verbatim>\<open>printf\<close> output as a whole.  A serializer is the list of the calls it makes.
  Proved: the buffer is never overrun, and a well-nested sequence of calls that fits writes
  the JSON text of the value it describes, so that a JSON reader gets that value back.
\<close>

subsection \<open>The writer\<close>

record jw =
  jw_cap :: nat
  jw_buf :: string
  jw_first :: bool

definition jw_init :: "nat \<Rightarrow> jw" where
  "jw_init cap = \<lparr> jw_cap = cap, jw_buf = [], jw_first = True \<rparr>"

definition jw_putc :: "jw \<Rightarrow> char \<Rightarrow> jw" where
  "jw_putc j c = (if length (jw_buf j) + 1 < jw_cap j then j\<lparr> jw_buf := jw_buf j @ [c] \<rparr> else j)"

fun jw_puts :: "jw \<Rightarrow> string \<Rightarrow> jw" where
  "jw_puts j [] = j"
| "jw_puts j (c # s) =
     (if length (jw_buf j) + 1 < jw_cap j then jw_puts (j\<lparr> jw_buf := jw_buf j @ [c] \<rparr>) s else j)"

text \<open>The argument is the formatted text.\<close>

definition jw_printf :: "jw \<Rightarrow> string \<Rightarrow> jw" where
  "jw_printf j s =
     (if length s > 0 \<and> length s < jw_cap j - length (jw_buf j) then j\<lparr> jw_buf := jw_buf j @ s \<rparr> else j)"

text \<open>\<^verbatim>\<open>%0<p>x\<close> of a number of at most p digits.\<close>

definition hex_text :: "nat \<Rightarrow> nat \<Rightarrow> string" where
  "hex_text p n = map (\<lambda>i. hex_lower (n div 16 ^ (p - 1 - i) mod 16)) [0..<p]"

fun jw_escape :: "jw \<Rightarrow> string \<Rightarrow> jw" where
  "jw_escape j [] = j"
| "jw_escape j (ch # s) =
     (let c = of_char ch :: nat;
          j' = (if ch = QUOTE \<or> ch = BACKSLASH then jw_putc (jw_putc j BACKSLASH) ch
                else if c = 10 then jw_puts j [BACKSLASH, CHR ''n'']
                else if c = 13 then jw_puts j [BACKSLASH, CHR ''r'']
                else if c = 9 then jw_puts j [BACKSLASH, CHR ''t'']
                else if c < 0x20 then jw_printf j (BACKSLASH # CHR ''u'' # hex_text 4 c)
                else jw_putc j ch)
      in jw_escape j' s)"

definition jw_str_escaped :: "jw \<Rightarrow> string \<Rightarrow> jw" where
  "jw_str_escaped j s = jw_putc (jw_escape (jw_putc j QUOTE) s) QUOTE"

definition jw_field_name :: "jw \<Rightarrow> string \<Rightarrow> jw" where
  "jw_field_name j name =
     (let j = (if \<not> jw_first j then jw_putc j CHR '','' else j);
          j = jw_str_escaped (j\<lparr> jw_first := False \<rparr>) name
      in jw_putc j CHR '':'')"

definition jw_field_str :: "jw \<Rightarrow> string \<Rightarrow> string option \<Rightarrow> jw" where
  "jw_field_str j name v = (case v of None \<Rightarrow> j | Some s \<Rightarrow> jw_str_escaped (jw_field_name j name) s)"

definition jw_field_raw :: "jw \<Rightarrow> string \<Rightarrow> string \<Rightarrow> jw" where
  "jw_field_raw j name raw = (if raw = [] then j else jw_puts (jw_field_name j name) raw)"

definition fmt_d :: "int \<Rightarrow> string" where
  "fmt_d i = (if i < 0 then ''-'' else []) @ dec_digits (nat \<bar>i\<bar>)"

definition jw_field_u32 :: "jw \<Rightarrow> string \<Rightarrow> u32 \<Rightarrow> jw" where
  "jw_field_u32 j name v = jw_printf (jw_field_name j name) (dec_digits (unat v))"

definition jw_field_u64 :: "jw \<Rightarrow> string \<Rightarrow> u64 \<Rightarrow> jw" where
  "jw_field_u64 j name v = jw_printf (jw_field_name j name) (dec_digits (unat v))"

definition jw_field_i32 :: "jw \<Rightarrow> string \<Rightarrow> int \<Rightarrow> jw" where
  "jw_field_i32 j name v = jw_printf (jw_field_name j name) (fmt_d v)"

definition jw_field_f32 :: "jw \<Rightarrow> string \<Rightarrow> flt \<Rightarrow> jw" where
  "jw_field_f32 j name v = jw_printf (jw_field_name j name) (fmt_flt 4 v)"

definition jw_field_f64 :: "jw \<Rightarrow> string \<Rightarrow> flt \<Rightarrow> jw" where
  "jw_field_f64 j name v = jw_printf (jw_field_name j name) (fmt_flt 7 v)"

definition jw_field_bool :: "jw \<Rightarrow> string \<Rightarrow> bool \<Rightarrow> jw" where
  "jw_field_bool j name v = jw_puts (jw_field_name j name) (if v then ''true'' else ''false'')"

definition jw_open :: "jw \<Rightarrow> jw" where
  "jw_open j = (jw_putc j CHR ''{'')\<lparr> jw_first := True \<rparr>"

definition jw_close :: "jw \<Rightarrow> jw" where
  "jw_close j = (jw_putc j CHR ''}'')\<lparr> jw_first := False \<rparr>"

definition jw_open_array :: "jw \<Rightarrow> string \<Rightarrow> jw" where
  "jw_open_array j name = (jw_putc (jw_field_name j name) CHR ''['')\<lparr> jw_first := True \<rparr>"

definition jw_close_array :: "jw \<Rightarrow> jw" where
  "jw_close_array j = (jw_putc j CHR '']'')\<lparr> jw_first := False \<rparr>"

definition jw_array_sep :: "jw \<Rightarrow> jw" where
  "jw_array_sep j = (if \<not> jw_first j then jw_putc j CHR '','' else j)\<lparr> jw_first := False \<rparr>"

subsection \<open>Calls\<close>

text \<open>
  The statements of the serializers.  \<open>JwElemOpen\<close> is
  \<^verbatim>\<open>jw_array_sep(j); jw_putc(j, '{'); j->first_field = true\<close>, \<open>JwElemClose\<close> is \<^verbatim>\<open>jw_putc(j, '}')\<close>
  and \<open>JwElemStr\<close> is \<^verbatim>\<open>jw_array_sep(j); jw_str_escaped(j, s)\<close>.
\<close>

datatype jw_call =
    JwOpen | JwClose | JwPutc char
  | JwStr string "string option" | JwRaw string string | JwU32 string u32 | JwU64 string u64
  | JwI32 string int | JwF32 string flt | JwF64 string flt | JwBool string bool
  | JwOpenArray string | JwCloseArray | JwElemOpen | JwElemClose | JwElemStr string

fun jw_do :: "jw_call \<Rightarrow> jw \<Rightarrow> jw" where
  "jw_do JwOpen j = jw_open j"
| "jw_do JwClose j = jw_close j"
| "jw_do (JwPutc c) j = jw_putc j c"
| "jw_do (JwStr n v) j = jw_field_str j n v"
| "jw_do (JwRaw n v) j = jw_field_raw j n v"
| "jw_do (JwU32 n v) j = jw_field_u32 j n v"
| "jw_do (JwU64 n v) j = jw_field_u64 j n v"
| "jw_do (JwI32 n v) j = jw_field_i32 j n v"
| "jw_do (JwF32 n v) j = jw_field_f32 j n v"
| "jw_do (JwF64 n v) j = jw_field_f64 j n v"
| "jw_do (JwBool n v) j = jw_field_bool j n v"
| "jw_do (JwOpenArray n) j = jw_open_array j n"
| "jw_do JwCloseArray j = jw_close_array j"
| "jw_do JwElemOpen j = (jw_putc (jw_array_sep j) CHR ''{'')\<lparr> jw_first := True \<rparr>"
| "jw_do JwElemClose j = jw_putc j CHR ''}''"
| "jw_do (JwElemStr s) j = jw_str_escaped (jw_array_sep j) s"

definition jw_run :: "jw_call list \<Rightarrow> jw \<Rightarrow> jw" where
  "jw_run cs j = fold jw_do cs j"

subsection \<open>The buffer is never overrun\<close>

definition jw_inv :: "jw \<Rightarrow> bool" where
  "jw_inv j \<longleftrightarrow> length (jw_buf j) < jw_cap j"

lemma jw_inv_first [simp]: "jw_inv (j\<lparr> jw_first := b \<rparr>) = jw_inv j"
  by (simp add: jw_inv_def)

lemma jw_inv_init: "0 < cap \<Longrightarrow> jw_inv (jw_init cap)"
  by (simp add: jw_inv_def jw_init_def)

lemma jw_inv_putc [inv_intros]: "jw_inv j \<Longrightarrow> jw_inv (jw_putc j c)"
  by (simp add: jw_inv_def jw_putc_def)

lemma jw_inv_puts [inv_intros]: "jw_inv j \<Longrightarrow> jw_inv (jw_puts j s)"
  by (induction s arbitrary: j) (simp_all add: jw_inv_def)

lemma jw_inv_printf [inv_intros]: "jw_inv j \<Longrightarrow> jw_inv (jw_printf j s)"
  by (auto simp: jw_inv_def jw_printf_def)

lemma jw_inv_escape [inv_intros]: "jw_inv j \<Longrightarrow> jw_inv (jw_escape j s)"
  by (induction s arbitrary: j) (simp_all add: Let_def inv_intros del: jw_puts.simps)

lemma jw_inv_quoted [inv_intros]: "jw_inv j \<Longrightarrow> jw_inv (jw_str_escaped j s)"
  by (simp add: jw_str_escaped_def inv_intros)

lemma jw_inv_name [inv_intros]: "jw_inv j \<Longrightarrow> jw_inv (jw_field_name j n)"
  by (simp add: jw_field_name_def Let_def inv_intros)

lemmas jw_ops = jw_field_str_def jw_field_raw_def jw_field_u32_def jw_field_u64_def jw_field_i32_def
  jw_field_f32_def jw_field_f64_def jw_field_bool_def jw_open_def jw_close_def jw_open_array_def
  jw_close_array_def jw_array_sep_def

lemma jw_inv_do: "jw_inv j \<Longrightarrow> jw_inv (jw_do c j)"
  by (cases c) (auto simp: jw_ops inv_intros split: option.split)

lemma jw_cap_puts [simp]: "jw_cap (jw_puts j s) = jw_cap j"
  by (induction s arbitrary: j) simp_all

lemma jw_cap_basic [simp]: "jw_cap (jw_putc j c) = jw_cap j" "jw_cap (jw_printf j s) = jw_cap j"
  by (simp_all add: jw_putc_def jw_printf_def)

lemma jw_cap_escape [simp]: "jw_cap (jw_escape j s) = jw_cap j"
  by (induction s arbitrary: j) (simp_all add: Let_def del: jw_puts.simps)

lemma jw_cap_run: "jw_cap (jw_run cs j) = jw_cap j"
proof -
  have "jw_cap (jw_do c j) = jw_cap j" for c j
    by (cases c) (auto simp: jw_ops jw_field_name_def jw_str_escaped_def Let_def split: option.split)
  then show ?thesis unfolding jw_run_def by (induction cs arbitrary: j) simp_all
qed

lemma jw_inv_run: "jw_inv j \<Longrightarrow> jw_inv (jw_run cs j)"
  unfolding jw_run_def by (induction cs arbitrary: j) (simp_all add: jw_inv_do)

subsection \<open>Calls that fit\<close>

definition sep :: "bool \<Rightarrow> string" where
  "sep first = (if first then [] else '','')"

definition name_text :: "bool \<Rightarrow> string \<Rightarrow> string" where
  "name_text first n = sep first @ quoted n @ '':''"

text \<open>What a call puts_members in an unbounded buffer, and the flag it leaves.\<close>

fun call_text :: "jw_call \<Rightarrow> bool \<Rightarrow> string \<times> bool" where
  "call_text JwOpen b = (''{'', True)"
| "call_text JwClose b = (''}'', False)"
| "call_text (JwPutc c) b = ([c], b)"
| "call_text (JwStr n v) b = (case v of None \<Rightarrow> ([], b) | Some s \<Rightarrow> (name_text b n @ quoted s, False))"
| "call_text (JwRaw n s) b = (if s = [] then ([], b) else (name_text b n @ s, False))"
| "call_text (JwU32 n v) b = (name_text b n @ dec_digits (unat v), False)"
| "call_text (JwU64 n v) b = (name_text b n @ dec_digits (unat v), False)"
| "call_text (JwI32 n v) b = (name_text b n @ fmt_d v, False)"
| "call_text (JwF32 n v) b = (name_text b n @ fmt_flt 4 v, False)"
| "call_text (JwF64 n v) b = (name_text b n @ fmt_flt 7 v, False)"
| "call_text (JwBool n v) b = (name_text b n @ (if v then ''true'' else ''false''), False)"
| "call_text (JwOpenArray n) b = (name_text b n @ ''['', True)"
| "call_text JwCloseArray b = ('']'', False)"
| "call_text JwElemOpen b = (sep b @ ''{'', True)"
| "call_text JwElemClose b = (''}'', b)"
| "call_text (JwElemStr s) b = (sep b @ quoted s, False)"

fun calls_text :: "jw_call list \<Rightarrow> bool \<Rightarrow> string" where
  "calls_text [] b = []"
| "calls_text (c # cs) b = (case call_text c b of (t, b') \<Rightarrow> t @ calls_text cs b')"

definition fits :: "jw \<Rightarrow> string \<Rightarrow> bool" where
  "fits j t \<longleftrightarrow> length (jw_buf j) + length t < jw_cap j"

definition jw_app :: "jw \<Rightarrow> string \<Rightarrow> jw" where
  "jw_app j t = j\<lparr> jw_buf := jw_buf j @ t \<rparr>"

lemma jw_app_simps [simp]:
  "jw_app (jw_app j s) t = jw_app j (s @ t)" "jw_first (jw_app j t) = jw_first j"
  "jw_app (j\<lparr> jw_first := b \<rparr>) t = (jw_app j t)\<lparr> jw_first := b \<rparr>"
  "fits (jw_app j s) t = fits j (s @ t)" "fits (j\<lparr> jw_first := b \<rparr>) t = fits j t" "jw_app j [] = j"
  "jw_buf (jw_app j t) = jw_buf j @ t" "jw_cap (jw_app j t) = jw_cap j"
  by (simp_all add: jw_app_def fits_def add.assoc)

lemma fits_prefix: "fits j (s @ t) \<Longrightarrow> fits j s"
  by (simp add: fits_def)

lemma putc_fits: "fits j [c] \<Longrightarrow> jw_putc j c = jw_app j [c]"
  by (simp add: jw_putc_def jw_app_def fits_def)

lemma puts_fits: "fits j s \<Longrightarrow> jw_puts j s = jw_app j s"
  by (induction s arbitrary: j) (simp_all add: fits_def jw_app_def)

lemma printf_fits: "fits j s \<Longrightarrow> s \<noteq> [] \<Longrightarrow> jw_printf j s = jw_app j s"
  by (auto simp: jw_printf_def jw_app_def fits_def)

lemma hex_text_4: "n < 32 \<Longrightarrow> hex_text 4 n = [CHR ''0'', CHR ''0'', hex_lower (n div 16), hex_lower (n mod 16)]"
proof -
  assume "n < 32"
  then have "n div 16 < 10" by auto
  then show ?thesis by (simp add: hex_text_def hex_lower_def upt_rec numeral_3_eq_3 char_of_eq_iff)
qed

lemma escape_char_fits:
  assumes "fits j (esc_char c)"
  shows "jw_escape j (c # s) = jw_escape (jw_app j (esc_char c)) s"
proof -
  let ?n = "of_char c :: nat"
  have b: "fits j [BACKSLASH]" if "fits j [BACKSLASH, x]" for x using that by (simp add: fits_def)
  consider "c = QUOTE \<or> c = BACKSLASH" | "c \<noteq> QUOTE" "c \<noteq> BACKSLASH" "?n = 10 \<or> ?n = 13 \<or> ?n = 9"
    | "c \<noteq> QUOTE" "c \<noteq> BACKSLASH" "?n \<noteq> 10" "?n \<noteq> 13" "?n \<noteq> 9" "?n < 32" | "c \<noteq> QUOTE" "c \<noteq> BACKSLASH" "\<not> ?n < 32"
    by blast
  then show ?thesis
  proof cases
    case 1
    then have f: "fits j [BACKSLASH, c]" "esc_char c = [BACKSLASH, c]" using assms by (simp_all add: esc_char_def)
    then show ?thesis using 1 b [OF f(1)] by (auto simp: Let_def putc_fits)
  next
    case 2
    then show ?thesis using assms by (auto simp: Let_def esc_char_def puts_fits simp del: jw_puts.simps)
  next
    case 3
    then show ?thesis using assms by (simp add: Let_def esc_char_def hex_text_4 printf_fits)
  next
    case 4
    then show ?thesis using assms by (auto simp: Let_def esc_char_def putc_fits)
  qed
qed

lemma escape_fits: "fits j (concat (map esc_char s)) \<Longrightarrow> jw_escape j s = jw_app j (concat (map esc_char s))"
proof (induction s arbitrary: j)
  case (Cons c s)
  then have "fits j (esc_char c)" by (auto dest: fits_prefix)
  then show ?case using Cons by (simp only: escape_char_fits) simp
qed simp

lemma quoted_fits:
  assumes "fits j (quoted s)" shows "jw_str_escaped j s = jw_app j (quoted s)"
proof -
  have "fits j ([QUOTE] @ concat (map esc_char s))" "fits j [QUOTE]"
    using assms by (simp_all add: fits_def quoted_def)
  then show ?thesis using assms by (simp add: jw_str_escaped_def putc_fits escape_fits quoted_def)
qed

lemma name_fits:
  assumes "fits j (name_text (jw_first j) n)"
  shows "jw_field_name j n = (jw_app j (name_text (jw_first j) n))\<lparr> jw_first := False \<rparr>"
proof -
  have "fits j (sep (jw_first j))" "fits j (sep (jw_first j) @ quoted n)"
    using assms by (simp_all add: fits_def name_text_def)
  then show ?thesis
    using assms by (auto simp: jw_field_name_def Let_def name_text_def putc_fits quoted_fits sep_def)
qed

lemma dec_digits_ne [simp]: "dec_digits n \<noteq> []"
  by (subst dec_digits.simps) simp

lemma fmt_ne [simp]: "fmt_d i \<noteq> []" "fmt_flt p x \<noteq> []"
  by (auto simp: fmt_d_def fmt_flt_def fmt_f_def Let_def split: flt.split)

lemma do_fits:
  assumes "call_text c (jw_first j) = (t, b)" "fits j t"
  shows "jw_do c j = (jw_app j t)\<lparr> jw_first := b \<rparr>"
proof -
  have same: "j\<lparr> jw_first := jw_first j \<rparr> = j" by simp
  have name: "jw_field_name j n = (jw_app j (name_text (jw_first j) n))\<lparr> jw_first := False \<rparr>"
    if "fits j (name_text (jw_first j) n @ s)" for n s
    using that by (intro name_fits) (rule fits_prefix)
  have sep1: "jw_array_sep j = (jw_app j (sep (jw_first j)))\<lparr> jw_first := False \<rparr>"
    if "fits j (sep (jw_first j) @ s)" for s
    using fits_prefix [OF that] by (simp add: jw_array_sep_def putc_fits sep_def split: if_splits)
  show ?thesis
  proof (cases c)
    case JwElemOpen
    then show ?thesis using assms sep1 by (auto simp: putc_fits)
  next
    case (JwElemStr s)
    then show ?thesis using assms sep1 by (auto simp: quoted_fits)
  qed (use assms name in \<open>auto simp: jw_field_str_def jw_field_raw_def jw_field_u32_def jw_field_u64_def
      jw_field_i32_def jw_field_f32_def jw_field_f64_def jw_field_bool_def jw_open_def jw_close_def
      jw_open_array_def jw_close_array_def putc_fits quoted_fits puts_fits printf_fits same
      simp del: jw_puts.simps split: option.splits if_splits\<close>)
qed

lemma run_fits:
  assumes "fits j (calls_text cs (jw_first j))"
  shows "jw_buf (jw_run cs j) = jw_buf j @ calls_text cs (jw_first j)"
  using assms
proof (induction cs arbitrary: j)
  case (Cons c cs)
  obtain t b where t: "call_text c (jw_first j) = (t, b)" by (cases "call_text c (jw_first j)")
  then have "fits j t" using Cons.prems by (auto dest: fits_prefix)
  then have d: "jw_do c j = (jw_app j t)\<lparr> jw_first := b \<rparr>" using t by (rule do_fits [rotated])
  have "jw_run (c # cs) j = jw_run cs (jw_do c j)" by (simp add: jw_run_def)
  also have "jw_buf \<dots> = jw_buf (jw_do c j) @ calls_text cs (jw_first (jw_do c j))"
    by (rule Cons.IH) (use Cons.prems t d in simp)
  finally show ?case using t by (simp add: d)
qed (simp add: jw_run_def)

subsection \<open>The value under construction\<close>

text \<open>The open containers, innermost first: the members of an object, the elements of a named array.\<close>

datatype frame = FObj "(string \<times> json) list" | FArr string "json list"

fun add_member :: "string \<times> json \<Rightarrow> frame list \<Rightarrow> frame list option" where
  "add_member m (FObj fs # st) = Some (FObj (fs @ [m]) # st)"
| "add_member m st = None"

text \<open>The writer separates elements by the flag of the last object: after an empty one there is no comma.\<close>

definition may_follow :: "json list \<Rightarrow> bool" where
  "may_follow vs \<longleftrightarrow> vs = [] \<or> last vs \<noteq> JObj []"

fun build :: "jw_call \<Rightarrow> frame list \<Rightarrow> frame list option" where
  "build JwOpen [] = Some [FObj []]"
| "build (JwStr n v) st = (case v of None \<Rightarrow> Some st | Some s \<Rightarrow> add_member (n, JStr s) st)"
| "build (JwRaw n s) st =
     (if s = [] then Some st
      else case json_read s of
             Some (v, []) \<Rightarrow> if json_ok v \<and> json_print v = s then add_member (n, v) st else None
           | _ \<Rightarrow> None)"
| "build (JwU32 n v) st = add_member (n, JNum (dec_digits (unat v))) st"
| "build (JwU64 n v) st = add_member (n, JNum (dec_digits (unat v))) st"
| "build (JwI32 n v) st = add_member (n, JNum (fmt_d v)) st"
| "build (JwF32 n (Finite x)) st = add_member (n, JNum (fmt_f 4 x)) st"
| "build (JwF64 n (Finite x)) st = add_member (n, JNum (fmt_f 7 x)) st"
| "build (JwBool n v) st = add_member (n, JBool v) st"
| "build (JwOpenArray n) (FObj fs # st) = Some (FArr n [] # FObj fs # st)"
| "build JwCloseArray (FArr n vs # FObj fs # st) = Some (FObj (fs @ [(n, JArr vs)]) # st)"
| "build JwElemOpen (FArr n vs # st) = (if may_follow vs then Some (FObj [] # FArr n vs # st) else None)"
| "build JwElemClose (FObj fs # FArr n vs # st) = Some (FArr n (vs @ [JObj fs]) # st)"
| "build (JwElemStr s) (FArr n vs # st) = (if may_follow vs then Some (FArr n (vs @ [JStr s]) # st) else None)"
| "build _ st = None"

fun build_run :: "jw_call list \<Rightarrow> frame list \<Rightarrow> frame list option" where
  "build_run [] st = Some st"
| "build_run (c # cs) st = (case build c st of None \<Rightarrow> None | Some st' \<Rightarrow> build_run cs st')"

fun frames_first :: "frame list \<Rightarrow> bool" where
  "frames_first (FObj fs # st) = (fs = [])"
| "frames_first (FArr n vs # st) = (vs = [] \<or> last vs = JObj [])"
| "frames_first [] = True"

fun frames_sep :: "frame list \<Rightarrow> string" where
  "frames_sep (FObj fs # st) = sep (fs = [])"
| "frames_sep (FArr n vs # st) = sep (vs = [])"
| "frames_sep [] = []"

fun frames_text :: "frame list \<Rightarrow> string" where
  "frames_text [] = []"
| "frames_text (FObj fs # st) = frames_text st @ frames_sep st @ ''{'' @ join_commas (map member_text fs)"
| "frames_text (FArr n vs # st) =
     frames_text st @ frames_sep st @ quoted n @ '':['' @ join_commas (map json_print vs)"

lemma join_commas_snoc: "join_commas (xs @ [x]) = join_commas xs @ sep (xs = []) @ x"
  by (induction xs rule: join_commas.induct) (simp_all add: sep_def)

lemma build_text:
  assumes "build c st = Some st'"
  shows "call_text c (frames_first st) = (t, b) \<Longrightarrow> frames_text st' = frames_text st @ t \<and> frames_first st' = b"
  using assms
  by (induction c st rule: build.induct)
     (auto simp: name_text_def join_commas_snoc may_follow_def fmt_flt_def sep_def
       split: option.splits if_splits list.splits elim!: add_member.elims)

subsection \<open>Printed numbers are JSON numbers\<close>

lemma digit_char_of: "k < (10 :: nat) \<Longrightarrow> digit_char (char_of (48 + k))"
  by (simp add: digit_char_def)

lemma dec_digits_digits: "list_all digit_char (dec_digits n)"
proof (induction n rule: dec_digits.induct)
  case (1 n)
  then show ?case by (subst dec_digits.simps) (simp add: digit_char_of)
qed

lemma dec_digits_lead: "hd (dec_digits n) = CHR ''0'' \<Longrightarrow> length (dec_digits n) = 1"
proof (induction n rule: dec_digits.induct)
  case (1 n)
  show ?case
  proof (cases "n < 10")
    case True
    then show ?thesis by (subst dec_digits.simps) simp
  next
    case False
    have z: "dec_digits k = [CHR ''0''] \<Longrightarrow> k = 0" for k
      by (subst (asm) dec_digits.simps) (auto simp: char_of_eq_iff take_bit_eq_mod split: if_splits)
    have "hd (dec_digits n) = hd (dec_digits (n div 10))"
      using False by (subst dec_digits.simps) simp
    then have "length (dec_digits (n div 10)) = 1" "hd (dec_digits (n div 10)) = CHR ''0''" using 1 False by simp_all
    then have "dec_digits (n div 10) = [CHR ''0'']" by (cases "dec_digits (n div 10)") auto
    then show ?thesis using z False by fastforce
  qed
qed

lemma pad_digits_digits: "list_all digit_char s \<Longrightarrow> list_all digit_char (pad_digits p s)"
  by (auto simp: pad_digits_def list_all_iff digit_char_def)

lemma json_num_parts:
  assumes "list_all digit_char i" "i \<noteq> []" "hd i = CHR ''0'' \<Longrightarrow> length i = 1"
    and "r = [] \<or> (\<exists>d. r = CHR ''.'' # d \<and> d \<noteq> [] \<and> list_all digit_char d)"
  shows "json_num (i @ r)" "json_num (CHR ''-'' # i @ r)"
proof -
  have r: "takeWhile digit_char r = []" "dropWhile digit_char r = r" using assms(4) by (auto simp: digit_char_def)
  have tw: "takeWhile digit_char (i @ r) = i" "dropWhile digit_char (i @ r) = r"
    using assms(1) r by (simp_all add: list_all_iff takeWhile_append2 dropWhile_append2)
  obtain c i' where i: "i = c # i'" "digit_char c" using assms(1,2) by (cases i) auto
  then have "c \<noteq> CHR ''-''" by (auto simp: digit_char_def)
  then have "(case i @ r of c # q \<Rightarrow> if c = CHR ''-'' then q else i @ r | [] \<Rightarrow> []) = i @ r" using i by simp
  then show "json_num (i @ r)" unfolding json_num_def using tw assms by (auto simp: Let_def)
  show "json_num (CHR ''-'' # i @ r)" unfolding json_num_def using tw assms by (auto simp: Let_def)
qed

lemma json_num_dec [simp]: "json_num (dec_digits n)"
  using json_num_parts(1) [of "dec_digits n" "[]"] dec_digits_digits dec_digits_lead by simp

lemma json_num_d [simp]: "json_num (fmt_d i)"
  using json_num_parts [of "dec_digits (nat \<bar>i\<bar>)" "[]"] dec_digits_digits dec_digits_lead
  by (auto simp: fmt_d_def)

lemma json_num_f [simp]: "0 < p \<Longrightarrow> json_num (fmt_f p x)"
proof -
  assume p: "0 < p"
  define i d where "i = (if f_exp x \<ge> 0 then f_man x * 2 ^ nat (f_exp x) * 10 ^ p
      else round_half_even (f_man x * 10 ^ p) (2 ^ nat (- f_exp x))) div 10 ^ p"
    and "d = pad_digits p (dec_digits ((if f_exp x \<ge> 0 then f_man x * 2 ^ nat (f_exp x) * 10 ^ p
      else round_half_even (f_man x * 10 ^ p) (2 ^ nat (- f_exp x))) mod 10 ^ p))"
  have d: "list_all digit_char d" by (simp only: d_def pad_digits_digits dec_digits_digits)
  have ne: "d \<noteq> []" by (simp only: d_def pad_digits_def append_is_Nil_conv dec_digits_ne) simp
  have "fmt_f p x = (if f_neg x then ''-'' else []) @ dec_digits i @ CHR ''.'' # d"
    using p unfolding fmt_f_def Let_def i_def d_def by simp
  then show ?thesis
    using json_num_parts [of "dec_digits i" "CHR ''.'' # d"] dec_digits_digits dec_digits_lead d ne by simp
qed

subsection \<open>What the reader gets back\<close>

fun open_ok :: "frame \<Rightarrow> bool" where
  "open_ok (FObj fs) = (\<forall>m \<in> set fs. json_ok (snd m))"
| "open_ok (FArr n vs) = (\<forall>v \<in> set vs. json_ok v)"

lemma build_ok: "build c st = Some st' \<Longrightarrow> list_all open_ok st \<Longrightarrow> list_all open_ok st'"
  by (induction c st rule: build.induct)
     (auto split: option.splits if_splits list.splits elim!: add_member.elims)

lemma build_run_text:
  assumes "build_run cs st = Some st'" "list_all open_ok st"
  shows "frames_text st @ calls_text cs (frames_first st) = frames_text st'
    \<and> list_all open_ok st'
    \<and> calls_text (cs @ ds) (frames_first st) = calls_text cs (frames_first st) @ calls_text ds (frames_first st')"
  using assms
proof (induction cs arbitrary: st)
  case (Cons c cs)
  obtain s where s: "build c st = Some s" "build_run cs s = Some st'"
    using Cons.prems(1) by (auto split: option.splits)
  obtain t b where t: "call_text c (frames_first st) = (t, b)" by (cases "call_text c (frames_first st)")
  have "frames_text s = frames_text st @ t" "frames_first s = b" using build_text [OF s(1) t] by auto
  moreover have "list_all open_ok s" using build_ok [OF s(1) Cons.prems(2)] .
  ultimately show ?case using Cons.IH [OF s(2)] t by auto
qed simp

text \<open>The text of a complete object, and the value read from it.\<close>

lemma object_text:
  assumes "build_run cs [] = Some [FObj fs]"
  shows "calls_text (cs @ JwClose # ds) True = json_print (JObj fs) @ calls_text ds False"
    and "json_ok (JObj fs)"
  using build_run_text [OF assms, where ds = "JwClose # ds"] by simp_all

lemma object_written:
  assumes "build_run cs [] = Some [FObj fs]"
    and "length (calls_text (cs @ JwClose # ds) True) < cap" "ends_number (calls_text ds False)"
  shows "json_read (jw_buf (jw_run (cs @ JwClose # ds) (jw_init cap))) = Some (JObj fs, calls_text ds False)"
proof -
  have "jw_buf (jw_run (cs @ JwClose # ds) (jw_init cap)) = calls_text (cs @ JwClose # ds) True"
    using run_fits [of "jw_init cap" "cs @ JwClose # ds"] assms(2) by (simp add: fits_def jw_init_def)
  then show ?thesis using object_text(1) [OF assms(1), of ds] json_read_print [OF object_text(2) [OF assms(1)] assms(3)] by simp
qed

subsection \<open>Lists of members\<close>

text \<open>
  A call whose output is JSON: no infinite or undefined number, and an embedded fragment
  that is itself a JSON text.
\<close>

definition finite_flt :: "flt \<Rightarrow> bool" where
  "finite_flt x = (case x of Finite _ \<Rightarrow> True | _ \<Rightarrow> False)"

definition json_fragment :: "string \<Rightarrow> bool" where
  "json_fragment s \<longleftrightarrow> s = [] \<or> (\<exists>v. json_ok v \<and> json_print v = s)"

fun printable :: "jw_call \<Rightarrow> bool" where
  "printable (JwF32 n v) = finite_flt v"
| "printable (JwF64 n v) = finite_flt v"
| "printable (JwRaw n s) = json_fragment s"
| "printable _ = True"

fun field_call :: "jw_call \<Rightarrow> bool" where
  "field_call (JwStr n v) = True"
| "field_call (JwRaw n v) = True"
| "field_call (JwU32 n v) = True"
| "field_call (JwU64 n v) = True"
| "field_call (JwI32 n v) = True"
| "field_call (JwF32 n v) = True"
| "field_call (JwF64 n v) = True"
| "field_call (JwBool n v) = True"
| "field_call _ = False"

text \<open>Calls inside an object that add the given members.\<close>

definition puts_members :: "jw_call list \<Rightarrow> (string \<times> json) list \<Rightarrow> bool" where
  "puts_members cs gs \<longleftrightarrow> (\<forall>fs st. build_run cs (FObj fs # st) = Some (FObj (fs @ gs) # st))"

definition members :: "jw_call list \<Rightarrow> (string \<times> json) list" where
  "members cs = (case build_run cs [FObj []] of Some [FObj gs] \<Rightarrow> gs | _ \<Rightarrow> [])"

definition nested :: "jw_call list \<Rightarrow> bool" where
  "nested cs \<longleftrightarrow> (list_all printable cs \<longrightarrow> puts_members cs (members cs))"

lemma members_adds: "puts_members cs gs \<Longrightarrow> members cs = gs"
  by (simp add: puts_members_def members_def)

lemma nestedI: "(list_all printable cs \<Longrightarrow> puts_members cs gs) \<Longrightarrow> nested cs"
  using members_adds by (auto simp: nested_def)

lemma build_run_append:
  "build_run (a @ b) st = (case build_run a st of None \<Rightarrow> None | Some st' \<Rightarrow> build_run b st')"
  by (induction a arbitrary: st) (simp_all split: option.split)

lemma adds_append: "puts_members a gs \<Longrightarrow> puts_members b hs \<Longrightarrow> puts_members (a @ b) (gs @ hs)"
  by (simp add: puts_members_def build_run_append)

named_theorems nesting \<open>rules that show calls to be well nested\<close>

lemma nested_Nil [nesting]: "nested []"
  by (rule nestedI [of _ "[]"]) (simp add: puts_members_def)

lemma nested_append [nesting]: "nested a \<Longrightarrow> nested b \<Longrightarrow> nested (a @ b)"
  by (rule nestedI [of _ "members a @ members b"]) (auto simp: nested_def intro: adds_append)

lemma members_append:
  "nested a \<Longrightarrow> nested b \<Longrightarrow> list_all printable (a @ b) \<Longrightarrow> members (a @ b) = members a @ members b"
  by (rule members_adds) (auto simp: nested_def intro: adds_append)

lemma nested_if [nesting]: "nested a \<Longrightarrow> nested b \<Longrightarrow> nested (if c then a else b)"
  by simp

lemma fragment_build:
  assumes "json_ok v" "json_print v = s" "s \<noteq> []"
  shows "build (JwRaw n s) st = add_member (n, v) st"
  using json_read_print [OF assms(1), of "[]"] assms by simp

lemma adds_field:
  assumes "field_call c" "printable c"
  obtains gs where "puts_members [c] gs"
proof (cases c)
  case (JwStr n v)
  then show ?thesis using that [of "case v of None \<Rightarrow> [] | Some s \<Rightarrow> [(n, JStr s)]"]
    by (auto simp: puts_members_def split: option.split)
next
  case (JwRaw n s)
  then consider "s = []" | v where "json_ok v" "json_print v = s" "s \<noteq> []"
    using assms by (auto simp: json_fragment_def)
  then show ?thesis
  proof cases
    case 1
    then show ?thesis using that [of "[]"] JwRaw by (simp add: puts_members_def)
  next
    case 2
    then show ?thesis using that [of "[(n, v)]"] JwRaw fragment_build [of v s n]
      by (simp add: puts_members_def del: build.simps)
  qed
next
  case (JwF32 n v)
  then obtain x where "v = Finite x" using assms by (auto simp: finite_flt_def split: flt.splits)
  then show ?thesis using that [of "[(n, JNum (fmt_f 4 x))]"] JwF32 by (simp add: puts_members_def)
next
  case (JwF64 n v)
  then obtain x where "v = Finite x" using assms by (auto simp: finite_flt_def split: flt.splits)
  then show ?thesis using that [of "[(n, JNum (fmt_f 7 x))]"] JwF64 by (simp add: puts_members_def)
qed (use assms that in \<open>auto simp: puts_members_def\<close>)

lemma nested_field [nesting]: "field_call c \<Longrightarrow> nested [c]"
  unfolding nested_def using adds_field members_adds by (metis list.pred_inject(2))

lemma nested_Cons [nesting]: "field_call c \<Longrightarrow> nested cs \<Longrightarrow> nested (c # cs)"
  using nested_append [OF nested_field [of c], of cs] by simp

lemma members_single:
  "members [JwStr n (Some s)] = [(n, JStr s)]" "members [JwU32 n w] = [(n, JNum (dec_digits (unat w)))]"
  "members [JwBool n b] = [(n, JBool b)]" "members [JwF64 n (Finite x)] = [(n, JNum (fmt_f 7 x))]"
  by (simp_all add: members_def)

lemma members_Cons:
  "field_call c \<Longrightarrow> nested (d # cs) \<Longrightarrow> list_all printable (c # d # cs) \<Longrightarrow>
     members (c # d # cs) = members [c] @ members (d # cs)"
  using members_append [OF nested_field [of c], of "d # cs"] by simp

fun call_name :: "jw_call \<Rightarrow> string" where
  "call_name (JwStr n v) = n"
| "call_name (JwRaw n v) = n"
| "call_name (JwU32 n v) = n"
| "call_name (JwU64 n v) = n"
| "call_name (JwI32 n v) = n"
| "call_name (JwF32 n v) = n"
| "call_name (JwF64 n v) = n"
| "call_name (JwBool n v) = n"
| "call_name _ = []"

lemma member_name: "field_call c \<Longrightarrow> printable c \<Longrightarrow> fst ` set (members [c]) \<subseteq> {call_name c}"
  by (cases c) (auto simp: members_def finite_flt_def split: option.splits flt.splits if_splits prod.splits list.splits)

lemma member_names:
  "list_all field_call cs \<Longrightarrow> list_all printable cs \<Longrightarrow> nested cs \<and> fst ` set (members cs) \<subseteq> call_name ` set cs"
proof (induction cs)
  case Nil
  then show ?case by (simp add: nested_Nil members_def)
next
  case (Cons c cs)
  then have n: "nested [c]" "nested cs" by (simp_all add: nested_field)
  then have "members ([c] @ cs) = members [c] @ members cs" using Cons.prems by (intro members_append) simp_all
  then show ?case using n Cons member_name [of c] nested_append [of "[c]" cs] by auto
qed

subsection \<open>Arrays\<close>

definition elems :: "jw_call list \<Rightarrow> json list \<Rightarrow> bool" where
  "elems cs vs \<longleftrightarrow> (\<forall>n ws st. may_follow ws \<longrightarrow> build_run cs (FArr n ws # st) = Some (FArr n (ws @ vs) # st))"

lemma adds_array: "elems cs vs \<Longrightarrow> puts_members (JwOpenArray n # cs @ [JwCloseArray]) [(n, JArr vs)]"
  by (simp add: elems_def puts_members_def build_run_append may_follow_def)

lemma elems_obj: "puts_members cs gs \<Longrightarrow> elems (JwElemOpen # cs @ [JwElemClose]) [JObj gs]"
  by (simp add: elems_def puts_members_def build_run_append)

lemma elems_append: "elems a vs \<Longrightarrow> elems b ws \<Longrightarrow> vs = [] \<or> last vs \<noteq> JObj [] \<Longrightarrow> elems (a @ b) (vs @ ws)"
  by (auto simp: elems_def build_run_append may_follow_def last_append)

lemma elems_Nil: "elems [] []"
  by (simp add: elems_def)

lemma elems_strs: "elems (map JwElemStr ss) (map JStr ss)"
proof (induction ss)
  case (Cons s ss)
  have "elems [JwElemStr s] [JStr s]" by (simp add: elems_def)
  then show ?case using elems_append [OF _ Cons.IH, of "[JwElemStr s]" "[JStr s]"] by simp
qed (simp add: elems_Nil)

lemma elems_objs:
  assumes "\<And>x. x \<in> set xs \<Longrightarrow> puts_members (f x) (g x) \<and> g x \<noteq> []"
  shows "elems (concat (map (\<lambda>x. JwElemOpen # f x @ [JwElemClose]) xs)) (map (\<lambda>x. JObj (g x)) xs)"
  using assms
proof (induction xs)
  case (Cons x xs)
  then have "elems (JwElemOpen # f x @ [JwElemClose]) [JObj (g x)]" "g x \<noteq> []" by (auto intro: elems_obj)
  then show ?case using elems_append [of "JwElemOpen # f x @ [JwElemClose]" "[JObj (g x)]"] Cons by simp
qed (simp add: elems_Nil)

lemma object_read:
  assumes "nested cs" "list_all printable cs"
    and "length (calls_text (JwOpen # cs @ JwClose # ds) True) < cap" "ends_number (calls_text ds False)"
  shows "json_read (jw_buf (jw_run (JwOpen # cs @ JwClose # ds) (jw_init cap)))
    = Some (JObj (members cs), calls_text ds False)"
proof -
  have "build_run (JwOpen # cs) [] = Some [FObj (members cs)]" using assms(1,2) by (simp add: nested_def puts_members_def)
  then show ?thesis using object_written [of "JwOpen # cs" "members cs" ds cap] assms(3,4) by simp
qed

subsection \<open>Numbers that are not finite\<close>

lemma fmt_not_finite: "\<not> finite_flt x \<Longrightarrow> unreadable (fmt_flt p x @ r)"
  by (auto simp: finite_flt_def fmt_flt_def unreadable_token split: flt.splits)

text \<open>A number that is infinite or undefined, inside an object in an array, spoils the whole text.\<close>

lemma bad_number_unreadable:
  assumes "nested a" "list_all printable a" "nested b" "list_all printable b" "\<not> finite_flt x"
  shows "unreadable (calls_text (JwOpen # a @ JwOpenArray n # JwElemOpen # b @ JwF32 k x # c) True)"
proof -
  let ?cs = "JwOpen # a @ JwOpenArray n # JwElemOpen # b"
  let ?fs = "members a" and ?gs = "members b"
  have run: "build_run ?cs [] = Some [FObj ?gs, FArr n [], FObj ?fs]"
    using assms(1-4) by (simp add: nested_def puts_members_def build_run_append may_follow_def)
  note r = build_run_text [OF run, where ds = "JwF32 k x # c"]
  have ok: "\<forall>m \<in> set ?fs. json_ok (snd m)" "\<forall>m \<in> set ?gs. json_ok (snd m)" using r by simp_all
  define tail where "tail = fmt_flt 4 x @ calls_text c False"
  define inner where "inner = CHR ''{'' # join_commas (map member_text ?gs @ [quoted k @ CHR '':'' # tail])"
  have "unreadable inner" unfolding inner_def tail_def
    using ok(2) fmt_not_finite [OF assms(5)] by (intro unreadable_object)
  then have "unreadable (CHR ''['' # inner)" by (intro unreadable_array) (simp_all add: inner_def)
  then have "unreadable (CHR ''{'' # join_commas (map member_text ?fs @ [quoted n @ CHR '':'' # CHR ''['' # inner]))"
    using ok(1) by (rule unreadable_object)
  moreover have "calls_text (?cs @ JwF32 k x # c) True
      = CHR ''{'' # join_commas (map member_text ?fs @ [quoted n @ CHR '':'' # CHR ''['' # inner])"
    using r by (simp add: join_commas_snoc inner_def tail_def name_text_def sep_def)
  ultimately show ?thesis by simp
qed

lemma unreadable_read: "unreadable s \<Longrightarrow> json_read s = None"
  by (simp add: unreadable_def json_read_def)

subsection \<open>Line breaks\<close>

text \<open>Only a raw character or an embedded fragment can put a control character into the buffer.\<close>

definition breaks :: "jw_call \<Rightarrow> bool" where
  "breaks c = (case c of JwPutc x \<Rightarrow> of_char x < (32 :: nat) | JwRaw n s \<Rightarrow> (\<exists>x \<in> set s. of_char x < (32 :: nat)) | _ \<Rightarrow> False)"

definition clean :: "string \<Rightarrow> bool" where
  "clean s \<longleftrightarrow> (\<forall>x \<in> set s. 32 \<le> (of_char x :: nat))"

lemma clean_simps [simp]:
  "clean []" "clean (a @ b) \<longleftrightarrow> clean a \<and> clean b" "clean (c # a) \<longleftrightarrow> 32 \<le> (of_char c :: nat) \<and> clean a"
  by (auto simp: clean_def)

lemma clean_putc: "clean (jw_buf j) \<Longrightarrow> 32 \<le> (of_char c :: nat) \<Longrightarrow> clean (jw_buf (jw_putc j c))"
  by (simp add: jw_putc_def)

lemma clean_puts: "clean (jw_buf j) \<Longrightarrow> clean s \<Longrightarrow> clean (jw_buf (jw_puts j s))"
  by (induction s arbitrary: j) simp_all

lemma clean_printf: "clean (jw_buf j) \<Longrightarrow> clean s \<Longrightarrow> clean (jw_buf (jw_printf j s))"
  by (simp add: jw_printf_def)

lemma clean_digits: "list_all digit_char s \<Longrightarrow> clean s"
  by (auto simp: list_all_iff clean_def digit_char_def)

lemma clean_numbers: "clean (dec_digits n)" "clean (fmt_d i)" "clean (fmt_flt p x)"
proof -
  have d: "clean (dec_digits n)" for n by (rule clean_digits) (rule dec_digits_digits)
  have q: "clean (pad_digits p (dec_digits n))" for p n
    by (rule clean_digits) (rule pad_digits_digits, rule dec_digits_digits)
  show "clean (dec_digits n)" "clean (fmt_d i)" "clean (fmt_flt p x)"
    by (auto simp: d q fmt_d_def fmt_flt_def fmt_f_def Let_def split: flt.split)
qed

lemma clean_hex: "clean (hex_text p n)"
  by (auto simp: clean_def hex_text_def hex_lower_def)

lemma clean_escape: "clean (jw_buf j) \<Longrightarrow> clean (jw_buf (jw_escape j s))"
proof (induction s arbitrary: j)
  case (Cons c s)
  have "32 \<le> (of_char BACKSLASH :: nat)" "32 \<le> (of_char QUOTE :: nat)" by (simp_all add: BACKSLASH_def QUOTE_def)
  then show ?case using Cons
    by (auto simp: Let_def clean_putc clean_puts clean_printf clean_hex simp del: jw_puts.simps)
qed simp

lemma clean_quoted: "clean (jw_buf j) \<Longrightarrow> clean (jw_buf (jw_str_escaped j s))"
  by (simp add: jw_str_escaped_def clean_putc clean_escape QUOTE_def)

lemma clean_name: "clean (jw_buf j) \<Longrightarrow> clean (jw_buf (jw_field_name j n))"
  by (auto simp: jw_field_name_def Let_def clean_putc clean_quoted)

lemma clean_do:
  assumes "clean (jw_buf j)" "\<not> breaks c" shows "clean (jw_buf (jw_do c j))"
proof (cases c)
  case (JwRaw n s)
  then have "clean s" using assms(2) by (auto simp: breaks_def clean_def)
  then show ?thesis using JwRaw assms(1) by (auto simp: jw_field_raw_def intro!: clean_puts clean_name)
qed (use assms in \<open>auto simp: breaks_def jw_ops clean_putc clean_puts clean_printf clean_numbers clean_quoted clean_name
      simp del: jw_puts.simps split: option.split\<close>)

lemma clean_run: "clean (jw_buf j) \<Longrightarrow> list_all (\<lambda>c. \<not> breaks c) cs \<Longrightarrow> clean (jw_buf (jw_run cs j))"
  unfolding jw_run_def by (induction cs arbitrary: j) (simp_all add: clean_do)

subsection \<open>Serializers\<close>

text \<open>
  The contract of a serializer: one object whose members are well nested, and a fixed tail
  after it.  Its clients get a bounded line that reads back as that object.
\<close>

locale json_serializer =
  fixes body :: "'e \<Rightarrow> jw_call list" and tail :: "jw_call list" and cap :: nat
  assumes body_nested: "nested (body e)"
    and tail_ends: "ends_number (calls_text tail False)"
    and cap_pos: "0 < cap"
begin

lemma line_bounded: "length (jw_buf (jw_run cs (jw_init cap))) < cap"
  using jw_inv_run [OF jw_inv_init [OF cap_pos], of cs]
  by (simp add: jw_inv_def jw_cap_run jw_init_def)

lemma line_read:
  assumes "list_all printable (body e)" "length (calls_text (JwOpen # body e @ JwClose # tail) True) < cap"
  shows "json_read (jw_buf (jw_run (JwOpen # body e @ JwClose # tail) (jw_init cap)))
    = Some (JObj (members (body e)), calls_text tail False)"
  using object_read [OF body_nested assms(1) assms(2) tail_ends] .

end

end
