(* ===== verification/Feed_Ports.thy ===== *)
theory Feed_Ports
  imports Jw Mesh_Ports Mesh_Atak Mesh_Event
begin

text \<open>
  The decoded fields of one Meshtastic packet in the JSON feed: the switch on the port
  number of \<^verbatim>\<open>serialize_event\<close> in \<^verbatim>\<open>src/feed.c\<close>, as the list of calls of the JSON writer, and
  the other components it informs.  The payload goes through the port decoders of
  \<^verbatim>\<open>src/mesh_decoders.c\<close> first.
\<close>

subsection \<open>Guarded fields\<close>

definition if_set :: "bool \<Rightarrow> jw_call \<Rightarrow> jw_call list" where
  "if_set b c = (if b then [c] else [])"

text \<open>\<^verbatim>\<open>if (x) jw_field_<type>(j, name, x)\<close>.\<close>

definition u32_set :: "string \<Rightarrow> u32 \<Rightarrow> jw_call list" where
  "u32_set n w = if_set (w \<noteq> 0) (JwU32 n w)"

definition u64_set :: "string \<Rightarrow> u64 \<Rightarrow> jw_call list" where
  "u64_set n w = if_set (w \<noteq> 0) (JwU64 n w)"

definition i32_set :: "string \<Rightarrow> int \<Rightarrow> jw_call list" where
  "i32_set n i = if_set (i \<noteq> 0) (JwI32 n i)"

definition f32_set :: "string \<Rightarrow> u32 \<Rightarrow> jw_call list" where
  "f32_set n w = if_set (f32_nonzero w) (JwF32 n (f32_of_bits w))"

text \<open>The characters of a byte array up to its terminator, and \<^verbatim>\<open>if (s[0]) jw_field_str(j, name, s)\<close>.\<close>

definition c_text :: "bytes \<Rightarrow> string" where
  "c_text b = map (\<lambda>x. char_of (unat x)) (c_str b)"

definition str_set :: "string \<Rightarrow> bytes \<Rightarrow> jw_call list" where
  "str_set n b = if_set (c_text b \<noteq> []) (JwStr n (Some (c_text b)))"

text \<open>An array that holds one object.\<close>

definition obj_array :: "string \<Rightarrow> jw_call list \<Rightarrow> jw_call list" where
  "obj_array n cs = JwOpenArray n # JwElemOpen # cs @ [JwElemClose, JwCloseArray]"

text \<open>\<^verbatim>\<open>!%08x\<close>.\<close>

definition node_text :: "u32 \<Rightarrow> string" where
  "node_text w = CHR ''!'' # hex_text 8 (unat w)"

definition id_array :: "string \<Rightarrow> u32 list \<Rightarrow> jw_call list" where
  "id_array n ids = JwOpenArray n # map (\<lambda>i. JwElemStr (node_text i)) ids @ [JwCloseArray]"

definition bytes_hex :: "bytes \<Rightarrow> string" where
  "bytes_hex p = concat (map (\<lambda>b. [hex_digit (drop_bit 4 b AND 0xF), hex_digit (b AND 0xF)]) p)"

subsection \<open>Ports\<close>

definition feed_text :: "nat \<Rightarrow> bytes \<Rightarrow> jw_call list" where
  "feed_text size_of p = [JwStr ''text'' (Some (c_text (take (size_of - 1) p)))]"

definition feed_position :: "mesh_position \<Rightarrow> jw_call list" where
  "feed_position p =
     if_set (pos_have_lat p) (JwF64 ''lat'' (f64_deg (pos_lat_i p)))
     @ if_set (pos_have_lon p) (JwF64 ''lon'' (f64_deg (pos_lon_i p)))
     @ if_set (pos_have_alt p) (JwI32 ''alt_m'' (pos_altitude_m p))
     @ if_set (pos_have_alt_hae p) (JwI32 ''alt_hae_m'' (pos_altitude_hae_m p))
     @ if_set (pos_have_alt_geosep p) (JwI32 ''alt_geoidal_sep_m'' (pos_altitude_geoidal_separation_m p))
     @ if_set (pos_have_time p) (JwU32 ''time'' (pos_time p))
     @ if_set (pos_have_timestamp p) (JwU32 ''timestamp'' (pos_timestamp p))
     @ i32_set ''timestamp_ms_adj'' (pos_timestamp_millis_adjust p)
     @ u32_set ''loc_src'' (pos_location_source p) @ u32_set ''alt_src'' (pos_altitude_source p)
     @ if_set (pos_pdop_x100 p \<noteq> 0) (JwF64 ''pdop'' (f64_div (uint (pos_pdop_x100 p)) 100))
     @ if_set (pos_hdop_x100 p \<noteq> 0) (JwF64 ''hdop'' (f64_div (uint (pos_hdop_x100 p)) 100))
     @ if_set (pos_vdop_x100 p \<noteq> 0) (JwF64 ''vdop'' (f64_div (uint (pos_vdop_x100 p)) 100))
     @ u32_set ''gps_accuracy_mm'' (pos_gps_accuracy_mm p)
     @ if_set (pos_have_ground_speed p) (JwU32 ''speed_mps'' (pos_ground_speed_mps p))
     @ if_set (pos_have_ground_track p) (JwF64 ''track_deg'' (f64_div (uint (pos_ground_track_x100 p)) 100))
     @ u32_set ''fix_quality'' (pos_fix_quality p) @ u32_set ''fix_type'' (pos_fix_type p)
     @ u32_set ''sats'' (pos_sats_in_view p) @ u32_set ''sensor_id'' (pos_sensor_id p)
     @ u32_set ''next_update_s'' (pos_next_update_s p) @ u32_set ''seq'' (pos_seq_number p)
     @ u32_set ''precision_bits'' (pos_precision_bits p)"

definition feed_user :: "mesh_user \<Rightarrow> jw_call list" where
  "feed_user u =
     str_set ''node_id'' (usr_id u) @ str_set ''long_name'' (usr_long_name u)
     @ str_set ''short_name'' (usr_short_name u) @ u32_set ''hw_model'' (usr_hw_model u)
     @ u32_set ''role'' (usr_role u) @ if_set (usr_is_licensed u) (JwBool ''licensed'' True)
     @ if_set (usr_have_is_unmessagable u) (JwBool ''unmessagable'' (usr_is_unmessagable u))
     @ if_set (usr_have_public_key u) (JwStr ''public_key'' (Some (bytes_hex (usr_public_key u))))"

definition feed_device :: "device_metrics \<Rightarrow> jw_call list" where
  "feed_device m =
     [JwU32 ''battery'' (dm_battery_level m), JwF32 ''voltage'' (f32_of_bits (dm_voltage m)),
      JwF32 ''ch_util'' (f32_of_bits (dm_channel_utilization m)),
      JwF32 ''air_tx'' (f32_of_bits (dm_air_util_tx m)), JwU32 ''uptime'' (dm_uptime_seconds m)]"

definition feed_environment :: "env_metrics \<Rightarrow> jw_call list" where
  "feed_environment m =
     f32_set ''temp_c'' (em_temperature_c m) @ f32_set ''humidity'' (em_relative_humidity m)
     @ f32_set ''pressure'' (em_barometric_pressure_hpa m)
     @ f32_set ''gas_res'' (em_gas_resistance m) @ f32_set ''voltage'' (em_voltage_env m)
     @ f32_set ''current'' (em_current m) @ u32_set ''iaq'' (em_iaq m)
     @ f32_set ''distance_mm'' (em_distance_mm m) @ f32_set ''lux'' (em_lux m)
     @ f32_set ''white_lux'' (em_white_lux m) @ f32_set ''ir_lux'' (em_ir_lux m)
     @ f32_set ''uv_lux'' (em_uv_lux m) @ u32_set ''wind_dir_deg'' (em_wind_direction m)
     @ f32_set ''wind_mps'' (em_wind_speed m) @ f32_set ''weight'' (em_weight m)
     @ f32_set ''wind_gust_mps'' (em_wind_gust m) @ f32_set ''wind_lull_mps'' (em_wind_lull m)
     @ f32_set ''radiation_uSvh'' (em_radiation_uSvh m)
     @ f32_set ''rain_1h_mm'' (em_rainfall_1h_mm m)
     @ f32_set ''rain_24h_mm'' (em_rainfall_24h_mm m)
     @ u32_set ''soil_moisture'' (em_soil_moisture m)
     @ f32_set ''soil_temp_c'' (em_soil_temperature_c m)"

definition feed_power :: "power_metrics \<Rightarrow> jw_call list" where
  "feed_power m =
     f32_set ''ch1_v'' (pm_ch1_voltage m) @ f32_set ''ch1_a'' (pm_ch1_current m)
     @ f32_set ''ch2_v'' (pm_ch2_voltage m) @ f32_set ''ch2_a'' (pm_ch2_current m)
     @ f32_set ''ch3_v'' (pm_ch3_voltage m) @ f32_set ''ch3_a'' (pm_ch3_current m)
     @ f32_set ''ch4_v'' (pm_ch4_voltage m) @ f32_set ''ch4_a'' (pm_ch4_current m)
     @ f32_set ''ch5_v'' (pm_ch5_voltage m) @ f32_set ''ch5_a'' (pm_ch5_current m)
     @ f32_set ''ch6_v'' (pm_ch6_voltage m) @ f32_set ''ch6_a'' (pm_ch6_current m)
     @ f32_set ''ch7_v'' (pm_ch7_voltage m) @ f32_set ''ch7_a'' (pm_ch7_current m)
     @ f32_set ''ch8_v'' (pm_ch8_voltage m) @ f32_set ''ch8_a'' (pm_ch8_current m)"

definition feed_air_quality :: "air_quality \<Rightarrow> jw_call list" where
  "feed_air_quality m =
     u32_set ''pm10_std'' (aq_pm10_standard m) @ u32_set ''pm25_std'' (aq_pm25_standard m)
     @ u32_set ''pm100_std'' (aq_pm100_standard m) @ u32_set ''pm10_env'' (aq_pm10_env m)
     @ u32_set ''pm25_env'' (aq_pm25_env m) @ u32_set ''pm100_env'' (aq_pm100_env m)
     @ u32_set ''p_03um'' (aq_particles_03um m) @ u32_set ''p_05um'' (aq_particles_05um m)
     @ u32_set ''p_10um'' (aq_particles_10um m) @ u32_set ''p_25um'' (aq_particles_25um m)
     @ u32_set ''p_50um'' (aq_particles_50um m) @ u32_set ''p_100um'' (aq_particles_100um m)
     @ u32_set ''co2_ppm'' (aq_co2 m) @ f32_set ''co2_temp_c'' (aq_co2_temperature_c m)
     @ f32_set ''co2_hum'' (aq_co2_humidity m) @ f32_set ''ch2o_ppb'' (aq_formaldehyde_ppb m)
     @ f32_set ''ch2o_hum'' (aq_form_humidity m)
     @ f32_set ''ch2o_temp_c'' (aq_form_temperature_c m)
     @ u32_set ''pm40_std'' (aq_pm40_standard m) @ u32_set ''p_40um'' (aq_particles_40um m)
     @ f32_set ''pm_temp_c'' (aq_pm_temperature_c m) @ f32_set ''pm_hum'' (aq_pm_humidity m)
     @ f32_set ''pm_voc'' (aq_pm_voc_idx m) @ f32_set ''pm_nox'' (aq_pm_nox_idx m)
     @ f32_set ''p_tps_um'' (aq_particles_tps m)"

definition feed_local_stats :: "local_stats \<Rightarrow> jw_call list" where
  "feed_local_stats m =
     u32_set ''uptime_s'' (ls_uptime_s m) @ f32_set ''ch_util'' (ls_channel_utilization m)
     @ f32_set ''air_tx'' (ls_air_util_tx m) @ u32_set ''pkts_tx'' (ls_num_packets_tx m)
     @ u32_set ''pkts_rx'' (ls_num_packets_rx m)
     @ u32_set ''pkts_rx_bad'' (ls_num_packets_rx_bad m)
     @ u32_set ''nodes_online'' (ls_num_online_nodes m)
     @ u32_set ''nodes_total'' (ls_num_total_nodes m) @ u32_set ''rx_dupe'' (ls_num_rx_dupe m)
     @ u32_set ''tx_relay'' (ls_num_tx_relay m)
     @ u32_set ''tx_relay_cancel'' (ls_num_tx_relay_canceled m)
     @ u32_set ''heap_total'' (ls_heap_total_bytes m)
     @ u32_set ''heap_free'' (ls_heap_free_bytes m) @ u32_set ''tx_dropped'' (ls_num_tx_dropped m)
     @ i32_set ''noise_floor_dbm'' (ls_noise_floor_dbm m)"

definition feed_health :: "health_metrics \<Rightarrow> jw_call list" where
  "feed_health m =
     u32_set ''heart_bpm'' (hm_heart_bpm m) @ u32_set ''spo2'' (hm_spo2 m)
     @ f32_set ''body_temp_c'' (hm_temperature_c m)"

definition feed_host :: "host_metrics \<Rightarrow> jw_call list" where
  "feed_host m =
     u32_set ''uptime_s'' (ho_uptime_s m) @ u64_set ''freemem_bytes'' (ho_freemem_bytes m)
     @ u64_set ''disk1_bytes'' (ho_diskfree1_bytes m)
     @ u64_set ''disk2_bytes'' (ho_diskfree2_bytes m)
     @ u64_set ''disk3_bytes'' (ho_diskfree3_bytes m) @ u32_set ''load1_x100'' (ho_load1_x100 m)
     @ u32_set ''load5_x100'' (ho_load5_x100 m) @ u32_set ''load15_x100'' (ho_load15_x100 m)
     @ str_set ''user_string'' (ho_user_string m)"

definition feed_traffic_mgmt :: "traffic_mgmt \<Rightarrow> jw_call list" where
  "feed_traffic_mgmt m =
     u32_set ''inspected'' (tm_packets_inspected m)
     @ u32_set ''pos_dedup_drops'' (tm_position_dedup_drops m)
     @ u32_set ''nodeinfo_hits'' (tm_nodeinfo_cache_hits m)
     @ u32_set ''rate_limit_drops'' (tm_rate_limit_drops m)
     @ u32_set ''unknown_drops'' (tm_unknown_packet_drops m)
     @ u32_set ''hop_exhausted'' (tm_hop_exhausted_packets m)
     @ u32_set ''router_hops_kept'' (tm_router_hops_preserved m)"

definition feed_telemetry :: "mesh_telemetry \<Rightarrow> jw_call list" where
  "feed_telemetry t =
     u32_set ''time'' (tel_time_unix t)
     @ (if dm_have (tel_device t) then obj_array ''device'' (feed_device (tel_device t)) else [])
     @ (if em_have (tel_env t) then obj_array ''environment'' (feed_environment (tel_env t)) else [])
     @ (if pm_have (tel_power t) then obj_array ''power'' (feed_power (tel_power t)) else [])
     @ (if aq_have (tel_air t) then obj_array ''air_quality'' (feed_air_quality (tel_air t)) else [])
     @ (if ls_have (tel_local t) then obj_array ''local_stats'' (feed_local_stats (tel_local t)) else [])
     @ (if hm_have (tel_health t) then obj_array ''health'' (feed_health (tel_health t)) else [])
     @ (if ho_have (tel_host t) then obj_array ''host'' (feed_host (tel_host t)) else [])
     @ (if tm_have (tel_traffic t) then obj_array ''traffic_mgmt'' (feed_traffic_mgmt (tel_traffic t)) else [])"

definition feed_atak :: "mesh_atak \<Rightarrow> jw_call list" where
  "feed_atak a =
     str_set ''atak_callsign'' (at_callsign a) @ str_set ''atak_device'' (at_device_callsign a)
     @ [JwStr ''atak_team'' (Some (mesh_atak_team_name (at_team a))),
        JwStr ''atak_role'' (Some (mesh_atak_role_name (at_role a)))]
     @ u32_set ''atak_battery'' (at_battery a)
     @ (if at_kind a = MESH_ATAK_PLI then
          if_set (at_have_lat a) (JwF64 ''lat'' (f64_deg (at_lat_i a)))
          @ if_set (at_have_lon a) (JwF64 ''lon'' (f64_deg (at_lon_i a)))
          @ i32_set ''alt_hae_m'' (at_altitude_hae_m a)
          @ u32_set ''speed_mps'' (at_speed_mps a) @ u32_set ''course_deg'' (at_course_deg a)
        else if at_kind a = MESH_ATAK_CHAT then
          (let receipt = (if at_chat_receipt_type a = 1 then Some ''delivered''
                          else if at_chat_receipt_type a = 2 then Some ''read'' else None)
           in [JwStr ''atak_chat_receipt'' receipt])
          @ str_set ''atak_chat'' (at_chat_message a) @ str_set ''atak_chat_to'' (at_chat_to a)
          @ str_set ''atak_chat_to_callsign'' (at_chat_to_callsign a)
          @ str_set ''atak_chat_receipt_for'' (at_chat_receipt_for_uid a)
          @ str_set ''atak_chat_lang'' (at_chat_lang a) @ str_set ''atak_chat_room'' (at_chat_room_id a)
          @ if_set (at_chat_has_voice_profile a) (JwStr ''atak_chat_taktalk'' (Some ''1''))
        else [])"

definition feed_routing :: "mesh_routing \<Rightarrow> jw_call list" where
  "feed_routing r =
     (case rt_kind r of MESH_ROUTING_NONE \<Rightarrow> []
      | MESH_ROUTING_REQUEST \<Rightarrow> [JwStr ''routing_kind'' (Some ''request'')]
      | MESH_ROUTING_REPLY \<Rightarrow> [JwStr ''routing_kind'' (Some ''reply'')]
      | MESH_ROUTING_ERROR \<Rightarrow> [JwStr ''routing_kind'' (Some ''error'')])
     @ if_set (rt_kind r = MESH_ROUTING_ERROR) (JwU32 ''error_reason'' (rt_error_reason r))
     @ (if rt_route r \<noteq> [] then id_array ''route'' (rt_route r) else [])"

definition feed_traceroute :: "mesh_traceroute \<Rightarrow> jw_call list" where
  "feed_traceroute t = (if tr_route t \<noteq> [] then id_array ''route'' (tr_route t) else [])"

definition feed_waypoint :: "mesh_waypoint \<Rightarrow> jw_call list" where
  "feed_waypoint w =
     u32_set ''waypoint_id'' (wp_id w) @ if_set (wp_have_lat w) (JwF64 ''lat'' (f64_deg (wp_lat_i w)))
     @ if_set (wp_have_lon w) (JwF64 ''lon'' (f64_deg (wp_lon_i w)))
     @ u32_set ''expire'' (wp_expire w) @ u32_set ''locked_to'' (wp_locked_to w)
     @ str_set ''wp_name'' (wp_name w) @ str_set ''wp_desc'' (wp_description w)
     @ u32_set ''wp_icon'' (wp_icon w)"

definition feed_neighbor :: "mesh_neighbor \<Rightarrow> jw_call list" where
  "feed_neighbor n =
     [JwStr ''id'' (Some (node_text (nb_node_id n)))] @ f32_set ''snr_db'' (nb_snr_db n)"

definition feed_neighborinfo :: "mesh_neighborinfo \<Rightarrow> jw_call list" where
  "feed_neighborinfo ni =
     [JwU32 ''neighbor_node_id'' (ni_node_id ni)] @ u32_set ''last_sent_by'' (ni_last_sent_by_id ni)
     @ u32_set ''broadcast_interval_s'' (ni_node_broadcast_interval_secs ni)
     @ (if ni_neighbors ni \<noteq> [] then
          JwOpenArray ''neighbors''
          # concat (map (\<lambda>n. JwElemOpen # feed_neighbor n @ [JwElemClose]) (ni_neighbors ni)) @ [JwCloseArray]
        else [])"

definition feed_keyverif :: "mesh_keyverif \<Rightarrow> jw_call list" where
  "feed_keyverif kv =
     u64_set ''kv_nonce'' (kv_nonce kv)
     @ if_set (kv_hash1_len kv \<noteq> 0) (JwU32 ''kv_hash1_len'' (word_of_int (kv_hash1_len kv)))
     @ if_set (kv_hash2_len kv \<noteq> 0) (JwU32 ''kv_hash2_len'' (word_of_int (kv_hash2_len kv)))"

definition feed_mapreport :: "mesh_mapreport \<Rightarrow> jw_call list" where
  "feed_mapreport mr =
     str_set ''long_name'' (mr_long_name mr) @ str_set ''short_name'' (mr_short_name mr)
     @ str_set ''firmware'' (mr_firmware_version mr) @ u32_set ''role'' (mr_role mr)
     @ u32_set ''hw_model'' (mr_hw_model mr) @ u32_set ''region'' (mr_region mr)
     @ u32_set ''sender_preset'' (mr_modem_preset mr)
     @ if_set (mr_have_lat mr) (JwF64 ''lat'' (f64_deg (mr_lat_i mr)))
     @ if_set (mr_have_lon mr) (JwF64 ''lon'' (f64_deg (mr_lon_i mr)))
     @ i32_set ''alt_m'' (mr_altitude_m mr) @ u32_set ''online_nodes'' (mr_num_online_local_nodes mr)"

definition feed_admin :: "mesh_admin \<Rightarrow> jw_call list" where
  "feed_admin a =
     u32_set ''admin_variant'' (ad_variant_field a)
     @ if_set (ad_has_session_passkey a) (JwBool ''admin_session'' True)"

definition feed_remote_hw :: "mesh_remote_hw \<Rightarrow> jw_call list" where
  "feed_remote_hw h =
     u32_set ''hw_type'' (rh_type h) @ u64_set ''hw_gpio_mask'' (rh_gpio_mask h)
     @ u64_set ''hw_gpio_value'' (rh_gpio_value h)"

definition feed_paxcounter :: "mesh_paxcounter \<Rightarrow> jw_call list" where
  "feed_paxcounter pc =
     [JwU32 ''pax_wifi'' (px_wifi pc), JwU32 ''pax_ble'' (px_ble pc), JwU32 ''pax_uptime_s'' (px_uptime_s pc)]"

definition feed_storeforward :: "mesh_storeforward \<Rightarrow> jw_call list" where
  "feed_storeforward s =
     (case mesh_storeforward_rr_name (sf_rr s) of
        Some rr \<Rightarrow> [JwStr ''sf_rr'' (Some rr)] | None \<Rightarrow> [JwU32 ''sf_rr_id'' (sf_rr s)])
     @ (if sf_have_stats s then
          [JwU32 ''sf_total'' (sf_stats_total s), JwU32 ''sf_history'' (sf_stats_history s),
           JwU32 ''sf_max'' (sf_stats_max s), JwU32 ''sf_uptime_s'' (sf_stats_up_time_s s),
           JwU32 ''sf_requests'' (sf_stats_requests s)] else [])
     @ (if sf_have_history s then
          [JwU32 ''sf_hist_count'' (sf_hist_count s), JwU32 ''sf_hist_window_s'' (sf_hist_window_s s)] else [])"

subsection \<open>The calls are well nested\<close>

lemma nested_if_set [nesting]: "field_call c \<Longrightarrow> nested (if_set b c)"
  by (simp add: if_set_def nesting)

lemma nested_sets [nesting]:
  "nested (u32_set n w)" "nested (u64_set n w')" "nested (i32_set n i)" "nested (f32_set n w)" "nested (str_set n s)"
  by (simp_all add: u32_set_def u64_set_def i32_set_def f32_set_def str_set_def nesting)

lemma nested_obj_array [nesting]: "nested cs \<Longrightarrow> nested (obj_array n cs)"
  using adds_array [OF elems_obj, of cs "members cs" n]
  by (intro nestedI [of _ "[(n, JArr [JObj (members cs)])]"]) (simp add: nested_def obj_array_def)

lemma adds_id_array: "puts_members (id_array n ids) [(n, JArr (map (\<lambda>i. JStr (node_text i)) ids))]"
  using adds_array [OF elems_strs, of n "map node_text ids"] by (simp add: id_array_def comp_def)

lemma nested_id_array [nesting]: "nested (id_array n ids)"
  using adds_id_array by (rule nestedI)

lemma nested_metrics [nesting]:
  "nested (feed_device dm)" "nested (feed_environment em)" "nested (feed_power pm)" "nested (feed_air_quality aq)"
  "nested (feed_local_stats ls)" "nested (feed_health hm)" "nested (feed_host ho)" "nested (feed_traffic_mgmt tm)"
  unfolding feed_device_def feed_environment_def feed_power_def feed_air_quality_def feed_local_stats_def
    feed_health_def feed_host_def feed_traffic_mgmt_def
  by (intro nesting; simp)+

lemma nested_neighbors [nesting]:
  "nested (JwOpenArray n # concat (map (\<lambda>x. JwElemOpen # feed_neighbor x @ [JwElemClose]) ns) @ [JwCloseArray])"
proof (rule nestedI)
  assume a: "list_all printable (JwOpenArray n # concat (map (\<lambda>x. JwElemOpen # feed_neighbor x @ [JwElemClose]) ns) @ [JwCloseArray])"
  have "puts_members (feed_neighbor x) (members (feed_neighbor x)) \<and> members (feed_neighbor x) \<noteq> []" if "x \<in> set ns" for x
  proof -
    have s: "nested [JwStr ''id'' (Some (node_text (nb_node_id x)))]" "nested (f32_set ''snr_db'' (nb_snr_db x))"
      by (rule nesting; simp)+
    have p: "list_all printable (feed_neighbor x)" using a that by (auto simp: list_all_iff split: if_splits)
    have "members (feed_neighbor x) = members [JwStr ''id'' (Some (node_text (nb_node_id x)))] @ members (f32_set ''snr_db'' (nb_snr_db x))"
      unfolding feed_neighbor_def using members_append [OF s] p by (simp add: feed_neighbor_def)
    moreover have "nested (feed_neighbor x)" unfolding feed_neighbor_def by (intro nesting s)
    ultimately show ?thesis using p by (simp add: nested_def members_def)
  qed
  then show "puts_members (JwOpenArray n # concat (map (\<lambda>x. JwElemOpen # feed_neighbor x @ [JwElemClose]) ns) @ [JwCloseArray])
      [(n, JArr (map (\<lambda>x. JObj (members (feed_neighbor x))) ns))]"
    by (intro adds_array elems_objs) auto
qed

lemma nested_ports [nesting]:
  "nested (feed_text k p)" "nested (feed_position pos)" "nested (feed_user u)" "nested (feed_telemetry t)"
  "nested (feed_atak a)" "nested (feed_traceroute tr)" "nested (feed_waypoint w)"
  "nested (feed_neighborinfo ni)" "nested (feed_keyverif kv)" "nested (feed_mapreport mr)" "nested (feed_admin ad)"
  "nested (feed_remote_hw rh)" "nested (feed_paxcounter pc)"
  unfolding feed_text_def feed_position_def feed_user_def feed_telemetry_def feed_atak_def
    feed_traceroute_def feed_waypoint_def feed_neighborinfo_def feed_keyverif_def feed_mapreport_def feed_admin_def
    feed_remote_hw_def feed_paxcounter_def Let_def
  by (intro nesting; simp)+

lemma nested_routing [nesting]: "nested (feed_routing r)"
  unfolding feed_routing_def by (cases "rt_kind r") (auto intro!: nesting)

lemma nested_storeforward [nesting]: "nested (feed_storeforward s)"
  unfolding feed_storeforward_def
  by (cases "mesh_storeforward_rr_name (sf_rr s)") (auto intro!: nesting)

end
