(* ===== verification/Feed_Meshcore.thy ===== *)
theory Feed_Meshcore
  imports Jw Feed_Ports Meshcore
begin

text \<open>
  The JSON line of a MeshCore event (\<^verbatim>\<open>src/feed_meshcore_json.c\<close>) and the packet report for
  observer platforms (\<^verbatim>\<open>src/feed_meshcore_observer.c\<close>), as lists of calls of the JSON writer.
  The clock and the position of the station are arguments.
\<close>

subsection \<open>Environment\<close>

text \<open>
  What the serializers read besides the event: the station name, the time of day, and the
  position of the station when it has a fresh one, with its altitude as a float unless it is zero.
\<close>

record feed_env =
  fe_station_id :: "string option"
  fe_ts :: flt
  fe_station :: "(flt \<times> flt \<times> flt option) option"

definition feed_station :: "feed_env \<Rightarrow> jw_call list" where
  "feed_station env =
     (case fe_station env of
        None \<Rightarrow> []
      | Some (lat, lon, alt) \<Rightarrow>
          [JwF64 ''station_lat'' lat, JwF64 ''station_lon'' lon]
          @ (case alt of None \<Rightarrow> [] | Some a \<Rightarrow> [JwF32 ''station_alt_m'' a]))"

definition feed_crc :: "mesh_event \<Rightarrow> jw_call list" where
  "feed_crc ev =
     if_set (ev_has_crc ev) (JwBool ''payload_crc_ok'' (ev_payload_crc_ok ev))
     @ (if ev_has_crc ev \<and> ev_payload_crc_ok ev \<and> ev_crc_corrected ev then
          [JwBool ''crc_corrected'' True,
           JwU32 ''crc_corrected_bits'' (word_of_int (ev_crc_corrected_bits ev))] else [])"

text \<open>The radio layer: spreading factor, coding rate, bandwidth and frequency.\<close>

definition feed_radio :: "mesh_event \<Rightarrow> jw_call list" where
  "feed_radio ev =
     (if ev_sf ev > 0 then
        [JwU32 ''sf'' (word_of_int (ev_sf ev)), JwU32 ''cr'' (word_of_int (ev_cr ev)),
         JwU32 ''bw_hz'' (word_of_int (ev_bw_hz ev))] @ u64_set ''freq_hz'' (ev_freq_hz ev) else [])"

subsection \<open>MeshCore\<close>

abbreviation (input) MC_ADVERT :: int where "MC_ADVERT \<equiv> 4"
abbreviation (input) MC_GRP_TXT :: int where "MC_GRP_TXT \<equiv> 5"
abbreviation (input) MC_GRP_DATA :: int where "MC_GRP_DATA \<equiv> 6"
abbreviation (input) MC_ANON_REQ :: int where "MC_ANON_REQ \<equiv> 7"
abbreviation (input) MC_TRACE :: int where "MC_TRACE \<equiv> 9"
abbreviation (input) MC_MULTIPART :: int where "MC_MULTIPART \<equiv> 10"
abbreviation (input) MC_CONTROL :: int where "MC_CONTROL \<equiv> 11"

definition mc_derive_from_id :: "mesh_event \<Rightarrow> u32" where
  "mc_derive_from_id ev =
     (let m = ev_mc ev
      in if mc_payload_type m = MC_ADVERT \<or> mc_payload_type m = MC_ANON_REQ
            \<or> mc_payload_type m = MC_CONTROL \<and> ev_decrypted ev \<and> mc_ctl_subtype m = ''NODE_DISCOVER_RESP''
         then push_bit 24 (ucast (mc_pubkey m ! 0)) OR push_bit 16 (ucast (mc_pubkey m ! 1))
              OR push_bit 8 (ucast (mc_pubkey m ! 2)) OR ucast (mc_pubkey m ! 3)
         else if mc_payload_type m = MC_GRP_TXT \<or> mc_payload_type m = MC_GRP_DATA
         then 0x80000000 OR ucast (mc_channel_hash m)
         else if mc_dest_hash m \<noteq> 0 \<or> mc_src_hash m \<noteq> 0
         then 0x40000000 OR push_bit 8 (ucast (mc_dest_hash m)) OR ucast (mc_src_hash m)
         else 0)"

definition route_type_name :: "int \<Rightarrow> string" where
  "route_type_name r =
     (if 0 \<le> r \<and> r < 4 then [''transport_flood'', ''flood'', ''direct'', ''transport_direct''] ! nat r
      else ''unknown'')"

definition adv_type_name :: "byte \<Rightarrow> string" where
  "adv_type_name t =
     (if t < 5 then [''NONE'', ''CHAT'', ''REPEATER'', ''ROOM'', ''SENSOR''] ! unat t else ''UNKNOWN'')"

definition txt_type_name :: "byte \<Rightarrow> string" where
  "txt_type_name t = (if t < 3 then [''PLAIN'', ''CLI_DATA'', ''SIGNED_PLAIN''] ! unat t else ''UNKNOWN'')"

definition feed_mc_route :: "mesh_event \<Rightarrow> jw_call list" where
  "feed_mc_route ev =
     (let m = ev_mc ev
      in (if mc_has_region_scope m then
            [JwBool ''region_scope'' True, JwU32 ''region_code1'' (ucast (mc_region_code1 m)),
             JwU32 ''region_code2'' (ucast (mc_region_code2 m))]
            @ if_set (mc_region_name m \<noteq> []) (JwStr ''region_name'' (Some (mc_region_name m))) else [])
         @ (if mc_payload_type m = MC_TRACE then
              (if ev_decrypted ev \<and> mc_path_hop_count m > 0 then
                 (let n = (if mc_path_hop_count m > 64 then 64 else mc_path_hop_count m)
                  in [JwStr ''trace_route_hashes_hex'' (Some (bytes_hex (take n (mc_path_hashes m)))),
                      JwStr ''trace_snrs_hex'' (Some (bytes_hex (take n (mc_path_snrs m))))]) else [])
            else if mc_hdr_path_hash_count m > 0 then
              [JwU32 ''route_path_hash_count'' (of_nat (mc_hdr_path_hash_count m)),
               JwU32 ''route_path_hash_size'' (of_nat (mc_hdr_path_hash_size m)),
               JwStr ''route_path_hex'' (Some (bytes_hex (mc_hdr_path m)))]
            else []))"

definition feed_mc_radio :: "mesh_event \<Rightarrow> jw_call list" where
  "feed_mc_radio ev =
     (let m = ev_mc ev
      in if_set (mc_derive_from_id ev \<noteq> 0) (JwStr ''from'' (Some (node_text (mc_derive_from_id ev))))
         @ if_set (ev_slot_id ev \<ge> 0) (JwU32 ''slot_id'' (word_of_int (ev_slot_id ev)))
         @ f32_set ''rssi_db'' (ev_rssi_db ev) @ f32_set ''snr_db'' (ev_snr_db ev)
         @ feed_crc ev @ feed_radio ev
         @ if_set (ev_channel_name ev \<noteq> []) (JwStr ''channel_name'' (Some (ev_channel_name ev)))
         @ u32_set ''channel_hash'' (ucast (mc_channel_hash m)) @ u32_set ''dest_hash'' (ucast (mc_dest_hash m))
         @ u32_set ''src_hash'' (ucast (mc_src_hash m)) @ u32_set ''mc_timestamp'' (mc_timestamp m)
         @ if_set (ev_raw_hex ev \<noteq> []) (JwStr ''raw_hex'' (Some (ev_raw_hex ev))))"

definition feed_mc_payload :: "mesh_event \<Rightarrow> jw_call list" where
  "feed_mc_payload ev =
     (let m = ev_mc ev
      in (if ev_decrypted ev \<and> mc_payload_type m = MC_ADVERT then
            [JwU32 ''adv_type'' (ucast (mc_adv_type m)), JwStr ''adv_type_name'' (Some (adv_type_name (mc_adv_type m)))]
            @ (if mc_has_latlon m then
                 [JwF64 ''lat'' (f64_div (mc_lat_e6 m) 1000000), JwF64 ''lon'' (f64_div (mc_lon_e6 m) 1000000)] else [])
            @ u32_set ''extra1'' (ucast (mc_extra1 m)) @ u32_set ''extra2'' (ucast (mc_extra2 m)) else [])
         @ (if ev_decrypted ev \<and> mc_node_name m \<noteq> [] then
              [JwStr ''node_name'' (Some (mc_node_name m)), JwStr ''long_name'' (Some (mc_node_name m))] else [])
         @ if_set (ev_decrypted ev \<and> mc_text m \<noteq> []) (JwStr ''text'' (Some (mc_text m)))
         @ (if ev_decrypted ev \<and> mc_payload_type m = MC_GRP_TXT then
              [JwU32 ''txt_type'' (ucast (mc_txt_type m)), JwStr ''txt_type_name'' (Some (txt_type_name (mc_txt_type m)))] else [])
         @ if_set (ev_decrypted ev \<and> mc_path_hop_count m > 0) (JwU32 ''path_hop_count'' (of_nat (mc_path_hop_count m)))
         @ if_set (ev_decrypted ev \<and> mc_payload_type m = MC_ADVERT) (JwBool ''sig_valid'' (mc_sig_valid m))
         @ (if mc_payload_type m = MC_GRP_DATA \<and> ev_decrypted ev then
              [JwU32 ''data_type'' (ucast (mc_data_type m)), JwU32 ''data_len'' (ucast (mc_data_len m)),
               JwRaw ''telemetry'' (mc_telemetry_json m)] else [])
         @ (if mc_payload_type m = MC_MULTIPART then
              [JwU32 ''multipart_remaining'' (ucast (mc_multipart_remaining m)),
               JwStr ''multipart_inner_type'' (Some (mc_payload_type_name (mc_multipart_inner_type m)))]
              @ if_set (ev_decrypted ev) (JwU32 ''ack_crc'' (mc_timestamp m)) else [])
         @ (if mc_payload_type m = MC_CONTROL \<and> mc_ctl_subtype m \<noteq> [] then
              [JwStr ''ctl_subtype'' (Some (mc_ctl_subtype m)), JwU32 ''ctl_tag'' (mc_ctl_tag m)]
              @ (if mc_ctl_subtype m = ''NODE_DISCOVER_REQ'' then
                   JwU32 ''ctl_filter'' (ucast (mc_ctl_filter m)) # u32_set ''ctl_since'' (mc_ctl_since m)
                 else if mc_ctl_subtype m = ''NODE_DISCOVER_RESP'' then
                   [JwU32 ''adv_type'' (ucast (mc_adv_type m)),
                    JwStr ''adv_type_name'' (Some (adv_type_name (mc_adv_type m))),
                    JwF32 ''ctl_snr'' (f64_div (mc_ctl_snr_q4 m) 4)]
                 else []) else []))"

definition mc_members :: "feed_env \<Rightarrow> mesh_event \<Rightarrow> jw_call list" where
  "mc_members env ev =
     (let m = ev_mc ev
      in [JwStr ''station'' (fe_station_id env), JwF64 ''ts'' (fe_ts env)] @ feed_station env
         @ [JwStr ''protocol'' (Some ''meshcore''),
            JwStr ''mc_type'' (Some (if mc_type_name m \<noteq> [] then mc_type_name m else ''UNKNOWN'')),
            JwU32 ''route_type'' (word_of_int (mc_route_type m)),
            JwStr ''route_type_name'' (Some (route_type_name (mc_route_type m)))]
         @ feed_mc_route ev
         @ [JwU32 ''payload_type'' (word_of_int (mc_payload_type m)), JwU32 ''payload_ver'' (word_of_int (mc_payload_ver m)),
            JwBool ''decrypted'' (ev_decrypted ev)]
         @ feed_mc_radio ev @ feed_mc_payload ev)"

definition feed_serialize_event_meshcore :: "feed_env \<Rightarrow> mesh_event \<Rightarrow> jw_call list" where
  "feed_serialize_event_meshcore env ev = JwOpen # mc_members env ev @ [JwClose]"

text \<open>The call of \<^verbatim>\<open>node_db_remember\<close> at the end of the serializer, when it is made.\<close>

definition mc_remember :: "mesh_event \<Rightarrow> (u32 \<times> string \<times> string \<times> u32 \<times> u32) option" where
  "mc_remember ev =
     (let m = ev_mc ev; from_id = mc_derive_from_id ev;
          is_advert_named = (mc_payload_type m = MC_ADVERT \<and> mc_has_name m);
          is_ctl_discover_resp = (mc_payload_type m = MC_CONTROL \<and> mc_ctl_subtype m = ''NODE_DISCOVER_RESP'')
      in if ev_decrypted ev \<and> from_id \<noteq> 0 \<and> (is_advert_named \<or> is_ctl_discover_resp)
         then Some (from_id, mc_node_name m, [], 0, ucast (mc_adv_type m)) else None)"

subsection \<open>Observer report\<close>

text \<open>The broken-down time of \<^verbatim>\<open>gmtime_r\<close>, with the full year and the month from one.\<close>

record utc_time =
  ut_year :: nat
  ut_mon :: nat
  ut_mday :: nat
  ut_hour :: nat
  ut_min :: nat
  ut_sec :: nat
  ut_usec :: nat

definition snprintf :: "nat \<Rightarrow> string \<Rightarrow> string" where
  "snprintf cap s = take (cap - 1) s"

abbreviation dec_pad :: "nat \<Rightarrow> nat \<Rightarrow> string" where
  "dec_pad p n \<equiv> pad_digits p (dec_digits n)"

definition obs_time :: "utc_time \<Rightarrow> string" where
  "obs_time t = dec_pad 2 (ut_hour t) @ '':'' @ dec_pad 2 (ut_min t) @ '':'' @ dec_pad 2 (ut_sec t)"

definition obs_timestamp :: "utc_time \<Rightarrow> string" where
  "obs_timestamp t = dec_pad 4 (ut_year t) @ ''-'' @ dec_pad 2 (ut_mon t) @ ''-'' @ dec_pad 2 (ut_mday t)
     @ ''T'' @ obs_time t @ ''.'' @ dec_pad 6 (ut_usec t)"

definition obs_date :: "utc_time \<Rightarrow> string" where
  "obs_date t = dec_pad 2 (ut_mday t) @ ''/'' @ dec_pad 2 (ut_mon t) @ ''/'' @ dec_pad 4 (ut_year t)"

definition upper_hex :: "byte \<Rightarrow> char" where
  "upper_hex n = ''0123456789ABCDEF'' ! unat n"

definition byte_upper :: "byte \<Rightarrow> string" where
  "byte_upper b = [upper_hex (drop_bit 4 b AND 0xF), upper_hex (b AND 0xF)]"

text \<open>The hop loop: hop \<open>h\<close> of \<open>hops\<close>, with the text so far, while the buffer of 385 bytes has room.\<close>

function path_hops :: "bytes \<Rightarrow> nat \<Rightarrow> nat \<Rightarrow> nat \<Rightarrow> string \<Rightarrow> string" where
  "path_hops path hops size_of h out =
     (if h < hops \<and> length out + (4 + 2 * size_of) < 385 then
        path_hops path hops size_of (h + 1)
          (out @ (if h \<noteq> 0 then '' -> '' else []) @ concat (map byte_upper (take size_of (drop (h * size_of) path))))
      else out)"
  by auto
termination
  by (relation "measure (\<lambda>(path, hops, size_of, h, out). hops - h)") auto

declare path_hops.simps [simp del]

definition obs_path :: "mc_event \<Rightarrow> string" where
  "obs_path m =
     (let avail_hops = length (mc_hdr_path m) div mc_hdr_path_hash_size m;
          hops = (if mc_hdr_path_hash_count m > avail_hops then avail_hops else mc_hdr_path_hash_count m)
      in path_hops (mc_hdr_path m) hops (mc_hdr_path_hash_size m) 0 [])"

definition payload_bytes_of :: "mesh_event \<Rightarrow> bytes" where
  "payload_bytes_of ev = (case ev_payload ev of None \<Rightarrow> [] | Some p \<Rightarrow> p)"

definition obs_members :: "utc_time \<Rightarrow> string option \<Rightarrow> string option \<Rightarrow> mesh_event \<Rightarrow> jw_call list" where
  "obs_members t origin origin_id ev =
     (let m = ev_mc ev; is_direct = (mc_route_type m = 2 \<or> mc_route_type m = 3)
      in [JwStr ''origin'' (Some (case origin of None \<Rightarrow> ''observer'' | Some s \<Rightarrow> s)),
          JwStr ''origin_id'' (Some (case origin_id of None \<Rightarrow> [] | Some s \<Rightarrow> s)),
          JwStr ''timestamp'' (Some (snprintf 48 (obs_timestamp t))), JwStr ''type'' (Some ''PACKET''),
          JwStr ''direction'' (Some ''rx''), JwStr ''time'' (Some (snprintf 16 (obs_time t))),
          JwStr ''date'' (Some (snprintf 32 (obs_date t))),
          JwStr ''len'' (Some (snprintf 32 (dec_digits (length (ev_raw_hex ev) div 2)))),
          JwStr ''packet_type'' (Some (snprintf 32 (fmt_d (mc_payload_type m)))),
          JwStr ''route'' (Some (if is_direct then ''D'' else ''F'')),
          JwStr ''payload_len'' (Some (snprintf 32 (dec_digits (length (payload_bytes_of ev))))),
          JwStr ''raw'' (Some (ev_raw_hex ev))]
         @ if_set (f32_nonzero (ev_snr_db ev)) (JwStr ''SNR'' (Some (snprintf 32 (fmt_flt 1 (f32_of_bits (ev_snr_db ev))))))
         @ if_set (f32_nonzero (ev_rssi_db ev)) (JwStr ''RSSI'' (Some (snprintf 32 (fmt_flt 0 (f32_of_bits (ev_rssi_db ev))))))
         @ (if is_direct \<and> mc_hdr_path_hash_count m > 0 \<and> mc_hdr_path_hash_size m > 0
            then if_set (obs_path m \<noteq> []) (JwStr ''path'' (Some (obs_path m))) else []))"

definition feed_serialize_event_observer ::
  "utc_time \<Rightarrow> string option \<Rightarrow> string option \<Rightarrow> mesh_event \<Rightarrow> jw_call list" where
  "feed_serialize_event_observer t origin origin_id ev = JwOpen # obs_members t origin origin_id ev @ [JwClose]"

subsection \<open>The calls are well nested\<close>

lemma nested_station [nesting]: "nested (feed_station env)"
  unfolding feed_station_def by (auto intro!: nesting split: option.split)

lemma nested_crc_radio [nesting]: "nested (feed_crc ev)" "nested (feed_radio ev)"
  unfolding feed_crc_def feed_radio_def by (intro nesting; simp)+

lemma nested_mc_parts [nesting]:
  "nested (feed_mc_route ev)" "nested (feed_mc_radio ev)" "nested (feed_mc_payload ev)"
  unfolding feed_mc_route_def feed_mc_radio_def feed_mc_payload_def Let_def
  by (intro nesting; simp)+

lemma nested_mc [nesting]: "nested (mc_members env ev)"
  unfolding mc_members_def Let_def by (intro nesting; simp)

lemma nested_obs [nesting]: "nested (obs_members t origin origin_id ev)"
  unfolding obs_members_def Let_def by (intro nesting; simp)

text \<open>The observer report has no numbers and no fragments: every event can be reported.\<close>

lemma obs_printable: "list_all printable (obs_members t origin origin_id ev)"
  by (simp add: obs_members_def Let_def if_set_def)

end
