(* ===== verification/Feed.thy ===== *)
theory Feed
  imports Feed_Meshcore Meshtastic
begin

text \<open>
  The JSON output of \<^verbatim>\<open>src/feed.c\<close>: the line of an event, built by the JSON writer in a
  buffer of 2048 bytes, and the sinks it is handed to.  Sinks are tags, effects on other
  components are recorded; sockets and their setup are left out.
\<close>

subsection \<open>The line of a Meshtastic event\<close>

text \<open>What the serializer does besides writing.\<close>

datatype feed_effect =
    CotPosition mesh_position | GeofenceCheck u32 int int | CotAtak mesh_atak
  | NodeRemember u32 string string u32 u32

abbreviation (input) MESH_PORT_TEXT_MESSAGE :: u32 where "MESH_PORT_TEXT_MESSAGE \<equiv> 1"
abbreviation (input) MESH_PORT_REMOTE_HARDWARE :: u32 where "MESH_PORT_REMOTE_HARDWARE \<equiv> 2"
abbreviation (input) MESH_PORT_POSITION :: u32 where "MESH_PORT_POSITION \<equiv> 3"
abbreviation (input) MESH_PORT_NODEINFO :: u32 where "MESH_PORT_NODEINFO \<equiv> 4"
abbreviation (input) MESH_PORT_ROUTING :: u32 where "MESH_PORT_ROUTING \<equiv> 5"
abbreviation (input) MESH_PORT_ADMIN :: u32 where "MESH_PORT_ADMIN \<equiv> 6"
abbreviation (input) MESH_PORT_WAYPOINT :: u32 where "MESH_PORT_WAYPOINT \<equiv> 8"
abbreviation (input) MESH_PORT_DETECTION_SENSOR :: u32 where "MESH_PORT_DETECTION_SENSOR \<equiv> 10"
abbreviation (input) MESH_PORT_KEY_VERIFICATION :: u32 where "MESH_PORT_KEY_VERIFICATION \<equiv> 12"
abbreviation (input) MESH_PORT_PAXCOUNTER :: u32 where "MESH_PORT_PAXCOUNTER \<equiv> 34"
abbreviation (input) MESH_PORT_STORE_FORWARD :: u32 where "MESH_PORT_STORE_FORWARD \<equiv> 65"
abbreviation (input) MESH_PORT_RANGE_TEST :: u32 where "MESH_PORT_RANGE_TEST \<equiv> 66"
abbreviation (input) MESH_PORT_TELEMETRY :: u32 where "MESH_PORT_TELEMETRY \<equiv> 67"
abbreviation (input) MESH_PORT_TRACEROUTE :: u32 where "MESH_PORT_TRACEROUTE \<equiv> 70"
abbreviation (input) MESH_PORT_NEIGHBORINFO :: u32 where "MESH_PORT_NEIGHBORINFO \<equiv> 71"
abbreviation (input) MESH_PORT_ATAK_PLUGIN :: u32 where "MESH_PORT_ATAK_PLUGIN \<equiv> 72"
abbreviation (input) MESH_PORT_MAP_REPORT :: u32 where "MESH_PORT_MAP_REPORT \<equiv> 73"

text \<open>The fields of a payload that its decoder accepts.\<close>

definition decoded :: "('a \<Rightarrow> jw_call list) \<Rightarrow> bool \<times> 'a \<Rightarrow> jw_call list" where
  "decoded f r = (if fst r then f (snd r) else [])"

text \<open>The switch on the port number.\<close>

definition feed_port :: "u32 \<Rightarrow> bytes \<Rightarrow> jw_call list" where
  "feed_port port p =
     (if port = MESH_PORT_TEXT_MESSAGE then feed_text 256 p
      else if port = MESH_PORT_POSITION then decoded feed_position (mesh_decode_position p)
      else if port = MESH_PORT_NODEINFO then decoded feed_user (mesh_decode_user p)
      else if port = MESH_PORT_TELEMETRY then decoded feed_telemetry (mesh_decode_telemetry p)
      else if port = MESH_PORT_ATAK_PLUGIN then decoded feed_atak (mesh_decode_atak p)
      else if port = MESH_PORT_RANGE_TEST then feed_text 128 p
      else if port = MESH_PORT_ROUTING then decoded feed_routing (mesh_decode_routing p)
      else if port = MESH_PORT_TRACEROUTE then decoded feed_traceroute (mesh_decode_traceroute p)
      else if port = MESH_PORT_WAYPOINT then decoded feed_waypoint (mesh_decode_waypoint p)
      else if port = MESH_PORT_NEIGHBORINFO then decoded feed_neighborinfo (mesh_decode_neighborinfo p)
      else if port = MESH_PORT_KEY_VERIFICATION then decoded feed_keyverif (mesh_decode_keyverif p)
      else if port = MESH_PORT_MAP_REPORT then decoded feed_mapreport (mesh_decode_mapreport p)
      else if port = MESH_PORT_ADMIN then decoded feed_admin (mesh_decode_admin p)
      else if port = MESH_PORT_REMOTE_HARDWARE then decoded feed_remote_hw (mesh_decode_remote_hw p)
      else if port = MESH_PORT_DETECTION_SENSOR then decoded (str_set ''detection_text'') (mesh_decode_detection p)
      else if port = MESH_PORT_PAXCOUNTER then decoded feed_paxcounter (mesh_decode_paxcounter p)
      else if port = MESH_PORT_STORE_FORWARD then decoded feed_storeforward (mesh_decode_storeforward p)
      else [])"

text \<open>The calls of other components in the same switch.\<close>

definition feed_effects :: "u32 \<Rightarrow> u32 \<Rightarrow> bytes \<Rightarrow> feed_effect list" where
  "feed_effects src port p =
     (if port = MESH_PORT_POSITION then
        (let (ok, q) = mesh_decode_position p
         in if ok then CotPosition q # (if pos_have_lat q \<and> pos_have_lon q
                                        then [GeofenceCheck src (pos_lat_i q) (pos_lon_i q)] else []) else [])
      else if port = MESH_PORT_NODEINFO then
        (let (ok, u) = mesh_decode_user p
         in if ok then [NodeRemember src (c_text (usr_long_name u)) (c_text (usr_short_name u)) (usr_hw_model u) (usr_role u)]
            else [])
      else if port = MESH_PORT_ATAK_PLUGIN then
        (let (ok, a) = mesh_decode_atak p in if ok then [CotAtak a] else [])
      else if port = MESH_PORT_MAP_REPORT then
        (let (ok, mr) = mesh_decode_mapreport p
         in if ok then [NodeRemember src (c_text (mr_long_name mr)) (c_text (mr_short_name mr)) (mr_hw_model mr) (mr_role mr)]
            else [])
      else [])"

definition fields_trusted :: "mesh_event \<Rightarrow> bool" where
  "fields_trusted ev \<longleftrightarrow> ev_has_crc ev \<and> ev_payload_crc_ok ev \<or> \<not> ev_has_crc ev \<and> ev_decrypted ev"

definition feed_header :: "mesh_event \<Rightarrow> jw_call list" where
  "feed_header ev =
     (let h = ev_header ev
      in [JwStr ''from'' (Some (node_text (hd_from h))), JwStr ''to'' (Some (node_text (hd_to h))),
          JwU32 ''packet_id'' (hd_packet_id h), JwU32 ''channel_hash'' (ucast (hd_channel h))]
         @ if_set (ev_slot_id ev \<ge> 0) (JwU32 ''slot_id'' (word_of_int (ev_slot_id ev)))
         @ [JwU32 ''hop_limit'' (word_of_int (ev_hop_limit ev)), JwU32 ''hop_start'' (word_of_int (ev_hop_start ev))]
         @ u32_set ''relay_node'' (ucast (hd_relay_node h))
         @ if_set (ev_want_ack ev) (JwBool ''want_ack'' True) @ if_set (ev_via_mqtt ev) (JwBool ''via_mqtt'' True)
         @ f32_set ''rssi_db'' (ev_rssi_db ev) @ f32_set ''snr_db'' (ev_snr_db ev)
         @ feed_crc ev
         @ [JwBool ''fields_trusted'' (fields_trusted ev)]
         @ if_set (ev_raw_hex ev \<noteq> []) (JwStr ''raw_hex'' (Some (ev_raw_hex ev)))
         @ if_set (f32_gt (ev_cfo_hz ev) 0x42C80000 \<or> f32_gt 0xC2C80000 (ev_cfo_hz ev))
             (JwF32 ''cfo_hz'' (f32_of_bits (ev_cfo_hz ev))))"

definition feed_timing :: "feed_env \<Rightarrow> mesh_event \<Rightarrow> jw_call list" where
  "feed_timing env ev =
     (if ev_station_t_ns ev \<noteq> 0 \<and> fe_station_id env \<noteq> None then
        [JwU64 ''station_t_ns'' (ev_station_t_ns ev), JwU32 ''station_t_acc_ns'' (ev_station_t_acc_ns ev)]
        @ (if ev_preamble_lock_sample_idx ev \<noteq> 0 then
             [JwU64 ''preamble_lock_sample_idx'' (ev_preamble_lock_sample_idx ev)]
             @ f32_set ''preamble_lock_sample_frac'' (ev_preamble_lock_sample_frac ev) else [])
        @ u64_set ''sample_rate_sps'' (ev_sample_rate_sps ev)
        @ u64_set ''preamble_lock_t_ns'' (ev_preamble_lock_t_ns ev)
      else [])"

definition feed_inner :: "mesh_event \<Rightarrow> jw_call list" where
  "feed_inner ev =
     (if ev_decrypted ev then
        if_set (ev_channel_name ev \<noteq> []) (JwStr ''channel_name'' (Some (ev_channel_name ev)))
        @ [JwU32 ''portnum'' (ev_portnum ev), JwStr ''port_name'' (Some (mesh_port_name (ev_portnum ev)))]
        @ feed_port (ev_portnum ev) (payload_bytes_of ev)
      else [JwBool ''decrypted'' False])"

definition feed_outer :: "feed_env \<Rightarrow> mesh_event \<Rightarrow> jw_call list" where
  "feed_outer env ev =
     [JwStr ''station'' (fe_station_id env), JwF64 ''ts'' (fe_ts env)] @ feed_station env
     @ feed_header ev @ feed_timing env ev @ feed_radio ev
     @ if_set (ev_sf ev > 0 \<and> ev_preset_name ev \<noteq> []) (JwStr ''preset'' (Some (ev_preset_name ev)))"

definition mesh_members :: "feed_env \<Rightarrow> mesh_event \<Rightarrow> jw_call list" where
  "mesh_members env ev = feed_outer env ev @ feed_inner ev"

definition NEWLINE :: char where "NEWLINE = CHR 0x0A"

definition serialize_event :: "feed_env \<Rightarrow> mesh_event \<Rightarrow> jw_call list" where
  "serialize_event env ev =
     (if is_meshcore (ev_mc ev) then feed_serialize_event_meshcore env ev
      else JwOpen # mesh_members env ev @ JwClose # [JwPutc NEWLINE])"

definition serialize_effects :: "mesh_event \<Rightarrow> feed_effect list" where
  "serialize_effects ev =
     (if is_meshcore (ev_mc ev) then
        (case mc_remember ev of None \<Rightarrow> [] | Some (i, l, s, h, r) \<Rightarrow> [NodeRemember i l s h r])
      else if ev_decrypted ev then feed_effects (hd_from (ev_header ev)) (ev_portnum ev) (payload_bytes_of ev)
      else [])"

subsection \<open>Publishing\<close>

datatype feed_sink = ToStdout | ToUdp nat | ToMqtt | ToZmq | ToWeb | ToArchive | ToDb

record feed_cfg =
  fc_trusted_only :: bool
  fc_udp_feed_count :: nat
  fc_mqtt_observer :: bool
  fc_mqtt_observer_id :: "string option"

definition event_line :: "feed_env \<Rightarrow> mesh_event \<Rightarrow> string" where
  "event_line env ev = jw_buf (jw_run (serialize_event env ev) (jw_init 2048))"

definition observer_line :: "feed_cfg \<Rightarrow> feed_env \<Rightarrow> utc_time \<Rightarrow> mesh_event \<Rightarrow> string" where
  "observer_line cfg env now ev =
     jw_buf (jw_run (feed_serialize_event_observer now
       (case fe_station_id env of None \<Rightarrow> Some ''observer'' | Some s \<Rightarrow> Some s) (fc_mqtt_observer_id cfg) ev)
       (jw_init 1024))"

definition feed_publish_event :: "feed_cfg \<Rightarrow> feed_env \<Rightarrow> utc_time \<Rightarrow> mesh_event \<Rightarrow> (feed_sink \<times> string) list \<times> feed_effect list" where
  "feed_publish_event cfg env now ev =
     (if fc_trusted_only cfg \<and> \<not> fields_trusted ev then ([], [])
      else let line = event_line env ev
           in ([(ToStdout, line)]
               @ map (\<lambda>i. (ToUdp i, line)) [0..<fc_udp_feed_count cfg]
               @ (if fc_mqtt_observer cfg
                  then (if is_meshcore (ev_mc ev) then [(ToMqtt, observer_line cfg env now ev)] else [])
                  else [(ToMqtt, line)])
               @ [(ToZmq, line), (ToWeb, line), (ToArchive, line), (ToDb, line)],
               serialize_effects ev))"

subsection \<open>The line as a JSON value\<close>

lemma nested_decoded [nesting]: "(\<And>x. nested (f x)) \<Longrightarrow> nested (decoded f r)"
  by (simp add: decoded_def nesting)

lemma nested_port [nesting]: "nested (feed_port port p)"
  unfolding feed_port_def by (intro nesting)

lemma nested_mesh_parts [nesting]:
  "nested (feed_header ev)" "nested (feed_timing env ev)" "nested (feed_inner ev)"
  unfolding feed_header_def feed_timing_def feed_inner_def Let_def by (intro nesting; simp)+

lemma nested_mesh [nesting]: "nested (feed_outer env ev)" "nested (mesh_members env ev)"
  unfolding mesh_members_def feed_outer_def by (intro nesting; simp)+

interpretation mesh_line: json_serializer "\<lambda>(env, ev). mesh_members env ev" "[JwPutc NEWLINE]" 2048
  by unfold_locales (auto simp: nested_mesh ends_number_def num_char_def digit_char_def NEWLINE_def)

interpretation mc_line: json_serializer "\<lambda>(env, ev). mc_members env ev" "[]" 2048
  by unfold_locales (auto simp: nested_mc)

interpretation obs_line: json_serializer "\<lambda>(t, origin, origin_id, ev). obs_members t origin origin_id ev" "[]" 1024
  by unfold_locales (auto simp: nested_obs)

lemma event_line_json:
  assumes "\<not> is_meshcore (ev_mc ev)" "list_all printable (mesh_members env ev)"
    and "length (calls_text (serialize_event env ev) True) < 2048"
  shows "json_read (event_line env ev) = Some (JObj (members (mesh_members env ev)), [NEWLINE])"
  using mesh_line.line_read [of "(env, ev)"] assms by (simp add: event_line_def serialize_event_def)

lemma meshcore_line_json:
  assumes "is_meshcore (ev_mc ev)" "list_all printable (mc_members env ev)"
    and "length (calls_text (serialize_event env ev) True) < 2048"
  shows "json_read (event_line env ev) = Some (JObj (members (mc_members env ev)), [])"
  using mc_line.line_read [of "(env, ev)"] assms
  by (simp add: event_line_def serialize_event_def feed_serialize_event_meshcore_def)

text \<open>The members of an event by the parts of the serializer.\<close>

lemmas member_simps = members_append members_Cons members_single nesting list_all_append
  list.pred_inject field_call.simps printable.simps simp_thms set_append Un_iff list.set insert_iff

lemma mesh_members_parts:
  assumes "list_all printable (mesh_members env ev)"
  shows "set (members (feed_header ev)) \<subseteq> set (members (mesh_members env ev))"
    "set (members (feed_inner ev)) \<subseteq> set (members (mesh_members env ev))"
  using assms unfolding mesh_members_def feed_outer_def subset_iff
  by (simp_all only: member_simps) blast+

lemma header_members:
  assumes "list_all printable (feed_header ev)"
  shows "(''from'', JStr (node_text (hd_from (ev_header ev)))) \<in> set (members (feed_header ev))"
    "(''fields_trusted'', JBool (fields_trusted ev)) \<in> set (members (feed_header ev))"
  using assms unfolding feed_header_def Let_def
  by (simp_all only: member_simps)


lemma printable_parts:
  assumes "list_all printable (mesh_members env ev)"
  shows "list_all printable (feed_header ev)" "list_all printable (feed_inner ev)"
  using assms by (simp_all add: mesh_members_def feed_outer_def)

lemma inner_text:
  assumes "list_all printable (feed_inner ev)" "ev_decrypted ev" "ev_portnum ev = MESH_PORT_TEXT_MESSAGE"
  shows "(''text'', JStr (c_text (take 255 (payload_bytes_of ev)))) \<in> set (members (feed_inner ev))"
proof -
  have i: "feed_inner ev = if_set (ev_channel_name ev \<noteq> []) (JwStr ''channel_name'' (Some (ev_channel_name ev)))
      @ [JwU32 ''portnum'' 1, JwStr ''port_name'' (Some (mesh_port_name 1)),
         JwStr ''text'' (Some (c_text (take 255 (payload_bytes_of ev))))]"
    using assms(2,3) by (simp add: feed_inner_def feed_port_def feed_text_def)
  show ?thesis using assms(1) unfolding i by (simp only: member_simps)
qed

lemma inner_position:
  assumes "list_all printable (feed_inner ev)" "ev_decrypted ev" "ev_portnum ev = MESH_PORT_POSITION"
    and "mesh_decode_position (payload_bytes_of ev) = (True, q)"
  shows "set (members (feed_position q)) \<subseteq> set (members (feed_inner ev))"
proof -
  have i: "feed_inner ev = if_set (ev_channel_name ev \<noteq> []) (JwStr ''channel_name'' (Some (ev_channel_name ev)))
      @ [JwU32 ''portnum'' 3, JwStr ''port_name'' (Some (mesh_port_name 3))] @ feed_position q"
    using assms(2-4) by (simp add: feed_inner_def feed_port_def decoded_def)
  show ?thesis using assms(1) unfolding i subset_iff by (simp only: member_simps) blast
qed

lemma f64_deg_fmt:
  assumes "\<bar>i\<bar> \<le> 2 ^ 31"
  shows "members [JwF64 n (f64_deg i)] = [(n, JNum (decimal 7 i))]" "printable (JwF64 n (f64_deg i))"
proof -
  obtain x where x: "f64_deg i = Finite x" by (simp add: f64_deg_def f64_signed_def)
  then have "fmt_f 7 x = decimal 7 i" using fmt_deg [OF assms] by (simp add: fmt_flt_def)
  then show "members [JwF64 n (f64_deg i)] = [(n, JNum (decimal 7 i))]" "printable (JwF64 n (f64_deg i))"
    using x by (simp_all add: members_single finite_flt_def)
qed

lemma position_members:
  assumes "list_all printable (feed_position q)"
    and "pos_have_lat q" "\<bar>pos_lat_i q\<bar> \<le> 2 ^ 31" "pos_have_lon q" "\<bar>pos_lon_i q\<bar> \<le> 2 ^ 31"
  shows "(''lat'', JNum (decimal 7 (pos_lat_i q))) \<in> set (members (feed_position q))"
    "(''lon'', JNum (decimal 7 (pos_lon_i q))) \<in> set (members (feed_position q))"
proof -
  have s: "if_set True c = [c]" for c by (simp add: if_set_def)
  show "(''lat'', JNum (decimal 7 (pos_lat_i q))) \<in> set (members (feed_position q))"
    "(''lon'', JNum (decimal 7 (pos_lon_i q))) \<in> set (members (feed_position q))"
    using assms(1) unfolding feed_position_def eqTrueI [OF assms(2)] eqTrueI [OF assms(4)] s
    by (simp_all only: member_simps f64_deg_fmt [OF assms(3)] f64_deg_fmt [OF assms(5)])
qed

subsection \<open>Decoded angles\<close>

definition angles_ok :: "mesh_position \<Rightarrow> bool" where
  "angles_ok q \<longleftrightarrow> \<bar>pos_lat_i q\<bar> \<le> 2 ^ 31 \<and> \<bar>pos_lon_i q\<bar> \<le> 2 ^ 31"

lemma sint_u32_abs: "\<bar>sint (v :: u32)\<bar> \<le> 2 ^ 31"
  using sint_greater_eq [of v] sint_less [of v] by simp

lemma angles_upd:
  "angles_ok (s\<lparr> pos_altitude_m := v0, pos_have_alt := b \<rparr>) = angles_ok s"
  "angles_ok (s\<lparr> pos_time := v1, pos_have_time := b \<rparr>) = angles_ok s"
  "angles_ok (s\<lparr> pos_location_source := v2 \<rparr>) = angles_ok s"
  "angles_ok (s\<lparr> pos_altitude_source := v3 \<rparr>) = angles_ok s"
  "angles_ok (s\<lparr> pos_timestamp := v4, pos_have_timestamp := b \<rparr>) = angles_ok s"
  "angles_ok (s\<lparr> pos_timestamp_millis_adjust := v5 \<rparr>) = angles_ok s"
  "angles_ok (s\<lparr> pos_altitude_hae_m := v6, pos_have_alt_hae := b \<rparr>) = angles_ok s"
  "angles_ok (s\<lparr> pos_altitude_geoidal_separation_m := v7, pos_have_alt_geosep := b \<rparr>) = angles_ok s"
  "angles_ok (s\<lparr> pos_pdop_x100 := v8 \<rparr>) = angles_ok s"
  "angles_ok (s\<lparr> pos_hdop_x100 := v9 \<rparr>) = angles_ok s"
  "angles_ok (s\<lparr> pos_vdop_x100 := v10 \<rparr>) = angles_ok s"
  "angles_ok (s\<lparr> pos_gps_accuracy_mm := v11 \<rparr>) = angles_ok s"
  "angles_ok (s\<lparr> pos_ground_speed_mps := v12, pos_have_ground_speed := b \<rparr>) = angles_ok s"
  "angles_ok (s\<lparr> pos_ground_track_x100 := v13, pos_have_ground_track := b \<rparr>) = angles_ok s"
  "angles_ok (s\<lparr> pos_fix_quality := v14 \<rparr>) = angles_ok s"
  "angles_ok (s\<lparr> pos_fix_type := v15 \<rparr>) = angles_ok s"
  "angles_ok (s\<lparr> pos_sats_in_view := v16 \<rparr>) = angles_ok s"
  "angles_ok (s\<lparr> pos_sensor_id := v17 \<rparr>) = angles_ok s"
  "angles_ok (s\<lparr> pos_next_update_s := v18 \<rparr>) = angles_ok s"
  "angles_ok (s\<lparr> pos_seq_number := v19 \<rparr>) = angles_ok s"
  "angles_ok (s\<lparr> pos_precision_bits := v20 \<rparr>) = angles_ok s"
  by (simp_all add: angles_ok_def)

lemma angles_set:
  "angles_ok s \<Longrightarrow> angles_ok (s\<lparr> pos_lat_i := sint (v :: u32), pos_have_lat := b \<rparr>)"
  "angles_ok s \<Longrightarrow> angles_ok (s\<lparr> pos_lon_i := sint (v :: u32), pos_have_lon := b \<rparr>)"
  by (simp_all add: angles_ok_def sint_u32_abs del: power_numeral)

lemma position_angles:
  assumes "mesh_decode_position p = (ok, q)"
  shows "angles_ok q"
proof -
  have "angles_ok (snd (pb_loop position_field mesh_position0 p))"
  proof (rule pb_loop_invariant)
    fix s fld wt p assume s: "angles_ok s"
    show "angles_ok (fst (position_field s fld wt p))"
      unfolding position_field_def
      using s by (simp add: on_read_wt_keeps [where P = angles_ok] on_skip_keeps [where P = angles_ok] angles_upd angles_set)
  qed (simp add: angles_ok_def mesh_position0_def)
  then show ?thesis using assms by (auto simp: mesh_decode_position_def split: prod.splits pb_end.splits)
qed

definition sample_env :: feed_env where
  "sample_env = \<lparr> fe_station_id = None, fe_ts = Finite \<lparr> f_neg = False, f_man = 0, f_exp = 0 \<rparr>, fe_station = None \<rparr>"

definition sample_mesh :: "u32 \<Rightarrow> bytes \<Rightarrow> mesh_event" where
  "sample_mesh port p = mesh_event0\<lparr> ev_decrypted := True, ev_portnum := port, ev_payload := Some p \<rparr>"

lemma sample_not_meshcore: "\<not> is_meshcore (ev_mc (sample_mesh port p))"
  by (simp add: sample_mesh_def mesh_event0_def mc_event0_def)

lemma sample_outer:
  "feed_outer sample_env (sample_mesh port p) =
     [JwStr ''station'' None, JwF64 ''ts'' (Finite \<lparr> f_neg = False, f_man = 0, f_exp = 0 \<rparr>),
      JwStr ''from'' (Some (node_text 0)), JwStr ''to'' (Some (node_text 0)), JwU32 ''packet_id'' 0, JwU32 ''channel_hash'' 0,
      JwU32 ''slot_id'' 0, JwU32 ''hop_limit'' 0, JwU32 ''hop_start'' 0, JwBool ''fields_trusted'' True]"
  by (simp add: feed_outer_def feed_station_def feed_header_def feed_timing_def feed_radio_def feed_crc_def sample_env_def
      sample_mesh_def mesh_event0_def mesh_header0_def if_set_def u32_set_def f32_set_def f32_nonzero_def f32_gt_def
      f32_key_def f32_nan_def fields_trusted_def take_bit_eq_mod)

lemma small_digits: "dec_digits 0 = ''0''" "dec_digits 1 = ''1''" "dec_digits (Suc 0) = ''1''" "dec_digits 67 = ''67''"
  by (simp_all add: dec_digits.simps char_of_eq_iff)

lemma node_text_0: "node_text 0 = ''!00000000''"
  by (simp add: node_text_def hex_text_def hex_lower_def upt_rec char_of_eq_iff)

lemma zero_text: "fmt_f 7 \<lparr> f_neg = False, f_man = 0, f_exp = 0 \<rparr> = ''0.0000000''"
proof -
  have "pad_digits 7 ''0'' = ''0000000''" by (simp add: pad_digits_def numeral_eq_Suc)
  then show ?thesis by (simp add: fmt_f_def small_digits)
qed

lemmas sample_simps = sample_not_meshcore feed_inner_def feed_port_def sample_mesh_def mesh_event0_def mc_event0_def if_set_def
  payload_bytes_of_def mesh_port_name_def PORT_NAMES_def name_text_def sep_def quoted_def esc_char_def QUOTE_def
  BACKSLASH_def zero_text fmt_flt_def small_digits node_text_0 c_text_def c_str_def

lemma sample_fits:
  "length (calls_text (serialize_event sample_env (sample_mesh 1 [0x68, 0x69, 0x0a])) True) < 2048"
  "list_all printable (mesh_members sample_env (sample_mesh 1 [0x68, 0x69, 0x0a]))"
  unfolding serialize_event_def mesh_members_def sample_outer
  by (simp_all add: sample_simps feed_text_def finite_flt_def)

subsection \<open>Claims\<close>



text \<open>
  C8: a position goes from the air to the feed without loss.  When the position decoder accepts
  the payload, the latitude and longitude in the line, which the program computes in double
  precision and prints with seven decimals, are exactly the transmitted integers divided by ten million.
\<close>

theorem position_line_exact:
  assumes "\<not> is_meshcore (ev_mc ev)" "list_all printable (mesh_members env ev)"
    and "length (calls_text (serialize_event env ev) True) < 2048"
    and "ev_decrypted ev" "ev_portnum ev = 3" "mesh_decode_position (payload_bytes_of ev) = (True, q)"
    and "pos_have_lat q" "pos_have_lon q"
  shows "\<exists>fs. json_read (event_line env ev) = Some (JObj fs, [NEWLINE])
    \<and> (''lat'', JNum (decimal 7 (pos_lat_i q))) \<in> set fs \<and> (''lon'', JNum (decimal 7 (pos_lon_i q))) \<in> set fs"
proof -
  have a: "\<bar>pos_lat_i q\<bar> \<le> 2 ^ 31" "\<bar>pos_lon_i q\<bar> \<le> 2 ^ 31"
    using position_angles [OF assms(6)] by (simp_all add: angles_ok_def)
  have p: "list_all printable (feed_position q)"
    using printable_parts(2) [OF assms(2)] assms(4-6) by (simp add: feed_inner_def feed_port_def decoded_def)
  show ?thesis
    using event_line_json [OF assms(1-3)] position_members [OF p assms(7) a(1) assms(8) a(2)]
      inner_position [OF printable_parts(2) [OF assms(2)] assms(4-6)] mesh_members_parts(2) [OF assms(2)] by blast
qed

definition pos_payload :: bytes where
  "pos_payload = [0x0D, 0x15, 0xCD, 0x5B, 0x07, 0x15, 0xEB, 0x32, 0xA4, 0xF8]"

lemma pos_payload_decoded:
  "mesh_decode_position pos_payload =
     (True, mesh_position0\<lparr> pos_lat_i := 123456789, pos_have_lat := True, pos_lon_i := - 123456789, pos_have_lon := True \<rparr>)"
  by code_simp

lemma pos_sample:
  "feed_inner (sample_mesh 3 pos_payload) =
     [JwU32 ''portnum'' 3, JwStr ''port_name'' (Some ''POSITION_APP''),
      JwF64 ''lat'' (f64_deg 123456789), JwF64 ''lon'' (f64_deg (- 123456789))]"
  by (simp add: feed_inner_def sample_mesh_def mesh_event0_def if_set_def feed_port_def payload_bytes_of_def decoded_def
      pos_payload_decoded feed_position_def mesh_position0_def i32_set_def u32_set_def mesh_port_name_def PORT_NAMES_def)

lemma pos_sample_fits:
  "length (calls_text (serialize_event sample_env (sample_mesh 3 pos_payload)) True) < 2048"
  "list_all printable (mesh_members sample_env (sample_mesh 3 pos_payload))"
proof -
  have d: "dec_digits 3 = ''3''" "dec_digits 12 = ''12''" "dec_digits 3456789 = ''3456789''"
    by (simp_all add: dec_digits.simps char_of_eq_iff)
  have f: "fmt_flt 7 (f64_deg 123456789) = ''12.3456789''" "fmt_flt 7 (f64_deg (- 123456789)) = ''-12.3456789''"
    by (simp_all add: fmt_deg decimal_def d pad_digits_def)
  have fin: "finite_flt (f64_deg i)" "finite_flt (Finite x)" for i x by (simp_all add: f64_deg_def f64_signed_def finite_flt_def)
  show "length (calls_text (serialize_event sample_env (sample_mesh 3 pos_payload)) True) < 2048"
    "list_all printable (mesh_members sample_env (sample_mesh 3 pos_payload))"
    unfolding serialize_event_def mesh_members_def sample_outer pos_sample
    using sample_not_meshcore [of 3 pos_payload]
    by (simp_all add: name_text_def sep_def quoted_def esc_char_def QUOTE_def BACKSLASH_def zero_text fmt_flt_def [of 7 "Finite _"]
        small_digits node_text_0 d f fin)
qed

theorem position_line_exact_witness:
  "\<exists>fs. json_read (event_line sample_env (sample_mesh 3 pos_payload)) = Some (JObj fs, [NEWLINE])
     \<and> (''lat'', JNum (decimal 7 123456789)) \<in> set fs"
proof -
  have "payload_bytes_of (sample_mesh 3 pos_payload) = pos_payload" by (simp add: sample_mesh_def payload_bytes_of_def)
  then have "mesh_decode_position (payload_bytes_of (sample_mesh 3 pos_payload)) =
     (True, mesh_position0\<lparr> pos_lat_i := 123456789, pos_have_lat := True, pos_lon_i := - 123456789, pos_have_lon := True \<rparr>)"
    using pos_payload_decoded by simp
  from position_line_exact [OF sample_not_meshcore pos_sample_fits(2,1) _ _ this]
  show ?thesis by (auto simp: sample_mesh_def)
qed


definition nan_payload :: bytes where
  "nan_payload = [0x12, 5, 0x15, 0, 0, 0xC0, 0x7F]"

lemma nan_decoded:
  "mesh_decode_telemetry nan_payload =
     (True, mesh_telemetry0\<lparr> tel_device := device_metrics0\<lparr> dm_voltage := 0x7FC00000, dm_have := True \<rparr>, tel_any := True \<rparr>)"
  by code_simp

lemma nan_bits: "f32_of_bits 0x7FC00000 = Not_A_Number False" "f32_of_bits 0 = Finite \<lparr> f_neg = False, f_man = 0, f_exp = - 149 \<rparr>"
  by (simp_all add: f32_of_bits_def Let_def)

lemma nan_sample:
  "feed_inner (sample_mesh 67 nan_payload) =
     [JwU32 ''portnum'' 67, JwStr ''port_name'' (Some ''TELEMETRY_APP''), JwOpenArray ''device'', JwElemOpen,
      JwU32 ''battery'' 0, JwF32 ''voltage'' (Not_A_Number False),
      JwF32 ''ch_util'' (Finite \<lparr> f_neg = False, f_man = 0, f_exp = - 149 \<rparr>),
      JwF32 ''air_tx'' (Finite \<lparr> f_neg = False, f_man = 0, f_exp = - 149 \<rparr>), JwU32 ''uptime'' 0, JwElemClose, JwCloseArray]"
  by (simp add: feed_inner_def sample_mesh_def mesh_event0_def if_set_def feed_port_def payload_bytes_of_def decoded_def
      nan_decoded feed_telemetry_def mesh_telemetry0_def device_metrics0_def env_metrics0_def power_metrics0_def
      air_quality0_def local_stats0_def health_metrics0_def host_metrics0_def traffic_mgmt0_def u32_set_def
      obj_array_def feed_device_def nan_bits mesh_port_name_def PORT_NAMES_def)

lemma nan_sample_fits:
  "length (calls_text (serialize_event sample_env (sample_mesh 67 nan_payload)) True) < 2048"
  "list_all printable (feed_outer sample_env (sample_mesh 67 nan_payload))"
proof -
  have z: "fmt_f 4 \<lparr> f_neg = False, f_man = 0, f_exp = - 149 \<rparr> = ''0.0000''"
  proof -
    have "pad_digits 4 ''0'' = ''0000''" by (simp add: pad_digits_def numeral_eq_Suc)
    then show ?thesis by (simp add: fmt_f_def small_digits round_half_even_def)
  qed
  show "length (calls_text (serialize_event sample_env (sample_mesh 67 nan_payload)) True) < 2048"
    "list_all printable (feed_outer sample_env (sample_mesh 67 nan_payload))"
    unfolding serialize_event_def mesh_members_def sample_outer nan_sample
    using sample_not_meshcore [of 67 nan_payload]
    by (simp_all add: name_text_def sep_def quoted_def esc_char_def QUOTE_def BACKSLASH_def zero_text fmt_flt_def
        small_digits node_text_0 z finite_flt_def)
qed


lemma mc_members_parts:
  assumes "list_all printable (mc_members env ev)"
  shows "(''protocol'', JStr ''meshcore'') \<in> set (members (mc_members env ev))"
    "set (members (feed_mc_payload ev)) \<subseteq> set (members (mc_members env ev))"
    "list_all printable (feed_mc_payload ev)"
    "(''decrypted'', JBool (ev_decrypted ev)) \<in> set (members (mc_members env ev))"
proof -
  show "(''protocol'', JStr ''meshcore'') \<in> set (members (mc_members env ev))"
    using assms unfolding mc_members_def Let_def by (simp_all only: member_simps)
  show "(''decrypted'', JBool (ev_decrypted ev)) \<in> set (members (mc_members env ev))"
    using assms unfolding mc_members_def Let_def by (simp_all only: member_simps)
  show "set (members (feed_mc_payload ev)) \<subseteq> set (members (mc_members env ev))"
    using assms unfolding mc_members_def Let_def subset_iff by (simp_all only: member_simps) blast
  show "list_all printable (feed_mc_payload ev)" using assms by (simp add: mc_members_def Let_def)
qed

lemma mc_payload_text:
  assumes "list_all printable (feed_mc_payload ev)" "ev_decrypted ev" "mc_text (ev_mc ev) \<noteq> []"
  shows "(''text'', JStr (mc_text (ev_mc ev))) \<in> set (members (feed_mc_payload ev))"
proof -
  have s: "if_set (ev_decrypted ev \<and> mc_text (ev_mc ev) \<noteq> []) c = [c]" for c using assms(2,3) by (simp add: if_set_def)
  show ?thesis using assms(1) unfolding feed_mc_payload_def Let_def s by (simp only: member_simps)
qed


definition sample_mc :: mesh_event where
  "sample_mc = mesh_event0\<lparr> ev_decrypted := True, ev_mc := mc_event0\<lparr> is_meshcore := True, mc_payload_type := 5, mc_text := ''hi'' \<rparr> \<rparr>"

lemma sample_mc_members:
  "mc_members sample_env sample_mc =
     [JwStr ''station'' None, JwF64 ''ts'' (Finite \<lparr> f_neg = False, f_man = 0, f_exp = 0 \<rparr>),
      JwStr ''protocol'' (Some ''meshcore''), JwStr ''mc_type'' (Some ''UNKNOWN''), JwU32 ''route_type'' 0,
      JwStr ''route_type_name'' (Some ''transport_flood''), JwU32 ''payload_type'' 5, JwU32 ''payload_ver'' 0,
      JwBool ''decrypted'' True, JwStr ''from'' (Some (node_text 0x80000000)), JwU32 ''slot_id'' 0,
      JwStr ''text'' (Some ''hi''), JwU32 ''txt_type'' 0, JwStr ''txt_type_name'' (Some ''PLAIN'')]"
  by (simp add: mc_members_def feed_station_def sample_env_def sample_mc_def mesh_event0_def mc_event0_def route_type_name_def
      feed_mc_route_def feed_mc_radio_def feed_mc_payload_def if_set_def u32_set_def f32_set_def f32_nonzero_def
      feed_crc_def feed_radio_def mc_derive_from_id_def txt_type_name_def)

lemma sample_mc_fits:
  "length (calls_text (serialize_event sample_env sample_mc) True) < 2048"
  "list_all printable (mc_members sample_env sample_mc)" "is_meshcore (ev_mc sample_mc)"
proof -
  have m: "is_meshcore (ev_mc sample_mc)" by (simp add: sample_mc_def)
  have d: "dec_digits 5 = ''5''" by (simp add: dec_digits.simps char_of_eq_iff)
  have n: "node_text 0x80000000 = ''!80000000''"
    by (simp add: node_text_def hex_text_def hex_lower_def upt_rec char_of_eq_iff)
  show "length (calls_text (serialize_event sample_env sample_mc) True) < 2048"
    "list_all printable (mc_members sample_env sample_mc)" "is_meshcore (ev_mc sample_mc)"
    unfolding serialize_event_def feed_serialize_event_meshcore_def sample_mc_members
    using m by (simp_all add: name_text_def sep_def quoted_def esc_char_def QUOTE_def BACKSLASH_def zero_text fmt_flt_def
        small_digits d n finite_flt_def)
qed


lemma no_breaks_if:
  "list_all P (if b then xs else ys) \<longleftrightarrow> (b \<longrightarrow> list_all P xs) \<and> (\<not> b \<longrightarrow> list_all P ys)"
  by simp

lemma no_breaks_calls:
  "\<not> breaks JwOpen" "\<not> breaks JwClose" "\<not> breaks (JwStr n v)" "\<not> breaks (JwU32 n w)" "\<not> breaks (JwU64 n w')"
  "\<not> breaks (JwF32 n x)" "\<not> breaks (JwF64 n x)" "\<not> breaks (JwBool n b)" "breaks (JwRaw n s) \<longleftrightarrow> \<not> clean s"
  by (simp_all add: breaks_def clean_def not_le Bex_def)

lemma no_breaks_sets:
  "list_all (\<lambda>c. \<not> breaks c) (if_set b c) \<longleftrightarrow> (b \<longrightarrow> \<not> breaks c)"
  "list_all (\<lambda>c. \<not> breaks c) (u32_set n w)" "list_all (\<lambda>c. \<not> breaks c) (u64_set n w')"
  "list_all (\<lambda>c. \<not> breaks c) (f32_set n w)"
  by (simp_all add: if_set_def u32_set_def u64_set_def f32_set_def no_breaks_calls)

lemma no_breaks_parts:
  "list_all (\<lambda>c. \<not> breaks c) (feed_station env)" "list_all (\<lambda>c. \<not> breaks c) (feed_mc_route ev)"
  "list_all (\<lambda>c. \<not> breaks c) (feed_mc_radio ev)"
  "clean (mc_telemetry_json (ev_mc ev)) \<Longrightarrow> list_all (\<lambda>c. \<not> breaks c) (feed_mc_payload ev)"
proof -
  show "list_all (\<lambda>c. \<not> breaks c) (feed_station env)"
    by (simp add: feed_station_def no_breaks_calls split: option.split)
  show "list_all (\<lambda>c. \<not> breaks c) (feed_mc_route ev)"
    unfolding feed_mc_route_def Let_def by (simp only: list_all_append no_breaks_if no_breaks_sets no_breaks_calls list.pred_inject simp_thms)
  show "list_all (\<lambda>c. \<not> breaks c) (feed_mc_radio ev)"
    unfolding feed_mc_radio_def feed_crc_def feed_radio_def Let_def
    by (simp only: list_all_append no_breaks_if no_breaks_sets no_breaks_calls list.pred_inject simp_thms)
  show "list_all (\<lambda>c. \<not> breaks c) (feed_mc_payload ev)" if "clean (mc_telemetry_json (ev_mc ev))"
    unfolding feed_mc_payload_def Let_def
    by (simp only: that list_all_append no_breaks_if no_breaks_sets no_breaks_calls list.pred_inject simp_thms)
qed

text \<open>
  C36: MeshCore events are not separated in the output.  The line of a MeshCore event never contains
  a line feed, neither at its end nor inside, so two events in a row reach a reader of
  newline-delimited JSON as one line.
\<close>

theorem meshcore_lines_run_together:
  assumes "is_meshcore (ev_mc a)" "is_meshcore (ev_mc b)"
    and "clean (mc_telemetry_json (ev_mc a))" "clean (mc_telemetry_json (ev_mc b))"
  shows "NEWLINE \<notin> set (event_line env a @ event_line env' b)"
proof -
  have "NEWLINE \<notin> set (event_line env ev)" if "is_meshcore (ev_mc ev)" "clean (mc_telemetry_json (ev_mc ev))" for env ev
  proof -
    have "list_all (\<lambda>c. \<not> breaks c) (serialize_event env ev)"
      using that by (simp add: serialize_event_def feed_serialize_event_meshcore_def mc_members_def Let_def
          no_breaks_calls no_breaks_sets no_breaks_parts)
    then have "clean (event_line env ev)"
      unfolding event_line_def by (intro clean_run) (simp_all add: jw_init_def)
    then show ?thesis by (auto simp: clean_def NEWLINE_def)
  qed
  then show ?thesis using assms by simp
qed

theorem meshcore_lines_run_together_witness:
  "NEWLINE \<notin> set (event_line sample_env sample_mc @ event_line sample_env sample_mc)"
  by (rule meshcore_lines_run_together) (simp_all add: sample_mc_def mesh_event0_def mc_event0_def)

end
