(* ===== verification/Spec2Isabelle.thy ===== *)
theory Spec2Isabelle
  imports Lora_Inv Mesh_Ports Mesh_Telemetry Mesh_Atak Psk_Dict Meshcore_Hashtag Iq_Ring Node_Db Publish Meshcore_Recover Feed
begin

text \<open>
  A verification development of the meshcore-sniffer LoRa receiver.
\<close>

subsection \<open>From the CRC to the feed\<close>

definition outer_names :: "string list" where
  "outer_names = [''station'', ''ts'', ''station_lat'', ''station_lon'', ''station_alt_m'', ''from'', ''to'', ''packet_id'',
     ''channel_hash'', ''slot_id'', ''hop_limit'', ''hop_start'', ''relay_node'', ''want_ack'', ''via_mqtt'', ''rssi_db'',
     ''snr_db'', ''payload_crc_ok'', ''crc_corrected'', ''crc_corrected_bits'', ''fields_trusted'', ''raw_hex'', ''cfo_hz'',
     ''station_t_ns'', ''station_t_acc_ns'', ''preamble_lock_sample_idx'', ''preamble_lock_sample_frac'',
     ''sample_rate_sps'', ''preamble_lock_t_ns'', ''sf'', ''cr'', ''bw_hz'', ''freq_hz'', ''preset'']"

definition outer_call :: "jw_call \<Rightarrow> bool" where
  "outer_call c \<longleftrightarrow> field_call c \<and> call_name c \<in> set outer_names"

lemma outer_sets:
  "outer_call c \<Longrightarrow> list_all outer_call (if_set b c)"
  "n \<in> set outer_names \<Longrightarrow> list_all outer_call (u32_set n w)" "n \<in> set outer_names \<Longrightarrow> list_all outer_call (u64_set n w')"
  "n \<in> set outer_names \<Longrightarrow> list_all outer_call (f32_set n w)"
  by (simp_all add: if_set_def u32_set_def u64_set_def f32_set_def outer_call_def)

lemma outer_parts: "list_all outer_call (feed_outer env ev)"
proof -
  have "list_all outer_call (feed_station env)"
    by (simp add: feed_station_def outer_call_def outer_names_def split: option.split)
  moreover have "list_all outer_call (feed_crc ev)" "list_all outer_call (feed_radio ev)"
    by (simp_all add: feed_crc_def feed_radio_def outer_sets outer_call_def outer_names_def)
  moreover have "list_all outer_call (feed_timing env ev)"
    by (simp add: feed_timing_def outer_sets outer_call_def outer_names_def)
  moreover have "list_all outer_call (feed_header ev)"
    using \<open>list_all outer_call (feed_crc ev)\<close> by (simp add: feed_header_def Let_def outer_sets outer_call_def outer_names_def)
  ultimately show ?thesis by (simp add: feed_outer_def outer_sets outer_call_def outer_names_def)
qed

text \<open>
  C7: a frame that failed its CRC shows nothing of its content.  Whatever a Meshtastic decoder read from
  such a frame, after the stamping and gating of the publisher the JSON line says that it is neither
  decrypted nor trusted, and its only other members are the radio header and the reception data:
  no port, no text, no position.
\<close>

theorem crc_failed_fields_hidden:
  assumes "fx_has_crc c" "\<not> fx_payload_crc_ok c" "\<not> is_meshcore (ev_mc ev0)"
    and "ev = gate_event (stamp_event cfg p (Some c) ev0)"
    and "list_all printable (feed_outer env ev)" "length (calls_text (serialize_event env ev) True) < 2048"
  shows "\<exists>fs. json_read (event_line env ev) = Some (JObj fs, [NEWLINE])
    \<and> (''decrypted'', JBool False) \<in> set fs \<and> (''fields_trusted'', JBool False) \<in> set fs
    \<and> fst ` set fs \<subseteq> insert ''decrypted'' (set outer_names)"
proof -
  have ev: "\<not> ev_decrypted ev" "ev_has_crc ev" "\<not> ev_payload_crc_ok ev" "\<not> is_meshcore (ev_mc ev)"
    using assms(1-3) by (auto simp: assms(4) gate_event_def stamp_event_simps)
  then have m: "mesh_members env ev = feed_outer env ev @ [JwBool ''decrypted'' False]" and t: "\<not> fields_trusted ev"
    by (simp_all add: mesh_members_def feed_inner_def fields_trusted_def)
  have pr: "list_all printable (mesh_members env ev)" using assms(5) by (simp add: m)
  have "list_all outer_call (feed_outer env ev)" by (rule outer_parts)
  then have o: "list_all field_call (feed_outer env ev)" "call_name ` set (feed_outer env ev) \<subseteq> set outer_names"
    by (auto simp: list_all_iff outer_call_def)
  have "fst ` set (members (mesh_members env ev)) \<subseteq> call_name ` set (mesh_members env ev)"
    using member_names [of "mesh_members env ev"] pr o(1) by (simp add: m)
  also have "\<dots> \<subseteq> insert ''decrypted'' (set outer_names)" using o(2) by (auto simp: m)
  finally have "fst ` set (members (mesh_members env ev)) \<subseteq> insert ''decrypted'' (set outer_names)" .
  moreover have "members (mesh_members env ev) = members (feed_outer env ev) @ members [JwBool ''decrypted'' False]"
    using pr unfolding m by (intro members_append nesting) simp_all
  ultimately show ?thesis
    using event_line_json [OF ev(4) pr assms(6)] header_members(2) [OF printable_parts(1) [OF pr]] t
      mesh_members_parts(1) [OF pr] by (auto simp: members_single)
qed

definition failed_ctx :: frame_emit_ctx where
  "failed_ctx = \<lparr> fx_channel_id = -1, fx_has_crc = True, fx_payload_crc_ok = False, fx_crc_corrected = False,
     fx_crc_corrected_bits = 0, fx_cfo_hz = 0, fx_station_t_ns = 0, fx_station_t_acc_ns = 0,
     fx_preamble_lock_sample_idx = 0, fx_preamble_lock_sample_frac = 0, fx_preamble_lock_t_ns = 0 \<rparr>"

definition failed_event :: "mesh_event \<Rightarrow> mesh_event" where
  "failed_event ev = gate_event (stamp_event sample_config sample_pipeline (Some failed_ctx) ev)"

lemma failed_outer:
  "feed_outer sample_env (failed_event (sample_mesh port q)) =
     [JwStr ''station'' None, JwF64 ''ts'' (Finite \<lparr> f_neg = False, f_man = 0, f_exp = 0 \<rparr>),
      JwStr ''from'' (Some (node_text 0)), JwStr ''to'' (Some (node_text 0)), JwU32 ''packet_id'' 0, JwU32 ''channel_hash'' 0,
      JwU32 ''hop_limit'' 0, JwU32 ''hop_start'' 0, JwBool ''payload_crc_ok'' False, JwBool ''fields_trusted'' False]"
  by (simp add: feed_outer_def feed_station_def feed_header_def feed_timing_def feed_radio_def feed_crc_def sample_env_def
      failed_event_def failed_ctx_def gate_event_def crc_recovery_needs_gate_def stamp_event_def channel_in_range_def
      sample_config_def sample_mesh_def mesh_event0_def mesh_header0_def if_set_def u32_set_def f32_set_def f32_nonzero_def f32_gt_def
      f32_key_def f32_nan_def fields_trusted_def take_bit_eq_mod)

lemma failed_fits:
  "length (calls_text (serialize_event sample_env (failed_event (sample_mesh 1 [0x68]))) True) < 2048"
  "list_all printable (feed_outer sample_env (failed_event (sample_mesh 1 [0x68])))"
proof -
  have f: "\<not> is_meshcore (ev_mc (failed_event (sample_mesh 1 [0x68])))" "\<not> ev_decrypted (failed_event (sample_mesh 1 [0x68]))"
    using sample_not_meshcore [of 1 "[0x68]"]
    by (simp_all add: failed_event_def gate_event_def stamp_event_simps failed_ctx_def)
  then show "length (calls_text (serialize_event sample_env (failed_event (sample_mesh 1 [0x68]))) True) < 2048"
    by (simp add: serialize_event_def mesh_members_def failed_outer feed_inner_def
        name_text_def sep_def quoted_def esc_char_def QUOTE_def BACKSLASH_def zero_text fmt_flt_def small_digits node_text_0)
  show "list_all printable (feed_outer sample_env (failed_event (sample_mesh 1 [0x68])))"
    by (simp add: failed_outer finite_flt_def)
qed

theorem crc_failed_fields_hidden_witness:
  "\<exists>fs. json_read (event_line sample_env (failed_event (sample_mesh 1 [0x68]))) = Some (JObj fs, [NEWLINE])
     \<and> (''decrypted'', JBool False) \<in> set fs \<and> ''text'' \<notin> fst ` set fs"
proof -
  have "fx_has_crc failed_ctx" "\<not> fx_payload_crc_ok failed_ctx" by (simp_all add: failed_ctx_def)
  moreover have "''text'' \<notin> insert ''decrypted'' (set outer_names)" by (simp add: outer_names_def)
  ultimately show ?thesis
    using crc_failed_fields_hidden [OF _ _ sample_not_meshcore failed_event_def failed_fits(2,1)] by blast
qed


definition control_event :: mesh_event where
  "control_event = mesh_event0\<lparr> ev_decrypted := True, ev_mc := mc_event0\<lparr> is_meshcore := True, mc_payload_type := 11,
     mc_ctl_subtype := ''NODE_DISCOVER_RESP'', mc_adv_type := 2 \<rparr> \<rparr>"

lemma control_members:
  "mc_members sample_env (failed_event control_event) =
     [JwStr ''station'' None, JwF64 ''ts'' (Finite \<lparr> f_neg = False, f_man = 0, f_exp = 0 \<rparr>),
      JwStr ''protocol'' (Some ''meshcore''), JwStr ''mc_type'' (Some ''UNKNOWN''), JwU32 ''route_type'' 0,
      JwStr ''route_type_name'' (Some ''transport_flood''), JwU32 ''payload_type'' 11, JwU32 ''payload_ver'' 0,
      JwBool ''decrypted'' False, JwBool ''payload_crc_ok'' False,
      JwStr ''ctl_subtype'' (Some ''NODE_DISCOVER_RESP''), JwU32 ''ctl_tag'' 0, JwU32 ''adv_type'' 2,
      JwStr ''adv_type_name'' (Some ''REPEATER''), JwF32 ''ctl_snr'' (f64_div 0 4)]"
  by (simp add: mc_members_def feed_station_def sample_env_def control_event_def mesh_event0_def mc_event0_def route_type_name_def
      failed_event_def failed_ctx_def gate_event_def crc_recovery_needs_gate_def stamp_event_def channel_in_range_def
      feed_mc_route_def feed_mc_radio_def feed_mc_payload_def if_set_def u32_set_def f32_set_def f32_nonzero_def
      feed_crc_def feed_radio_def mc_derive_from_id_def adv_type_name_def)

lemma control_fits:
  "length (calls_text (serialize_event sample_env (failed_event control_event)) True) < 2048"
  "list_all printable (mc_members sample_env (failed_event control_event))"
proof -
  have m: "is_meshcore (ev_mc (failed_event control_event))" by (simp add: failed_event_def stamp_event_simps control_event_def)
  have d: "dec_digits 11 = ''11''" "dec_digits 2 = ''2''" by (simp_all add: dec_digits.simps char_of_eq_iff)
  have z: "f64_div 0 4 = Finite \<lparr> f_neg = False, f_man = 0, f_exp = 0 \<rparr>" "length (fmt_f 4 \<lparr> f_neg = False, f_man = 0, f_exp = 0 \<rparr>) = 6"
    by (simp_all add: f64_div_def f64_signed_def f64_quot_def fmt_f_def small_digits pad_digits_def)
  show "length (calls_text (serialize_event sample_env (failed_event control_event)) True) < 2048"
    using m by (simp add: serialize_event_def feed_serialize_event_meshcore_def control_members
        name_text_def sep_def quoted_def esc_char_def QUOTE_def BACKSLASH_def zero_text fmt_flt_def small_digits d z)
  show "list_all printable (mc_members sample_env (failed_event control_event))"
    by (simp add: control_members finite_flt_def z)
qed


end
